(* ===== verification/Go_Prelude.thy ===== *)
theory Go_Prelude
  imports Main "HOL-Library.AList" "HOL-Library.Multiset" "HOL-Library.Sublist"
    "HOL-Library.List_Lexorder" "HOL-Library.Char_ord" "HOL-Library.Code_Target_Nat"
begin

text \<open>
  What the Go language and its standard library mean in this development: byte strings and the
  functions of package \<^verbatim>\<open>strings\<close> the module calls, \<^verbatim>\<open>path/filepath\<close>, the line
  scanner of \<^verbatim>\<open>bufio\<close>, the builtin \<^verbatim>\<open>map[string]string\<close>, and \<^verbatim>\<open>error\<close>
  values. A Go string is its bytes, a \<^typ>\<open>string\<close>. The generic lemmas on lists, association
  lists and strings that the component theories share are here too, in the collections
  \<open>go_eval\<close> (equations that evaluate a library call), \<open>gomap_simps\<close> (reads after writes of a
  map) and \<open>frame_simps\<close> (what an operation of the model leaves alone; filled by the components).
\<close>

named_theorems go_eval "evaluation of standard-library calls"
named_theorems gomap_simps "reads and writes of Go maps"
named_theorems frame_simps "fields an operation leaves alone"

section \<open>Error values\<close>

text \<open>
  The classification that the predicates of \<^verbatim>\<open>k8s.io/apimachinery/pkg/api/errors\<close>,
  \<^verbatim>\<open>meta.IsNoMatchError\<close> and \<^verbatim>\<open>runtime.IsNotRegisteredError\<close> read off a client
  error.
\<close>

datatype kerror = NotFound | Conflict | NoMatch | NotRegistered | OtherKube string

text \<open>
  A Go \<^verbatim>\<open>error\<close>: an operating-system error (with the operation and the path, as
  \<^verbatim>\<open>PathError\<close> has them), the scanner's \<^verbatim>\<open>bufio.ErrTooLong\<close>, a client error, an
  error of a package outside the repository, a fresh text, or a wrapped error
  (\<^verbatim>\<open>fmt.Errorf\<close> with \<^verbatim>\<open>%w\<close>).
\<close>

datatype goerror =
    ENotExist string
  | EIO string string
  | ETooLong
  | EKube kerror
  | EExt string
  | EText string
  | EWrap string goerror

fun os_IsNotExist :: "goerror \<Rightarrow> bool" where
  "os_IsNotExist (ENotExist p) = True"
| "os_IsNotExist e = False"

section \<open>Package strings\<close>

abbreviation NL :: char where "NL \<equiv> CHR 0x0A"
abbreviation CR :: char where "CR \<equiv> CHR 0x0D"

text \<open>\<^verbatim>\<open>strings.LastIndex\<close> for a one-byte separator: an \<^typ>\<open>int\<close>, \<open>-1\<close> when absent.\<close>

fun last_index :: "char \<Rightarrow> string \<Rightarrow> int" where
  "last_index c [] = -1"
| "last_index c (x # xs) =
     (let r = last_index c xs in if 0 \<le> r then r + 1 else if x = c then 0 else -1)"

text \<open>\<^verbatim>\<open>strings.Cut\<close> for a one-byte separator.\<close>

definition cut :: "char \<Rightarrow> string \<Rightarrow> string \<times> string \<times> bool" where
  "cut c s =
     (if c \<in> set s then (takeWhile (\<lambda>x. x \<noteq> c) s, tl (dropWhile (\<lambda>x. x \<noteq> c) s), True)
      else (s, [], False))"

definition trimPrefix :: "string \<Rightarrow> string \<Rightarrow> string" where
  "trimPrefix p s = (if prefix p s then drop (length p) s else s)"

text \<open>
  \<^verbatim>\<open>strings.TrimSpace\<close> removes the runes of \<^verbatim>\<open>unicode.IsSpace\<close> at both ends. On
  bytes these are the UTF-8 encodings below (tab to carriage return, space, U+0085, U+00A0, U+1680,
  U+2000 to U+200A, U+2028, U+2029, U+202F, U+205F, U+3000); a string ends with such a rune exactly
  when it ends with its encoding, since the first byte of an encoding is a rune start.
\<close>

definition space_runes :: "string list" where
  "space_runes =
     map (\<lambda>n. [char_of n]) [9, 10, 11, 12, 13, 32 :: nat]
     @ [[CHR 0xC2, CHR 0x85], [CHR 0xC2, CHR 0xA0], [CHR 0xE1, CHR 0x9A, CHR 0x80]]
     @ map (\<lambda>n. [CHR 0xE2, CHR 0x80, char_of n])
         [0x80, 0x81, 0x82, 0x83, 0x84, 0x85, 0x86, 0x87, 0x88, 0x89, 0x8A, 0xA8, 0xA9, 0xAF :: nat]
     @ [[CHR 0xE2, CHR 0x81, CHR 0x9F], [CHR 0xE3, CHR 0x80, CHR 0x80]]"

definition space_runes_rev :: "string list" where
  "space_runes_rev = map rev space_runes"

text \<open>Drop from the left every prefix listed in \<open>rs\<close> (no listed rune is empty).\<close>

fun strip_left :: "string list \<Rightarrow> nat \<Rightarrow> string \<Rightarrow> string" where
  "strip_left rs 0 s = s"
| "strip_left rs (Suc n) s =
     (case find (\<lambda>r. prefix r s) rs of
        None \<Rightarrow> s
      | Some r \<Rightarrow> strip_left rs n (drop (length r) s))"

definition trimSpace :: "string \<Rightarrow> string" where
  "trimSpace s =
     (let l = strip_left space_runes (length s) s
      in rev (strip_left space_runes_rev (length l) (rev l)))"

fun split_on :: "char \<Rightarrow> string \<Rightarrow> string list" where
  "split_on c [] = [[]]"
| "split_on c (x # xs) =
     (if x = c then [] # split_on c xs
      else case split_on c xs of [] \<Rightarrow> [[x]] | l # ls \<Rightarrow> (x # l) # ls)"

fun join_with :: "char \<Rightarrow> string list \<Rightarrow> string" where
  "join_with c [] = []"
| "join_with c [s] = s"
| "join_with c (s # ss) = s @ c # join_with c ss"

section \<open>Package fmt\<close>

text \<open>The verb \<^verbatim>\<open>%d\<close> for a length.\<close>

fun decimal :: "nat \<Rightarrow> string" where
  "decimal n = (if n < 10 then [char_of (48 + n)] else decimal (n div 10) @ [char_of (48 + n mod 10)])"

declare decimal.simps [simp del]

text \<open>
  The verb \<^verbatim>\<open>%q\<close> (\<^verbatim>\<open>strconv.Quote\<close>): double quotes around the text, quotes and
  backslashes escaped, control characters by letter or in hexadecimal. Bytes outside ASCII are kept,
  as those of printable runes are.
\<close>

definition hex_digit :: "nat \<Rightarrow> char" where
  "hex_digit n = char_of (if n < 10 then 48 + n else 87 + n)"

definition quote_byte :: "char \<Rightarrow> string" where
  "quote_byte c =
     (let n = of_char c :: nat
      in if c = CHR 0x22 \<or> c = CHR 0x5C then [CHR 0x5C, c]
         else if 7 \<le> n \<and> n \<le> 13 then [CHR 0x5C, ''abtnvfr'' ! (n - 7)]
         else if n < 32 \<or> n = 127 then [CHR 0x5C, CHR ''x'', hex_digit (n div 16), hex_digit (n mod 16)]
         else [c])"

definition quote :: "string \<Rightarrow> string" where
  "quote s = CHR 0x22 # concat (map quote_byte s) @ [CHR 0x22]"

section \<open>Package path/filepath\<close>

abbreviation SLASH :: char where "SLASH \<equiv> CHR ''/''"

text \<open>\<^verbatim>\<open>filepath.Clean\<close> on Unix: the components are read left to right onto a stack.\<close>

fun clean_stack :: "bool \<Rightarrow> string list \<Rightarrow> string list \<Rightarrow> string list" where
  "clean_stack rooted st [] = st"
| "clean_stack rooted st (c # cs) =
     (if c = [] \<or> c = ''.'' then clean_stack rooted st cs
      else if c = ''..'' then
        (if st \<noteq> [] \<and> hd st \<noteq> ''..'' then clean_stack rooted (tl st) cs
         else if rooted then clean_stack rooted st cs
         else clean_stack rooted (c # st) cs)
      else clean_stack rooted (c # st) cs)"

definition clean :: "string \<Rightarrow> string" where
  "clean p =
     (if p = [] then ''.''
      else let rooted = (hd p = SLASH);
               body = join_with SLASH (rev (clean_stack rooted [] (split_on SLASH p)))
           in if rooted then SLASH # body else if body = [] then ''.'' else body)"

definition path_join :: "string list \<Rightarrow> string" where
  "path_join es =
     (let ne = filter (\<lambda>e. e \<noteq> []) es in if ne = [] then [] else clean (join_with SLASH ne))"

section \<open>bufio.Scanner with ScanLines\<close>

text \<open>
  The lines of a text without their newline; a last line without newline counts when it is not
  empty. One carriage return at the end of a line is dropped. The scanner's buffer holds
  \<^verbatim>\<open>bufio.MaxScanTokenSize\<close> bytes: a line that fills it before its newline is found stops the
  scan with \<^verbatim>\<open>ErrTooLong\<close>.
\<close>

fun raw_lines :: "string \<Rightarrow> string list" where
  "raw_lines [] = []"
| "raw_lines (c # cs) =
     (if c = NL then [] # raw_lines cs
      else case raw_lines cs of [] \<Rightarrow> [[c]] | l # ls \<Rightarrow> (c # l) # ls)"

definition dropCR :: "string \<Rightarrow> string" where
  "dropCR l = (if l \<noteq> [] \<and> last l = CR then butlast l else l)"

definition maxScanTokenSize :: nat where
  "maxScanTokenSize = 65536"

definition scan_lines :: "string \<Rightarrow> goerror + string list" where
  "scan_lines s =
     (let ls = raw_lines s
      in if \<exists>l \<in> set ls. maxScanTokenSize \<le> length l then Inl ETooLong
         else Inr (map dropCR ls))"

section \<open>The builtin map\<close>

text \<open>
  A \<^verbatim>\<open>map[string]string\<close> is an association list with distinct keys. The language leaves the
  order of \<^verbatim>\<open>range\<close> over a map open: code that ranges over a map takes the order as a
  parameter, a rearrangement of the list.
\<close>

type_synonym gomap = "(string \<times> string) list"

definition gomap_wf :: "gomap \<Rightarrow> bool" where
  "gomap_wf m = distinct (map fst m)"

text \<open>Reading an absent key gives the zero value.\<close>

definition gomap_get :: "gomap \<Rightarrow> string \<Rightarrow> string" where
  "gomap_get m k = (case map_of m k of None \<Rightarrow> [] | Some v \<Rightarrow> v)"

definition gomap_set :: "string \<Rightarrow> string \<Rightarrow> gomap \<Rightarrow> gomap" where
  "gomap_set k v m = AList.update k v m"

definition range_order :: "(gomap \<Rightarrow> gomap) \<Rightarrow> bool" where
  "range_order rng = (\<forall>m. mset (rng m) = mset m)"

section \<open>Lemmas\<close>

subsection \<open>Strings\<close>

lemma last_index_bounds: "-1 \<le> last_index c s \<and> last_index c s < int (length s)"
  by (induction s) (auto simp: Let_def)

lemma last_index_absent [go_eval]: "last_index c s = -1 \<longleftrightarrow> c \<notin> set s"
proof (induction s)
  case (Cons x xs)
  then show ?case using last_index_bounds [of c xs] by (auto simp: Let_def)
qed simp

lemma last_index_append:
  "last_index c (xs @ ys) =
     (if c \<in> set ys then int (length xs) + last_index c ys else last_index c xs)"
proof (induction xs)
  case Nil
  then show ?case using last_index_absent [of c ys] by (auto simp: last_index_absent)
next
  case (Cons x xs)
  show ?case
  proof (cases "c \<in> set ys")
    case True
    then have "0 \<le> last_index c ys"
      using last_index_absent [of c ys] last_index_bounds [of c ys] by linarith
    with True Cons show ?thesis by (simp add: Let_def)
  next
    case False
    with Cons show ?thesis by (simp add: Let_def)
  qed
qed

lemma last_index_last [go_eval]:
  assumes "c \<notin> set ys"
  shows "last_index c (xs @ c # ys) = int (length xs)"
  using assms last_index_absent [of c ys] by (simp add: last_index_append Let_def)

lemma last_index_split:
  assumes "0 \<le> last_index c s"
  obtains xs ys where "s = xs @ c # ys" and "c \<notin> set ys" and "last_index c s = int (length xs)"
proof -
  have "c \<in> set s" using assms last_index_absent [of c s] by auto
  then obtain xs ys where "s = xs @ c # ys" and "c \<notin> set ys"
    by (metis split_list_last)
  then show thesis using that by (simp add: last_index_last)
qed

lemma cut_append [go_eval]:
  assumes "c \<notin> set k"
  shows "cut c (k @ c # v) = (k, v, True)"
proof -
  from assms have "takeWhile (\<lambda>x. x \<noteq> c) (k @ c # v) = k"
    and "dropWhile (\<lambda>x. x \<noteq> c) (k @ c # v) = c # v"
    by (induction k) auto
  then show ?thesis by (simp add: cut_def)
qed

lemma cut_found:
  assumes "cut c s = (k, v, True)"
  shows "s = k @ c # v" and "c \<notin> set k"
proof -
  from assms have c: "c \<in> set s" and k: "k = takeWhile (\<lambda>x. x \<noteq> c) s"
    and v: "v = tl (dropWhile (\<lambda>x. x \<noteq> c) s)"
    by (auto simp: cut_def split: if_splits)
  from c have "dropWhile (\<lambda>x. x \<noteq> c) s \<noteq> []" by (auto simp: dropWhile_eq_Nil_conv)
  then have "dropWhile (\<lambda>x. x \<noteq> c) s = c # v"
    using hd_dropWhile [of "\<lambda>x. x \<noteq> c" s] v by (metis list.collapse)
  then show "s = k @ c # v" using k takeWhile_dropWhile_id [of "\<lambda>x. x \<noteq> c" s] by simp
  show "c \<notin> set k" using k by (auto dest: set_takeWhileD)
qed

subsection \<open>Lines\<close>

lemma raw_lines_Cons_line [go_eval]:
  assumes "NL \<notin> set l"
  shows "raw_lines (l @ NL # s) = l # raw_lines s"
  using assms by (induction l) auto

lemma raw_lines_no_NL: "l \<in> set (raw_lines s) \<Longrightarrow> NL \<notin> set l"
proof (induction s arbitrary: l)
  case (Cons c cs)
  then show ?case by (cases "raw_lines cs") (auto split: if_splits)
qed simp

lemma raw_lines_concat:
  assumes "\<forall>l \<in> set ls. NL \<notin> set l"
  shows "raw_lines (concat (map (\<lambda>l. l @ [NL]) ls)) = ls"
  using assms by (induction ls) (auto simp: raw_lines_Cons_line)

lemma dropCR_id [go_eval]: "l = [] \<or> last l \<noteq> CR \<Longrightarrow> dropCR l = l"
  by (auto simp: dropCR_def)

lemma dropCR_subset: "set (dropCR l) \<subseteq> set l"
  by (auto simp: dropCR_def dest: in_set_butlastD)

lemma scan_lines_no_NL:
  assumes "scan_lines s = Inr ls" and "l \<in> set ls"
  shows "NL \<notin> set l"
proof -
  from assms obtain r where "r \<in> set (raw_lines s)" and "l = dropCR r"
    by (auto simp: scan_lines_def Let_def split: if_splits)
  then show ?thesis using raw_lines_no_NL [of r s] dropCR_subset [of r] by auto
qed

subsection \<open>Paths\<close>

definition simple_comp :: "string \<Rightarrow> bool" where
  "simple_comp c = (c \<noteq> [] \<and> c \<noteq> ''.'' \<and> c \<noteq> ''..'' \<and> SLASH \<notin> set c)"

definition subpath :: "string \<Rightarrow> string list \<Rightarrow> string" where
  "subpath d cs = d @ concat (map (\<lambda>c. SLASH # c) cs)"

text \<open>What the stack of \<^const>\<open>clean_stack\<close> holds: plain components above leading \<open>..\<close> ones.\<close>

definition stack_ok :: "bool \<Rightarrow> string list \<Rightarrow> bool" where
  "stack_ok rooted st =
     (\<exists>a n. st = a @ replicate n ''..'' \<and> list_all simple_comp a \<and> (rooted \<longrightarrow> n = 0))"

lemma split_on_append_sep: "split_on c (a @ c # b) = split_on c a @ split_on c b"
proof (induction a)
  case (Cons x a)
  have "split_on c a \<noteq> []" by (induction a) (auto split: list.splits)
  with Cons show ?case by (auto split: list.splits)
qed simp

lemma split_on_no_sep: "c \<notin> set s \<Longrightarrow> split_on c s = [s]"
  by (induction s) auto

lemma split_on_elem: "x \<in> set (split_on c s) \<Longrightarrow> c \<notin> set x"
proof (induction s arbitrary: x)
  case (Cons y s)
  then show ?case by (cases "split_on c s") (auto split: if_splits)
qed simp

lemma split_on_nonempty [simp]: "split_on c s \<noteq> []"
  by (induction s) (auto split: list.splits)

lemma join_split [simp]: "join_with c (split_on c s) = s"
proof (induction s)
  case (Cons x s)
  obtain l ls where "split_on c s = l # ls" by (cases "split_on c s") auto
  with Cons show ?case by (cases ls) auto
qed simp

lemma split_on_join:
  assumes "ls \<noteq> []" and "\<forall>l \<in> set ls. c \<notin> set l"
  shows "split_on c (join_with c ls) = ls"
  using assms
proof (induction ls rule: induct_list012)
  case (3 x y zs)
  then show ?case by (simp add: split_on_append_sep split_on_no_sep)
qed (simp_all add: split_on_no_sep)

lemma clean_stack_append:
  "clean_stack r st (cs @ ds) = clean_stack r (clean_stack r st cs) ds"
  by (induction cs arbitrary: st) auto

lemma clean_stack_simple: "list_all simple_comp cs \<Longrightarrow> clean_stack r st cs = rev cs @ st"
  by (induction cs arbitrary: st) (auto simp: simple_comp_def)

lemma stack_okI: "list_all simple_comp a \<Longrightarrow> (r \<Longrightarrow> n = 0) \<Longrightarrow> stack_ok r (a @ replicate n ''..'')"
  by (auto simp: stack_ok_def)

lemma stack_ok_push:
  assumes "stack_ok r st" and "simple_comp c"
  shows "stack_ok r (c # st)"
proof -
  from assms(1) obtain a n where "st = a @ replicate n ''..''" "list_all simple_comp a"
    "r \<longrightarrow> n = 0" by (auto simp: stack_ok_def)
  with assms(2) show ?thesis using stack_okI [of "c # a" r n] by simp
qed

lemma stack_ok_pop:
  assumes "stack_ok r st" and "st \<noteq> []" and "hd st \<noteq> ''..''"
  shows "stack_ok r (tl st)"
proof -
  from assms(1) obtain a n where a: "st = a @ replicate n ''..''" "list_all simple_comp a"
    "r \<longrightarrow> n = 0" by (auto simp: stack_ok_def)
  with assms(2,3) have "a \<noteq> []" by (cases n) auto
  then have "tl st = tl a @ replicate n ''..''" and "list_all simple_comp (tl a)"
    using a by (cases a; simp)+
  with a(3) show ?thesis unfolding stack_ok_def by blast
qed

lemma stack_ok_dotdot:
  assumes "stack_ok False st" and "st = [] \<or> hd st = ''..''"
  shows "stack_ok False (''..'' # st)"
proof -
  from assms(1) obtain a n where a: "st = a @ replicate n ''..''" "list_all simple_comp a"
    by (auto simp: stack_ok_def)
  with assms(2) have "a = []" by (cases a) (auto simp: simple_comp_def)
  with a have "''..'' # st = [] @ replicate (Suc n) ''..''" by simp
  then show ?thesis using stack_okI [of "[]" False "Suc n"] by simp
qed

lemma clean_stack_ok:
  assumes "stack_ok r st" and "\<forall>c \<in> set cs. SLASH \<notin> set c"
  shows "stack_ok r (clean_stack r st cs)"
  using assms
proof (induction cs arbitrary: st)
  case (Cons c cs)
  have "stack_ok r (c # st)"
    if "c \<noteq> []" "c \<noteq> ''.''" "c \<noteq> ''..''"
    using that Cons.prems by (intro stack_ok_push) (auto simp: simple_comp_def)
  moreover have "stack_ok r (''..'' # st)" if "\<not> r" "st = [] \<or> hd st = ''..''"
    using that Cons.prems stack_ok_dotdot by auto
  ultimately show ?case
    using Cons stack_ok_pop [of r st] by auto
qed simp

lemma clean_stack_rev:
  assumes "stack_ok r st"
  shows "clean_stack r [] (rev st) = st"
proof -
  from assms obtain a n where a: "st = a @ replicate n ''..''" "list_all simple_comp a"
    "r \<longrightarrow> n = 0" by (auto simp: stack_ok_def)
  have dots: "clean_stack False (replicate m ''..'') (replicate n ''..'') = replicate (m + n) ''..''"
    for m n
  proof (induction n arbitrary: m)
    case (Suc n)
    have "clean_stack False (replicate m ''..'') (replicate (Suc n) ''..'')
            = clean_stack False (replicate (Suc m) ''..'') (replicate n ''..'')"
      by (cases m) simp_all
    with Suc show ?case by (simp del: replicate.simps)
  qed simp
  have "clean_stack r [] (replicate n ''..'') = replicate n ''..''"
    using dots [of 0 n] a(3) by (cases r) simp_all
  with a show ?thesis by (simp add: clean_stack_append clean_stack_simple list_all_iff)
qed

text \<open>The stack a path is cleaned to; appending plain components to a clean path appends text.\<close>

definition path_stack :: "string \<Rightarrow> string list" where
  "path_stack p = clean_stack (hd p = SLASH) [] (split_on SLASH p)"

lemma path_stack_ok: "stack_ok (hd p = SLASH) (path_stack p)"
  unfolding path_stack_def
  by (rule clean_stack_ok) (auto simp: stack_ok_def dest: split_on_elem)

lemma stack_ok_no_slash:
  assumes "stack_ok r st" and "c \<in> set st"
  shows "SLASH \<notin> set c \<and> c \<noteq> []"
proof -
  from assms(1) obtain a n where a: "st = a @ replicate n ''..''" "list_all simple_comp a"
    unfolding stack_ok_def by blast
  from a(1) assms(2) have "c \<in> set a \<or> c = ''..''" by auto
  then show ?thesis
  proof
    assume "c \<in> set a"
    with a(2) show ?thesis by (simp add: list_all_iff simple_comp_def)
  qed simp
qed

lemma join_Cons: "join_with SLASH (x # cs) = subpath x cs"
proof (induction cs arbitrary: x)
  case (Cons y cs)
  then show ?case by (simp add: subpath_def)
qed (simp add: subpath_def)

lemma join_append_simple:
  assumes "ls \<noteq> []"
  shows "join_with SLASH (ls @ cs) = subpath (join_with SLASH ls) cs"
  using assms
proof (induction ls rule: induct_list012)
  case (2 x)
  show ?case by (simp add: join_Cons)
next
  case (3 x y zs)
  then show ?case by (simp add: subpath_def)
qed simp

lemma split_subpath:
  assumes "list_all simple_comp cs"
  shows "split_on SLASH (subpath d cs) = split_on SLASH d @ cs"
  using assms
proof (induction cs arbitrary: d)
  case (Cons c cs)
  then have "split_on SLASH (subpath (d @ SLASH # c) cs) = split_on SLASH (d @ SLASH # c) @ cs"
    by simp
  with Cons.prems show ?case
    by (simp add: subpath_def split_on_append_sep split_on_no_sep simple_comp_def)
qed (simp add: subpath_def)

lemma clean_as_stack:
  "p \<noteq> [] \<Longrightarrow> path_stack p \<noteq> [] \<Longrightarrow>
     clean p = (if hd p = SLASH then [SLASH] else []) @ join_with SLASH (rev (path_stack p))"
proof -
  assume p: "p \<noteq> []" and st: "path_stack p \<noteq> []"
  have "join_with SLASH (rev (path_stack p)) \<noteq> []"
  proof -
    obtain x xs where x: "rev (path_stack p) = x # xs" using st by (metis neq_Nil_conv rev_is_Nil_conv)
    then have "x \<in> set (path_stack p)" by (metis list.set_intros(1) set_rev)
    then have "x \<noteq> []" using stack_ok_no_slash [OF path_stack_ok] by blast
    then show ?thesis by (simp add: x join_Cons subpath_def)
  qed
  with p show ?thesis by (cases "hd p = SLASH") (simp_all add: clean_def path_stack_def Let_def)
qed

lemma clean_hd:
  assumes "p \<noteq> []" and "path_stack p \<noteq> []"
  shows "clean p \<noteq> []" and "(hd (clean p) = SLASH) = (hd p = SLASH)"
proof -
  obtain x xs where x: "rev (path_stack p) = x # xs"
    using assms(2) by (metis neq_Nil_conv rev_is_Nil_conv)
  then have "x \<in> set (path_stack p)" by (metis list.set_intros(1) set_rev)
  then have "x \<noteq> []" and "SLASH \<notin> set x" using stack_ok_no_slash [OF path_stack_ok] by blast+
  then have "hd x \<noteq> SLASH" by (metis hd_in_set)
  then show "clean p \<noteq> []" and "(hd (clean p) = SLASH) = (hd p = SLASH)"
    using \<open>x \<noteq> []\<close> by (auto simp: clean_as_stack [OF assms] x join_Cons subpath_def)
qed

lemma path_stack_clean:
  assumes "p \<noteq> []" and "path_stack p \<noteq> []"
  shows "path_stack (clean p) = path_stack p"
proof -
  let ?r = "hd p = SLASH" and ?ls = "rev (path_stack p)"
  have "\<forall>l \<in> set ?ls. SLASH \<notin> set l" using stack_ok_no_slash [OF path_stack_ok] by auto
  then have sp: "split_on SLASH (join_with SLASH ?ls) = ?ls"
    using assms(2) by (intro split_on_join) auto
  have "split_on SLASH (clean p) = (if ?r then [[]] else []) @ ?ls"
    by (simp add: clean_as_stack [OF assms] sp)
  then have "path_stack (clean p) = clean_stack ?r [] ?ls"
    by (simp add: path_stack_def clean_hd(2) [OF assms])
  then show ?thesis using clean_stack_rev [OF path_stack_ok] by simp
qed

lemma clean_subpath:
  assumes "p \<noteq> []" and "path_stack p \<noteq> []" and "list_all simple_comp cs"
  shows "clean (subpath (clean p) cs) = subpath (clean p) cs"
    and "path_stack (subpath (clean p) cs) = rev cs @ path_stack p"
proof -
  let ?q = "subpath (clean p) cs"
  have h: "?q \<noteq> []" "(hd ?q = SLASH) = (hd p = SLASH)"
    using clean_hd [OF assms(1,2)] by (simp_all add: subpath_def)
  show st: "path_stack ?q = rev cs @ path_stack p"
    using path_stack_clean [OF assms(1,2)] h(2) clean_hd(2) [OF assms(1,2)] assms(3)
    by (simp add: path_stack_def split_subpath clean_stack_append clean_stack_simple)
  have "clean ?q = (if hd p = SLASH then [SLASH] else []) @ join_with SLASH (rev (path_stack p) @ cs)"
    using clean_as_stack [OF h(1)] st h(2) assms(2) by simp
  also have "\<dots> = ?q"
    using assms(2) by (simp add: join_append_simple clean_as_stack [OF assms(1,2)] subpath_def)
  finally show "clean ?q = ?q" .
qed

lemma path_join_subpath:
  assumes "d \<noteq> []" and "list_all simple_comp cs"
  shows "path_join (d # cs) = clean (subpath d cs)"
proof -
  have "filter (\<lambda>e. e \<noteq> []) (d # cs) = d # cs"
    using assms by (auto simp: filter_id_conv list_all_iff simple_comp_def)
  then show ?thesis unfolding path_join_def by (simp only: Let_def join_Cons) simp
qed

text \<open>Joining plain components below a joined directory is appending them.\<close>

lemma path_join_below:
  assumes "d \<noteq> []" and "cs \<noteq> []" and "list_all simple_comp cs" and "list_all simple_comp ds"
  shows "path_join (path_join (d # cs) # ds) = subpath (path_join (d # cs)) ds"
proof -
  let ?p = "subpath d cs"
  have p: "?p \<noteq> []" using assms(1) by (simp add: subpath_def)
  have "path_stack ?p = rev cs @ path_stack d"
    using assms(1,3)
    by (simp add: path_stack_def split_subpath clean_stack_append clean_stack_simple)
      (simp add: subpath_def)
  with assms(2) have st: "path_stack ?p \<noteq> []" by simp
  have "path_join (d # cs) = clean ?p" by (rule path_join_subpath [OF assms(1,3)])
  then show ?thesis
    using path_join_subpath [OF clean_hd(1) [OF p st] assms(4)] clean_subpath(1) [OF p st assms(4)]
    by simp
qed

subsection \<open>Maps\<close>

lemma gomap_set_wf [gomap_simps, simp]: "gomap_wf m \<Longrightarrow> gomap_wf (gomap_set k v m)"
  by (simp add: gomap_wf_def gomap_set_def distinct_update)

lemma map_of_gomap_set [gomap_simps, simp]: "map_of (gomap_set k v m) = (map_of m)(k \<mapsto> v)"
  by (simp add: gomap_set_def update_conv')

lemma gomap_get_set [gomap_simps, simp]:
  "gomap_get (gomap_set k v m) k' = (if k' = k then v else gomap_get m k')"
  by (simp add: gomap_get_def)

lemma gomap_wf_Nil [simp]: "gomap_wf []"
  by (simp add: gomap_wf_def)

lemma gomap_get_Nil [gomap_simps, simp]: "gomap_get [] k = []"
  by (simp add: gomap_get_def)

lemma range_order_set: "range_order rng \<Longrightarrow> set (rng m) = set m"
  by (metis range_order_def set_mset_mset)

lemma range_order_wf:
  assumes "range_order rng" and "gomap_wf m"
  shows "gomap_wf (rng m)"
proof -
  from assms(1) have "mset (map fst (rng m)) = mset (map fst m)"
    by (simp add: range_order_def)
  then show ?thesis using assms(2) by (metis gomap_wf_def mset_eq_imp_distinct_iff)
qed

lemma range_order_map_of:
  assumes "range_order rng" and "gomap_wf m"
  shows "map_of (rng m) = map_of m"
  using assms range_order_wf [OF assms] range_order_set [OF assms(1), of m]
  by (simp add: gomap_wf_def map_of_inject_set)

end
