(* ===== verification/Ray_Types.thy ===== *)
theory Ray_Types
  imports Go_Prelude
begin

text \<open>
  The data of the module: the constants of \<^verbatim>\<open>internal/constants/constants.go\<close>, the Ray custom
  resource of \<^verbatim>\<open>api/v1alpha1/ray_types.go\<close> with its two admission rules, Kubernetes objects
  as far as the module reads or writes them, the \<^verbatim>\<open>ReconciliationRequest\<close> that every action
  of the pipeline mutates, and the parameters that stand for code outside the repository (the
  Kubernetes client, the platform framework, the kustomize engine, the semver parser). The
  contract that the actions of the pipeline share is the locale \<open>status_action\<close> at the end, with
  its extension \<open>gated_action\<close> for the actions that do nothing once the component is removed.
\<close>

section \<open>Constants\<close>

definition InstanceName :: string where "InstanceName = ''default-ray''"
definition FieldOwner :: string where "FieldOwner = ''ray''"
definition ComponentName :: string where "ComponentName = ''ray''"
definition ManifestsBasePath :: string where "ManifestsBasePath = ''/opt/manifests''"
definition ManifestPath :: string where "ManifestPath = ''kuberay''"
definition ManifestOverlay :: string where "ManifestOverlay = ''openshift''"
definition ConditionDeploymentsAvailable :: string where
  "ConditionDeploymentsAvailable = ''DeploymentsAvailable''"
definition ConditionDegraded :: string where "ConditionDegraded = ''Degraded''"
definition ExtKeyRemoved :: string where "ExtKeyRemoved = ''ray.removed''"
definition FinalizerName :: string where "FinalizerName = ''platform.opendatahub.io/finalizer''"
definition PlatformConfigMapName :: string where "PlatformConfigMapName = ''odh-ray-config''"
definition PlatformNameKey :: string where "PlatformNameKey = ''distribution.name''"
definition PlatformVersionKey :: string where "PlatformVersionKey = ''distribution.version''"
definition PlatformHandshakeKey :: string where "PlatformHandshakeKey = ''platformVersion''"
definition StandaloneDistributionName :: string where
  "StandaloneDistributionName = ''Standalone''"
definition StandaloneDistributionVersion :: string where
  "StandaloneDistributionVersion = ''0.0.0''"
definition KubeRayReleaseName :: string where "KubeRayReleaseName = ''KubeRay''"
definition KubeRayRepoURL :: string where
  "KubeRayRepoURL = ''https://github.com/opendatahub-io/kuberay''"
definition KubeRayImageParam :: string where
  "KubeRayImageParam = ''odh-kuberay-operator-controller-image''"
definition MaxReleaseVersionLength :: nat where "MaxReleaseVersionLength = 64"

text \<open>
  The extension key of \<^verbatim>\<open>params.go\<close>, and the label key that the package
  \<^verbatim>\<open>gc\<close> of the framework exports (its value is the one the tests of this repository
  write out).
\<close>

definition extKeyWritableManifests :: string where
  "extKeyWritableManifests = ''ray.writableManifests''"
definition DefaultPartOfLabelKey :: string where
  "DefaultPartOfLabelKey = ''platform.opendatahub.io/part-of''"

section \<open>The Ray custom resource\<close>

datatype mstate = Managed | Removed | MState string

record distribution =
  dist_Name :: string
  dist_Version :: string

record component_release =
  rel_Name :: string
  rel_Version :: string
  rel_RepoURL :: string

record condition =
  cond_Type :: string
  cond_Status :: string
  cond_Reason :: string
  cond_Message :: string
  cond_ObservedGeneration :: int

record ray_spec =
  ManagementState :: mstate
  ApplicationsNamespace :: string

text \<open>
  \<^verbatim>\<open>RayStatus\<close> embeds the framework's \<^verbatim>\<open>Status\<close> (phase, observed generation,
  conditions) and \<^verbatim>\<open>ComponentReleaseStatus\<close> (releases).
\<close>

record ray_status =
  Phase :: string
  ObservedGeneration :: int
  Conditions :: "condition list"
  Releases :: "component_release list"
  Distribution :: distribution

record ray =
  meta_Name :: string
  meta_UID :: string
  meta_Generation :: int
  meta_Finalizers :: "string list"
  meta_DeletionTimestamp :: "nat option"
  Spec :: ray_spec
  Status :: ray_status

definition GetConditions :: "ray \<Rightarrow> condition list" where
  "GetConditions r = Conditions (Status r)"

text \<open>The framework's part of the status: phase, observed generation and conditions.\<close>

definition GetStatus :: "ray \<Rightarrow> string \<times> int \<times> condition list" where
  "GetStatus r = (Phase (Status r), ObservedGeneration (Status r), Conditions (Status r))"

definition SetConditions :: "condition list \<Rightarrow> ray \<Rightarrow> ray" where
  "SetConditions cs r = r\<lparr>Status := (Status r)\<lparr>Conditions := cs\<rparr>\<rparr>"

definition GetReleaseStatus :: "ray \<Rightarrow> component_release list" where
  "GetReleaseStatus r = Releases (Status r)"

definition SetReleaseStatus :: "component_release list \<Rightarrow> ray \<Rightarrow> ray" where
  "SetReleaseStatus rs r = r\<lparr>Status := (Status r)\<lparr>Releases := rs\<rparr>\<rparr>"

definition RayInstanceName :: string where
  "RayInstanceName = ''default-ray''"

text \<open>
  The two CEL rules on the type: the object is called \<^verbatim>\<open>default-ray\<close>, and
  \<^verbatim>\<open>applicationsNamespace\<close> is immutable once set (an absent field is the empty string of the
  Go struct).
\<close>

definition cel_name_rule :: "ray \<Rightarrow> bool" where
  "cel_name_rule self = (meta_Name self = ''default-ray'')"

definition cel_namespace_rule :: "ray \<Rightarrow> ray \<Rightarrow> bool" where
  "cel_namespace_rule oldSelf self =
     (ApplicationsNamespace (Spec oldSelf) = []
      \<or> ApplicationsNamespace (Spec self) = ApplicationsNamespace (Spec oldSelf))"

section \<open>Kubernetes objects\<close>

record gvk =
  Group :: string
  Version :: string
  Kind :: string

record policy_rule =
  APIGroups :: "string list"
  Resources :: "string list"
  Verbs :: "string list"

text \<open>
  An object of the API: what the module reads or writes of it, the rest of its content kept in
  \<open>obj_Body\<close>. Owner references are their UIDs.
\<close>

record kobj =
  obj_GVK :: gvk
  obj_Namespace :: string
  obj_Name :: string
  obj_Labels :: gomap
  obj_OwnerRefs :: "string list"
  obj_Data :: gomap
  obj_Rules :: "policy_rule list"
  obj_Body :: string

section \<open>The reconciliation request\<close>

datatype extval = EBool bool | EStr string

text \<open>A file tree: paths with their nodes; directories are nodes of their own.\<close>

datatype fnode = FDir | FFile string

type_synonym files = "(string \<times> fnode) list"

record manifest_info =
  mi_Path :: string
  mi_ContextDir :: string
  mi_SourcePath :: string

text \<open>
  What an action can read and write: the fields of \<^verbatim>\<open>types.ReconciliationRequest\<close>
  (\<open>rr_Extensions\<close> is \<open>None\<close> for a nil map), the file system, the process-lifetime cache of
  \<^verbatim>\<open>filterPlatformResources\<close> (\<open>None\<close> before its \<^verbatim>\<open>sync.Once\<close> has fired), and the
  cluster as the client sees it.
\<close>

record 'w rr =
  rr_Instance :: ray
  rr_Extensions :: "(string \<times> extval) list option"
  rr_Manifests :: "manifest_info list"
  rr_Resources :: "kobj list"
  rr_Generated :: bool
  rr_Files :: files
  rr_SCC :: "bool option"
  rr_Cluster :: 'w

text \<open>An action returns its error, and the request it mutated, also when it fails.\<close>

type_synonym 'w action = "'w rr \<Rightarrow> goerror option \<times> 'w rr"
type_synonym 'w getter = "'w rr \<Rightarrow> goerror + string"

definition ext_get :: "'w rr \<Rightarrow> string \<Rightarrow> extval option" where
  "ext_get r k = (case rr_Extensions r of None \<Rightarrow> None | Some m \<Rightarrow> map_of m k)"

text \<open>Writing an extension, with a nil map made first as the code does.\<close>

definition ext_put :: "string \<Rightarrow> extval \<Rightarrow> 'w rr \<Rightarrow> 'w rr" where
  "ext_put k v r =
     r\<lparr>rr_Extensions :=
         Some (AList.update k v (case rr_Extensions r of None \<Rightarrow> [] | Some m \<Rightarrow> m))\<rparr>"

text \<open>\<^verbatim>\<open>removed, _ := rr.Extensions[constants.ExtKeyRemoved].(bool)\<close>\<close>

definition removed :: "'w rr \<Rightarrow> bool" where
  "removed r = (ext_get r ExtKeyRemoved = Some (EBool True))"

abbreviation apps_ns :: "'w rr \<Rightarrow> string" where
  "apps_ns r \<equiv> ApplicationsNamespace (Spec (rr_Instance r))"

section \<open>Parameters: code outside the repository\<close>

text \<open>
  The Kubernetes client. Every call may change the state it is called in (time passes and others
  act), a failed one too. \<open>cli_extractList\<close> is \<^verbatim>\<open>meta.ExtractList\<close> of apimachinery, which
  takes the objects out of a list that was filled by a call: an item that is not a
  \<^verbatim>\<open>client.Object\<close> is \<open>None\<close>.
\<close>

record 'w client =
  cli_getRay :: "string \<Rightarrow> 'w \<Rightarrow> (kerror + ray) \<times> 'w"
  cli_updateRay :: "ray \<Rightarrow> 'w \<Rightarrow> kerror option \<times> 'w"
  cli_get :: "gvk \<Rightarrow> string \<Rightarrow> string \<Rightarrow> 'w \<Rightarrow> (kerror + kobj) \<times> 'w"
  cli_list :: "gvk \<Rightarrow> string option \<Rightarrow> 'w \<Rightarrow> (kerror + kobj list) \<times> 'w"
  cli_extractList :: "kobj list \<Rightarrow> goerror + kobj option list"
  cli_update :: "kobj \<Rightarrow> 'w \<Rightarrow> kerror option \<times> 'w"
  cli_delete :: "kobj \<Rightarrow> 'w \<Rightarrow> kerror option \<times> 'w"
  cli_createOrUpdate :: "kobj \<Rightarrow> (kobj \<Rightarrow> kobj) \<Rightarrow> 'w \<Rightarrow> kerror option \<times> 'w"

datatype gc_option =
    WithDeletePropagationPolicy string
  | WithOnlyCollectOwned bool
  | WithObjectPredicate "kobj \<Rightarrow> goerror + bool"

datatype deploy_option = WithFieldOwner string | WithPartOfLabelDefault string | WithApplyOrder

text \<open>The platform framework, the kustomize engine and the semver parser.\<close>

record 'w framework =
  fw_isStatusConditionTrue :: "ray \<Rightarrow> string \<Rightarrow> bool"
  fw_markTrue :: "string \<Rightarrow> string \<Rightarrow> string \<Rightarrow> ray \<Rightarrow> ray"
  fw_markFalse :: "string \<Rightarrow> string \<Rightarrow> string \<Rightarrow> int \<Rightarrow> ray \<Rightarrow> ray"
  fw_removeFinalizer :: "ray \<Rightarrow> string \<Rightarrow> bool \<times> ray"
  fw_setPlatformRelease :: "string \<Rightarrow> ray_status \<Rightarrow> ray_status"
  fw_render :: "string \<Rightarrow> string \<Rightarrow> files \<Rightarrow> goerror + kobj list"
  fw_hasCRD :: "gvk \<Rightarrow> 'w \<Rightarrow> (goerror + bool) \<times> 'w"
  fw_restMapping :: "string \<Rightarrow> string \<Rightarrow> string \<Rightarrow> 'w \<Rightarrow> goerror option \<times> 'w"
  fw_semver :: "string \<Rightarrow> bool"
  fw_deploy :: "deploy_option list \<Rightarrow> 'w rr \<Rightarrow> goerror option \<times> 'w rr"
  fw_gc :: "('w rr \<Rightarrow> goerror + string) \<Rightarrow> gc_option list \<Rightarrow> 'w rr \<Rightarrow> goerror option \<times> 'w rr"
  fw_deployments :: "('w rr \<Rightarrow> goerror + string) \<Rightarrow> 'w rr \<Rightarrow> goerror option \<times> 'w rr"
  fw_runActions :: "('w rr \<Rightarrow> goerror option \<times> 'w rr) list \<Rightarrow> 'w rr \<Rightarrow> goerror option \<times> 'w rr"

text \<open>
  The operating system: the environment variables, which file operations fail (and how many bytes
  a failing write has written), the random parts that are tried for a temporary file name, and the order of each
  \<^verbatim>\<open>range\<close> over a map (one per loop of the code).
\<close>

datatype fop = FStat | FMkdir | FOpen | FRead | FCreate | FWrite | FRename | FRemove

record env =
  env_getenv :: "string \<Rightarrow> string"
  env_fault :: "fop \<Rightarrow> string \<Rightarrow> bool"
  env_short :: "string \<Rightarrow> nat"
  env_rand :: "nat \<Rightarrow> string"
  env_range :: "nat \<Rightarrow> gomap \<Rightarrow> gomap"

section \<open>Running actions in order\<close>

text \<open>
  The sequence the builder's chain of \<^verbatim>\<open>WithAction\<close> calls asks for: each action on the
  request the one before left, up to the first error. That the framework's executor does this is a
  hypothesis, \<open>runs_in_order\<close>.
\<close>

fun seq_actions :: "'w action list \<Rightarrow> 'w action" where
  "seq_actions [] r = (None, r)"
| "seq_actions (a # as) r =
     (case a r of (Some e, r') \<Rightarrow> (Some e, r') | (None, r') \<Rightarrow> seq_actions as r')"

definition runs_in_order :: "'w framework \<Rightarrow> bool" where
  "runs_in_order fw = (\<forall>as. fw_runActions fw as = seq_actions as)"

section \<open>The contract of an action\<close>

text \<open>Two custom resources that differ in their status at most.\<close>

definition cr_frame :: "ray \<Rightarrow> ray \<Rightarrow> bool" where
  "cr_frame a b = (b\<lparr>Status := Status a\<rparr> = a)"

lemmas constants_defs =
  InstanceName_def FieldOwner_def ComponentName_def ManifestsBasePath_def ManifestPath_def
  ManifestOverlay_def ConditionDeploymentsAvailable_def ConditionDegraded_def ExtKeyRemoved_def
  FinalizerName_def PlatformConfigMapName_def PlatformNameKey_def PlatformVersionKey_def
  PlatformHandshakeKey_def StandaloneDistributionName_def StandaloneDistributionVersion_def
  KubeRayReleaseName_def KubeRayRepoURL_def KubeRayImageParam_def MaxReleaseVersionLength_def
  extKeyWritableManifests_def DefaultPartOfLabelKey_def

section \<open>Lemmas\<close>

lemma cr_frame_refl [simp, intro]: "cr_frame a a"
  by (simp add: cr_frame_def)

lemma cr_frame_trans [trans]: "cr_frame a b \<Longrightarrow> cr_frame b c \<Longrightarrow> cr_frame a c"
  by (cases a; cases b; cases c) (auto simp: cr_frame_def)

lemma cr_frame_status [simp, intro]: "cr_frame a (a\<lparr>Status := st\<rparr>)"
  by (simp add: cr_frame_def)

lemma cr_frame_update: "cr_frame a b \<Longrightarrow> b = a\<lparr>Status := Status b\<rparr>"
  by (cases a; cases b) (simp add: cr_frame_def)

lemma cr_frameD:
  assumes "cr_frame a b"
  shows "Spec b = Spec a" and "meta_Name b = meta_Name a" and "meta_UID b = meta_UID a"
    and "meta_Generation b = meta_Generation a" and "meta_Finalizers b = meta_Finalizers a"
    and "meta_DeletionTimestamp b = meta_DeletionTimestamp a"
  using assms by (cases a; cases b; simp add: cr_frame_def)+

text \<open>The name is written three times in the code: in the API, in the constants, and in the CEL rule.\<close>

lemma instance_name: "cel_name_rule self \<longleftrightarrow> meta_Name self = InstanceName" "RayInstanceName = InstanceName"
  by (simp_all add: cel_name_rule_def InstanceName_def RayInstanceName_def)

lemma ext_get_put [simp]: "ext_get (ext_put k v r) k' = (if k' = k then Some v else ext_get r k')"
  by (auto simp: ext_get_def ext_put_def update_conv' split: option.splits)

lemma ext_put_fields [frame_simps, simp]:
  "rr_Instance (ext_put k v r) = rr_Instance r"
  "rr_Manifests (ext_put k v r) = rr_Manifests r"
  "rr_Resources (ext_put k v r) = rr_Resources r"
  "rr_Generated (ext_put k v r) = rr_Generated r"
  "rr_Files (ext_put k v r) = rr_Files r"
  "rr_SCC (ext_put k v r) = rr_SCC r"
  "rr_Cluster (ext_put k v r) = rr_Cluster r"
  by (simp_all add: ext_put_def)

lemma ext_get_update [simp]:
  "ext_get (r\<lparr>rr_Instance := i\<rparr>) k = ext_get r k"
  "ext_get (r\<lparr>rr_Manifests := ms\<rparr>) k = ext_get r k"
  "ext_get (r\<lparr>rr_Resources := os\<rparr>) k = ext_get r k"
  "ext_get (r\<lparr>rr_Generated := g\<rparr>) k = ext_get r k"
  "ext_get (r\<lparr>rr_Files := f\<rparr>) k = ext_get r k"
  "ext_get (r\<lparr>rr_SCC := c\<rparr>) k = ext_get r k"
  "ext_get (r\<lparr>rr_Cluster := w\<rparr>) k = ext_get r k"
  by (simp_all add: ext_get_def)

lemma removed_update [simp]:
  "removed (r\<lparr>rr_Instance := i\<rparr>) = removed r"
  "removed (r\<lparr>rr_Manifests := ms\<rparr>) = removed r"
  "removed (r\<lparr>rr_Resources := os\<rparr>) = removed r"
  "removed (r\<lparr>rr_Generated := g\<rparr>) = removed r"
  "removed (r\<lparr>rr_Files := f\<rparr>) = removed r"
  "removed (r\<lparr>rr_SCC := c\<rparr>) = removed r"
  "removed (r\<lparr>rr_Cluster := w\<rparr>) = removed r"
  by (simp_all add: removed_def)

lemma removed_ext_put [simp]:
  "removed (ext_put k v r) = (if k = ExtKeyRemoved then v = EBool True else removed r)"
  by (simp add: removed_def)

lemma seq_actions_append:
  "seq_actions (as @ bs) r =
     (case seq_actions as r of (Some e, r') \<Rightarrow> (Some e, r') | (None, r') \<Rightarrow> seq_actions bs r')"
  by (induction as arbitrary: r) (auto split: prod.splits option.splits)

lemma seq_actions_appendD:
  "seq_actions (as @ bs) r = (None, r') \<Longrightarrow> \<exists>r1. seq_actions as r = (None, r1) \<and> seq_actions bs r1 = (None, r')"
  by (auto simp: seq_actions_append split: prod.splits option.splits)

lemma seq_actions_invariant:
  assumes "\<And>a r. a \<in> set as \<Longrightarrow> P r \<Longrightarrow> P (snd (a r))" and "P r"
  shows "P (snd (seq_actions as r))"
  using assms
proof (induction as arbitrary: r)
  case (Cons a as)
  obtain e r' where ar: "a r = (e, r')" by (cases "a r")
  have "P (snd (a r))" by (rule Cons.prems(1)) (simp_all add: Cons.prems(2))
  then have r': "P r'" by (simp add: ar)
  show ?case
  proof (cases e)
    case None
    have "P (snd (seq_actions as r'))" by (rule Cons.IH) (auto intro: Cons.prems(1) r')
    with ar None show ?thesis by simp
  qed (simp add: ar r')
qed simp

locale status_action =
  fixes act :: "'w rr \<Rightarrow> goerror option \<times> 'w rr"
  assumes status_only: "cr_frame (rr_Instance r) (rr_Instance (snd (act r)))"
begin

lemma keeps_spec: "Spec (rr_Instance (snd (act r))) = Spec (rr_Instance r)"
  using status_only by (rule cr_frameD(1))

lemma keeps_identity:
  "meta_Name (rr_Instance (snd (act r))) = meta_Name (rr_Instance r)"
  "meta_UID (rr_Instance (snd (act r))) = meta_UID (rr_Instance r)"
  using cr_frameD [OF status_only] by simp_all

lemma keeps_finalizers: "meta_Finalizers (rr_Instance (snd (act r))) = meta_Finalizers (rr_Instance r)"
  using cr_frameD [OF status_only] by simp

lemma admitted: "cel_namespace_rule (rr_Instance r) (rr_Instance (snd (act r)))"
  by (simp add: cel_namespace_rule_def keeps_spec)

end

text \<open>An action the code skips when the component is removed.\<close>

locale gated_action = status_action act
  for act :: "'w rr \<Rightarrow> goerror option \<times> 'w rr" +
  assumes removed_noop: "removed r \<Longrightarrow> act r = (None, r)"
begin

lemma removed_no_error: "removed r \<Longrightarrow> fst (act r) = None"
  by (simp add: removed_noop)

lemma removed_in_sequence: "removed r \<Longrightarrow> seq_actions (act # as) r = seq_actions as r"
  by (simp add: removed_noop)

end

section \<open>A concrete request\<close>

text \<open>A managed custom resource and a fresh request for it, at which witnesses evaluate.\<close>

definition sample_ray :: ray where
  "sample_ray =
     \<lparr>meta_Name = ''default-ray'', meta_UID = ''u1'', meta_Generation = 3, meta_Finalizers = [],
      meta_DeletionTimestamp = None,
      Spec = \<lparr>ManagementState = Managed, ApplicationsNamespace = ''odh''\<rparr>,
      Status = \<lparr>Phase = [], ObservedGeneration = 0, Conditions = [], Releases = [],
                Distribution = \<lparr>dist_Name = [], dist_Version = []\<rparr>\<rparr>\<rparr>"

definition sample_rr :: "files \<Rightarrow> 'w \<Rightarrow> 'w rr" where
  "sample_rr fs w =
     \<lparr>rr_Instance = sample_ray, rr_Extensions = None, rr_Manifests = [], rr_Resources = [],
      rr_Generated = False, rr_Files = fs, rr_SCC = None, rr_Cluster = w\<rparr>"

end
