(* ===== verification/Params.thy ===== *)
theory Params
  imports Ray_Types
begin

text \<open>
  \<^verbatim>\<open>internal/controller/params.go\<close>, all but the kustomization rewrite: the calls of package
  \<^verbatim>\<open>os\<close> on a file tree with an oracle that says which of them fail, \<^verbatim>\<open>parseParams\<close>,
  \<^verbatim>\<open>updateParam\<close>, \<^verbatim>\<open>applyParams\<close> with its temporary file and rename, and the
  writable copy of the manifests. The theorems: parsing is a left inverse of printing (locale
  \<open>params_codec\<close>), the merge of \<^verbatim>\<open>applyParams\<close> and that it does not depend on the order of
  the map iterations, atomicity under every fault, and the behaviour of the copied tree.
\<close>

unbundle bit_operations_syntax

section \<open>Package os\<close>

definition fs_get :: "files \<Rightarrow> string \<Rightarrow> fnode option" where
  "fs_get fs p = map_of fs p"

definition fs_put :: "string \<Rightarrow> fnode \<Rightarrow> files \<Rightarrow> files" where
  "fs_put p n fs = AList.update p n fs"

definition fs_del :: "string \<Rightarrow> files \<Rightarrow> files" where
  "fs_del p fs = AList.delete p fs"

definition os_Stat :: "env \<Rightarrow> string \<Rightarrow> files \<Rightarrow> goerror option" where
  "os_Stat env p fs =
     (if env_fault env FStat p then Some (EIO ''stat'' p)
      else if fs_get fs p = None then Some (ENotExist p) else None)"

definition os_ReadFile :: "env \<Rightarrow> string \<Rightarrow> files \<Rightarrow> goerror + string" where
  "os_ReadFile env p fs =
     (if env_fault env FOpen p then Inl (EIO ''open'' p)
      else case fs_get fs p of
        None \<Rightarrow> Inl (ENotExist p)
      | Some FDir \<Rightarrow> Inl (EIO ''read'' p)
      | Some (FFile c) \<Rightarrow> if env_fault env FRead p then Inl (EIO ''read'' p) else Inr c)"

definition os_Remove :: "env \<Rightarrow> string \<Rightarrow> files \<Rightarrow> files" where
  "os_Remove env p fs = (if env_fault env FRemove p then fs else fs_del p fs)"

text \<open>The paths above \<open>p\<close>, outermost first.\<close>

definition ancestors :: "string \<Rightarrow> string list" where
  "ancestors p = map (\<lambda>i. take i p) (filter (\<lambda>i. 0 < i \<and> p ! i = SLASH) [0..<length p])"

definition is_file :: "fnode option \<Rightarrow> bool" where
  "is_file n = (case n of Some (FFile c) \<Rightarrow> True | _ \<Rightarrow> False)"

definition mkdir_missing :: "string \<Rightarrow> files \<Rightarrow> files" where
  "mkdir_missing d fs = (if fs_get fs d = None then fs_put d FDir fs else fs)"

text \<open>
  \<^verbatim>\<open>os.MkdirAll\<close>: the directories are made from the outermost in; a file in the way, or a
  \<^verbatim>\<open>Mkdir\<close> that fails, ends it and leaves the directories made so far.
\<close>

fun mkdir_all :: "env \<Rightarrow> string list \<Rightarrow> files \<Rightarrow> goerror option \<times> files" where
  "mkdir_all env [] fs = (None, fs)"
| "mkdir_all env (d # ds) fs =
     (if is_file (fs_get fs d) then (Some (EIO ''mkdir'' d), fs)
      else if fs_get fs d = None \<and> env_fault env FMkdir d then (Some (EIO ''mkdir'' d), fs)
      else mkdir_all env ds (mkdir_missing d fs))"

definition os_MkdirAll :: "env \<Rightarrow> string \<Rightarrow> files \<Rightarrow> goerror option \<times> files" where
  "os_MkdirAll env p fs = mkdir_all env (ancestors p @ [p]) fs"

text \<open>
  \<^verbatim>\<open>os.CopyFS\<close>: the tree is walked in lexical order of the path components; a file is created
  exclusively, and a failing copy leaves what it has written. The walk stops at the first error.
\<close>

definition tree_entries :: "string \<Rightarrow> files \<Rightarrow> (string \<times> fnode) list" where
  "tree_entries src fs =
     sort_key (\<lambda>e. split_on SLASH (fst e))
       (map (\<lambda>e. (drop (Suc (length src)) (fst e), snd e))
          (filter (\<lambda>e. prefix (src @ [SLASH]) (fst e)) fs))"

definition copy_entry ::
  "env \<Rightarrow> string \<Rightarrow> string \<Rightarrow> string \<times> fnode \<Rightarrow> files \<Rightarrow> goerror option \<times> files" where
  "copy_entry env src dst e fs =
     (let sp = src @ SLASH # fst e; np = dst @ SLASH # fst e
      in case snd e of
           FDir \<Rightarrow> os_MkdirAll env np fs
         | FFile c \<Rightarrow>
             if env_fault env FOpen sp then (Some (EIO ''open'' sp), fs)
             else if fs_get fs np \<noteq> None \<or> env_fault env FCreate np
             then (Some (EIO ''open'' np), fs)
             else if env_fault env FRead sp \<or> env_fault env FWrite np
             then (Some (EIO ''Copy'' np), fs_put np (FFile (take (env_short env np) c)) fs)
             else (None, fs_put np (FFile c) fs))"

fun copy_entries ::
  "env \<Rightarrow> string \<Rightarrow> string \<Rightarrow> (string \<times> fnode) list \<Rightarrow> files \<Rightarrow> goerror option \<times> files" where
  "copy_entries env src dst [] fs = (None, fs)"
| "copy_entries env src dst (e # es) fs =
     (case copy_entry env src dst e fs of
        (Some err, fs') \<Rightarrow> (Some err, fs')
      | (None, fs') \<Rightarrow> copy_entries env src dst es fs')"

definition os_CopyFS :: "env \<Rightarrow> string \<Rightarrow> string \<Rightarrow> files \<Rightarrow> goerror option \<times> files" where
  "os_CopyFS env dst src fs =
     (case fs_get fs src of
        None \<Rightarrow> (Some (ENotExist src), fs)
      | Some (FFile c) \<Rightarrow> (Some (EIO ''stat'' src), fs)
      | Some FDir \<Rightarrow>
          if env_fault env FStat src then (Some (EIO ''stat'' src), fs)
          else copy_entries env src dst (tree_entries src fs) fs)"

section \<open>The writable copy of the manifests\<close>

definition os_TempDir :: "env \<Rightarrow> string" where
  "os_TempDir env = (if env_getenv env ''TMPDIR'' = [] then ''/tmp'' else env_getenv env ''TMPDIR'')"

definition copyDir :: "env \<Rightarrow> string \<Rightarrow> string \<Rightarrow> files \<Rightarrow> goerror option \<times> files" where
  "copyDir env src dst fs =
     (case os_MkdirAll env dst fs of
        (Some e, fs') \<Rightarrow> (Some e, fs')
      | (None, fs') \<Rightarrow> os_CopyFS env dst src fs')"

definition writable_dst :: "env \<Rightarrow> string" where
  "writable_dst env = path_join [os_TempDir env, ''ray-module-manifests'']"

definition writableManifestsBase :: "env \<Rightarrow> string \<Rightarrow> files \<Rightarrow> (goerror + string) \<times> files" where
  "writableManifestsBase env basePath fs =
     (let dst = writable_dst env
      in if os_Stat env dst fs = None then (Inr dst, fs)
         else case copyDir env basePath dst fs of
                (Some e, fs') \<Rightarrow> (Inl (EWrap (''copy manifests to '' @ dst) e), fs')
              | (None, fs') \<Rightarrow> (Inr dst, fs'))"

section \<open>params.env\<close>

definition imageParamMap :: gomap where
  "imageParamMap =
     [(''odh-kuberay-operator-controller-image'',
       ''RELATED_IMAGE_ODH_KUBERAY_OPERATOR_CONTROLLER_IMAGE''),
      (''odh-kube-rbac-proxy-image'', ''RELATED_IMAGE_ODH_KUBE_RBAC_PROXY_IMAGE'')]"

definition parse_line :: "gomap \<Rightarrow> string \<Rightarrow> gomap" where
  "parse_line params line =
     (case cut (CHR ''='') line of (key, val, found) \<Rightarrow>
        if found then gomap_set key val params else params)"

definition parse_text :: "string \<Rightarrow> goerror + gomap" where
  "parse_text c =
     (case scan_lines c of Inl e \<Rightarrow> Inl e | Inr ls \<Rightarrow> Inr (foldl parse_line [] ls))"

definition parseParams :: "env \<Rightarrow> string \<Rightarrow> files \<Rightarrow> goerror + gomap" where
  "parseParams env fileName fs =
     (case os_ReadFile env fileName fs of Inl e \<Rightarrow> Inl e | Inr c \<Rightarrow> parse_text c)"

definition updateParam :: "gomap \<Rightarrow> string \<Rightarrow> string \<Rightarrow> nat \<times> gomap" where
  "updateParam m key val =
     (if gomap_get m key = val then (0, m) else (1, gomap_set key val m))"

text \<open>
  The loop over the parameters read from the file: a key with a mapped and non-empty environment
  variable takes its value.
\<close>

fun image_loop :: "env \<Rightarrow> gomap \<Rightarrow> string list \<Rightarrow> nat \<times> gomap \<Rightarrow> nat \<times> gomap" where
  "image_loop env im [] acc = acc"
| "image_loop env im (key # ks) (updated, m) =
     (case map_of im key of
        None \<Rightarrow> image_loop env im ks (updated, m)
      | Some envVar \<Rightarrow>
          (let val = env_getenv env envVar
           in if val \<noteq> [] then
                (case updateParam m key val of (u, m') \<Rightarrow> image_loop env im ks (updated OR u, m'))
              else image_loop env im ks (updated, m)))"

fun extra_loop :: "gomap \<Rightarrow> nat \<times> gomap \<Rightarrow> nat \<times> gomap" where
  "extra_loop [] acc = acc"
| "extra_loop ((key, val) # es) (updated, m) =
     (case updateParam m key val of (u, m') \<Rightarrow> extra_loop es (updated OR u, m'))"

fun extras_loop :: "env \<Rightarrow> gomap list \<Rightarrow> nat \<times> gomap \<Rightarrow> nat \<times> gomap" where
  "extras_loop env [] acc = acc"
| "extras_loop env (e # es) acc = extras_loop env es (extra_loop (env_range env 1 e) acc)"

definition merge_params :: "env \<Rightarrow> gomap \<Rightarrow> gomap list \<Rightarrow> gomap \<Rightarrow> nat \<times> gomap" where
  "merge_params env im extras m =
     extras_loop env extras (image_loop env im (map fst (env_range env 0 m)) (0, m))"

definition renderParams :: "gomap \<Rightarrow> string" where
  "renderParams m = concat (map (\<lambda>(k, v). k @ CHR ''='' # v @ [NL]) m)"

text \<open>
  The write-back: \<^verbatim>\<open>os.CreateTemp\<close>, a buffered writer of 4096 bytes (a longer text meets a
  failing disk in \<^verbatim>\<open>Fprintf\<close>, a shorter one in \<^verbatim>\<open>Flush\<close>), \<^verbatim>\<open>os.Rename\<close>,
  with the temporary file removed on the error paths.
\<close>

text \<open>
  \<^verbatim>\<open>os.CreateTemp\<close> tries up to 10000 random names until one is free; \<open>free_try\<close> is the number
  of the last try, with \<open>k\<close> tries left after try \<open>i\<close>.
\<close>

definition temp_try :: "env \<Rightarrow> string \<Rightarrow> nat \<Rightarrow> string" where
  "temp_try env dir i = dir @ ''/params.env-'' @ env_rand env i"

function free_try :: "env \<Rightarrow> string \<Rightarrow> files \<Rightarrow> nat \<Rightarrow> nat \<Rightarrow> nat" where
  "free_try env dir fs i k =
     (if fs_get fs (temp_try env dir i) = None then i
      else if k = 0 then i
      else free_try env dir fs (Suc i) (k - 1))"
  by pat_completeness auto
termination
  by (relation "measure (\<lambda>(env, dir, fs, i, k). k)") auto

declare free_try.simps [simp del]

definition temp_name :: "env \<Rightarrow> string \<Rightarrow> files \<Rightarrow> string" where
  "temp_name env dir fs = temp_try env dir (free_try env dir fs 0 9999)"

definition write_params :: "env \<Rightarrow> string \<Rightarrow> string \<Rightarrow> gomap \<Rightarrow> files \<Rightarrow> goerror option \<times> files" where
  "write_params env componentPath paramsFile m fs =
     (let tmp = temp_name env componentPath fs; content = renderParams (env_range env 2 m)
      in if env_fault env FCreate componentPath \<or> fs_get fs tmp \<noteq> None
         then (Some (EIO ''createtemp'' componentPath), fs)
         else if env_fault env FWrite tmp
         then (Some (if 4096 < length content then EIO ''write'' tmp
                     else EWrap ''failed to write params'' (EIO ''write'' tmp)),
               os_Remove env tmp (fs_put tmp (FFile (take (env_short env tmp) content)) fs))
         else if env_fault env FRename tmp
         then (Some (EWrap (''failed rename '' @ tmp @ '' to '' @ paramsFile) (EIO ''rename'' tmp)),
               os_Remove env tmp (fs_put tmp (FFile content) fs))
         else (None, fs_put paramsFile (FFile content) (fs_del tmp (fs_put tmp (FFile content) fs))))"

definition applyParams ::
  "env \<Rightarrow> string \<Rightarrow> gomap \<Rightarrow> gomap list \<Rightarrow> files \<Rightarrow> goerror option \<times> files" where
  "applyParams env componentPath imageParamsMap extraParamsMaps fs =
     (let paramsFile = path_join [componentPath, ''params.env'']
      in case parseParams env paramsFile fs of
           Inl e \<Rightarrow> (if os_IsNotExist e then (None, fs) else (Some e, fs))
         | Inr m \<Rightarrow>
             (case merge_params env imageParamsMap extraParamsMaps m of (updated, m') \<Rightarrow>
                if updated = 0 then (None, fs)
                else write_params env componentPath paramsFile m' fs))"

section \<open>Lemmas\<close>

subsection \<open>File trees\<close>

lemma fs_get_put [simp]: "fs_get (fs_put p n fs) q = (if q = p then Some n else fs_get fs q)"
  by (simp add: fs_get_def fs_put_def update_conv')

lemma fs_get_del [simp]: "fs_get (fs_del p fs) q = (if q = p then None else fs_get fs q)"
  by (simp add: fs_get_def fs_del_def delete_conv')

lemma fs_get_remove [simp]:
  "q \<noteq> p \<Longrightarrow> fs_get (os_Remove env p fs) q = fs_get fs q"
  by (simp add: os_Remove_def)

lemma fs_get_mkdir_missing:
  "fs_get (mkdir_missing d fs) q = (if q = d \<and> fs_get fs d = None then Some FDir else fs_get fs q)"
  by (simp add: mkdir_missing_def)

lemma fs_get_mkdirs:
  "fs_get (fold mkdir_missing ds fs) q =
     (if q \<in> set ds \<and> fs_get fs q = None then Some FDir else fs_get fs q)"
  by (induction ds arbitrary: fs) (auto simp: fs_get_mkdir_missing)

text \<open>A prefix of the directories is made, all of them when there is no error.\<close>

lemma mkdir_all_result:
  assumes "mkdir_all env ds fs = (e, fs')"
  shows "\<exists>k. fs' = fold mkdir_missing (take k ds) fs \<and> (e = None \<longrightarrow> length ds \<le> k)"
  using assms
proof (induction ds arbitrary: fs)
  case (Cons d ds)
  show ?case
  proof (cases "is_file (fs_get fs d) \<or> fs_get fs d = None \<and> env_fault env FMkdir d")
    case True
    with Cons.prems have "fs' = fs" "e \<noteq> None" by (auto split: if_splits)
    then show ?thesis by (intro exI [of _ 0]) simp
  next
    case False
    with Cons.prems have "mkdir_all env ds (mkdir_missing d fs) = (e, fs')" by (auto split: if_splits)
    then obtain k where "fs' = fold mkdir_missing (take k ds) (mkdir_missing d fs)" "e = None \<longrightarrow> length ds \<le> k"
      using Cons.IH by blast
    then show ?thesis by (intro exI [of _ "Suc k"]) simp
  qed
qed simp

lemma mkdir_all_ok:
  assumes "\<forall>p. \<not> env_fault env FMkdir p" and "\<forall>d \<in> set ds. \<not> is_file (fs_get fs d)"
  shows "mkdir_all env ds fs = (None, fold mkdir_missing ds fs)"
  using assms(2)
proof (induction ds arbitrary: fs)
  case (Cons d ds)
  have "\<forall>x \<in> set ds. \<not> is_file (fs_get (mkdir_missing d fs) x)"
    using Cons.prems by (auto simp: fs_get_mkdir_missing is_file_def)
  with Cons assms(1) show ?case by simp
qed simp

lemma MkdirAll_result:
  obtains k where "snd (os_MkdirAll env p fs) = fold mkdir_missing (take k (ancestors p @ [p])) fs"
    and "fst (os_MkdirAll env p fs) = None \<longrightarrow> Suc (length (ancestors p)) \<le> k"
  using mkdir_all_result [of env "ancestors p @ [p]" fs] that unfolding os_MkdirAll_def
  by (cases "mkdir_all env (ancestors p @ [p]) fs") fastforce

lemma MkdirAll_ok:
  assumes "\<forall>q. \<not> env_fault env FMkdir q" and "\<forall>d \<in> set (ancestors p @ [p]). \<not> is_file (fs_get fs d)"
  shows "os_MkdirAll env p fs = (None, fold mkdir_missing (ancestors p @ [p]) fs)"
  unfolding os_MkdirAll_def by (rule mkdir_all_ok [OF assms])

lemma MkdirAll_other:
  assumes "q \<notin> set (ancestors p)" and "q \<noteq> p"
  shows "fs_get (snd (os_MkdirAll env p fs)) q = fs_get fs q"
proof -
  obtain k where k: "snd (os_MkdirAll env p fs) = fold mkdir_missing (take k (ancestors p @ [p])) fs"
    by (rule MkdirAll_result)
  have "q \<notin> set (take k (ancestors p @ [p]))" using assms by (auto dest: in_set_takeD)
  then show ?thesis by (simp only: k fs_get_mkdirs simp_thms if_False)
qed

lemma MkdirAll_keeps:
  assumes "fs_get fs q = Some n"
  shows "fs_get (snd (os_MkdirAll env p fs)) q = Some n"
proof -
  obtain k where "snd (os_MkdirAll env p fs) = fold mkdir_missing (take k (ancestors p @ [p])) fs"
    by (rule MkdirAll_result)
  with assms show ?thesis by (simp only: fs_get_mkdirs) simp
qed

lemma MkdirAll_creates:
  assumes "os_MkdirAll env p fs = (None, fs')"
  shows "fs_get fs' p \<noteq> None"
proof -
  obtain k where "fs' = fold mkdir_missing (take k (ancestors p @ [p])) fs" "Suc (length (ancestors p)) \<le> k"
    using MkdirAll_result [of env p fs] assms by (metis fst_conv snd_conv)
  then have "fs' = fold mkdir_missing (ancestors p @ [p]) fs" by simp
  then show ?thesis by (simp add: fs_get_mkdirs del: fold_append)
qed

lemma ancestors_prefix:
  assumes "q \<in> set (ancestors p)"
  shows "prefix (q @ [SLASH]) p"
proof -
  from assms obtain i where i: "i < length p" "p ! i = SLASH" "q = take i p"
    by (auto simp: ancestors_def)
  then have "take (Suc i) p = q @ [SLASH]" by (simp add: take_Suc_conv_app_nth)
  then show ?thesis by (metis take_is_prefix)
qed

lemma ReadFile_file [simp]:
  assumes "\<And>op p. \<not> env_fault env op p"
  shows "os_ReadFile env p fs = Inr c \<longleftrightarrow> fs_get fs p = Some (FFile c)"
  using assms by (auto simp: os_ReadFile_def split: option.splits fnode.splits)

lemma ReadFile_Inr: "os_ReadFile env p fs = Inr c \<Longrightarrow> fs_get fs p = Some (FFile c)"
  by (auto simp: os_ReadFile_def split: if_splits option.splits fnode.splits)

subsection \<open>Parsing and printing\<close>

text \<open>The pairs a sequence of lines assigns, in order.\<close>

definition param_pairs :: "string list \<Rightarrow> gomap" where
  "param_pairs ls =
     concat (map (\<lambda>l. case cut (CHR ''='') l of (k, v, found) \<Rightarrow> if found then [(k, v)] else []) ls)"

text \<open>A pair that survives printing and parsing.\<close>

definition param_ok :: "string \<times> string \<Rightarrow> bool" where
  "param_ok p =
     (CHR ''='' \<notin> set (fst p) \<and> NL \<notin> set (fst p) \<and> NL \<notin> set (snd p)
      \<and> (snd p = [] \<or> last (snd p) \<noteq> CR)
      \<and> length (fst p) + length (snd p) + 1 < maxScanTokenSize)"

definition params_ok :: "gomap \<Rightarrow> bool" where
  "params_ok m = (gomap_wf m \<and> list_all param_ok m)"

lemma parse_line_wf: "gomap_wf m \<Longrightarrow> gomap_wf (parse_line m l)"
  by (simp add: parse_line_def split: prod.splits)

lemma parse_lines_wf: "gomap_wf m \<Longrightarrow> gomap_wf (foldl parse_line m ls)"
  by (induction ls arbitrary: m) (auto simp: parse_line_wf)

lemma parse_text_wf: "parse_text c = Inr m \<Longrightarrow> gomap_wf m"
  by (auto simp: parse_text_def parse_lines_wf split: sum.splits)

lemma parseParams_wf: "parseParams env p fs = Inr m \<Longrightarrow> gomap_wf m"
  by (auto simp: parseParams_def parse_text_wf split: sum.splits)

lemma map_of_parse_lines:
  "map_of (foldl parse_line m ls) = map_of m ++ map_of (rev (param_pairs ls))"
proof (induction ls arbitrary: m)
  case (Cons l ls)
  obtain k v f where c: "cut (CHR ''='') l = (k, v, f)" by (cases "cut (CHR ''='') l")
  have "parse_line m l = (if f then gomap_set k v m else m)"
    by (simp add: parse_line_def c)
  moreover have "param_pairs (l # ls) = (if f then [(k, v)] else []) @ param_pairs ls"
    by (simp add: param_pairs_def c)
  moreover have "(map_of m)(k \<mapsto> v) ++ g = map_of m ++ ([k \<mapsto> v] ++ g)" for g
    by (metis map_add_assoc map_add_empty map_add_upd)
  ultimately show ?case by (simp add: Cons)
qed (simp add: param_pairs_def)

lemma gomap_set_new: "k \<notin> fst ` set m \<Longrightarrow> gomap_set k v m = m @ [(k, v)]"
  unfolding gomap_set_def by (induction m) auto

lemma parse_rendered_lines:
  assumes "\<forall>p \<in> set m2. CHR ''='' \<notin> set (fst p)" and "gomap_wf (m1 @ m2)"
  shows "foldl parse_line m1 (map (\<lambda>(k, v). k @ CHR ''='' # v) m2) = m1 @ m2"
  using assms
proof (induction m2 arbitrary: m1)
  case (Cons p m2)
  obtain k v where p: "p = (k, v)" by (cases p)
  from Cons.prems p have "k \<notin> fst ` set m1" by (auto simp: gomap_wf_def)
  then have "parse_line m1 (k @ CHR ''='' # v) = m1 @ [(k, v)]"
    using Cons.prems p by (simp add: parse_line_def cut_append gomap_set_new)
  with Cons.IH [of "m1 @ [(k, v)]"] Cons.prems p show ?case by simp
qed simp

lemma renderParams_lines:
  "renderParams m = concat (map (\<lambda>l. l @ [NL]) (map (\<lambda>(k, v). k @ CHR ''='' # v) m))"
  unfolding renderParams_def by (induction m) auto

lemma scan_rendered:
  assumes "list_all param_ok m"
  shows "scan_lines (renderParams m) = Inr (map (\<lambda>(k, v). k @ CHR ''='' # v) m)"
proof -
  let ?ls = "map (\<lambda>(k, v). k @ CHR ''='' # v) m"
  from assms have nl: "\<forall>l \<in> set ?ls. NL \<notin> set l"
    and short: "\<forall>l \<in> set ?ls. length l < maxScanTokenSize"
    by (fastforce simp: list_all_iff param_ok_def)+
  have "dropCR (k @ CHR ''='' # v) = k @ CHR ''='' # v" if "(k, v) \<in> set m" for k v
  proof -
    from that assms have "param_ok (k, v)" by (simp add: list_all_iff)
    then show ?thesis by (auto simp: param_ok_def dropCR_def split: if_splits)
  qed
  then have "map dropCR ?ls = ?ls" by (auto intro!: map_idI)
  moreover have "raw_lines (renderParams m) = ?ls"
    unfolding renderParams_lines using nl by (rule raw_lines_concat)
  moreover have "\<not> (\<exists>l \<in> set ?ls. maxScanTokenSize \<le> length l)"
    using short by (auto simp: not_le)
  ultimately show ?thesis by (simp only: scan_lines_def Let_def if_False)
qed

lemma parse_rendered: "params_ok m \<Longrightarrow> parse_text (renderParams m) = Inr m"
  using parse_rendered_lines [of m "[]"]
  by (simp add: parse_text_def scan_rendered params_ok_def list_all_iff param_ok_def)

text \<open>A text format for maps: what is printed from a good map is read back.\<close>

locale params_codec =
  fixes parse :: "string \<Rightarrow> goerror + gomap"
    and print :: "gomap \<Rightarrow> string"
    and ok :: "gomap \<Rightarrow> bool"
  assumes parse_print: "ok m \<Longrightarrow> parse (print m) = Inr m"
    and ok_order: "mset m' = mset m \<Longrightarrow> ok m \<Longrightarrow> ok m'"
    and ok_wf: "ok m \<Longrightarrow> gomap_wf m"
begin

lemma print_inject: "ok m \<Longrightarrow> ok m' \<Longrightarrow> print m = print m' \<Longrightarrow> m = m'"
  using parse_print by (metis sum.inject(2))

lemma parse_print_order:
  assumes "range_order rng" and "ok m"
  shows "\<exists>m'. parse (print (rng m)) = Inr m' \<and> gomap_wf m' \<and> map_of m' = map_of m"
proof -
  from assms have "ok (rng m)" by (auto simp: range_order_def intro: ok_order)
  then have "parse (print (rng m)) = Inr (rng m)" by (rule parse_print)
  moreover have "gomap_wf (rng m)" and "map_of (rng m) = map_of m"
    using assms ok_wf by (auto intro: range_order_wf range_order_map_of)
  ultimately show ?thesis by blast
qed

end

lemma params_ok_order: "mset m' = mset m \<Longrightarrow> params_ok m \<Longrightarrow> params_ok m'"
  unfolding params_ok_def gomap_wf_def list_all_iff
  by (metis mset_eq_imp_distinct_iff mset_eq_setD mset_map)

interpretation env_file: params_codec parse_text renderParams params_ok
proof unfold_locales
  show "parse_text (renderParams m) = Inr m" if "params_ok m" for m
    using that by (rule parse_rendered)
  show "params_ok m'" if "mset m' = mset m" and "params_ok m" for m m'
    using that by (rule params_ok_order)
  show "gomap_wf m" if "params_ok m" for m
    using that by (simp add: params_ok_def)
qed


subsection \<open>The merge\<close>

text \<open>
  What \<^verbatim>\<open>applyParams\<close> computes, as a function on maps: an image parameter of the file whose
  environment variable is set takes its value, then the extra maps are laid over it (an empty
  value for an absent key adds nothing).
\<close>

definition zero_val :: "string option \<Rightarrow> string" where
  "zero_val x = (case x of None \<Rightarrow> [] | Some v \<Rightarrow> v)"

definition param_override ::
  "env \<Rightarrow> gomap \<Rightarrow> (string \<rightharpoonup> string) \<Rightarrow> (string \<rightharpoonup> string)" where
  "param_override env im m k =
     (case m k of
        None \<Rightarrow> None
      | Some v \<Rightarrow>
          (case map_of im k of
             None \<Rightarrow> Some v
           | Some ev \<Rightarrow> if env_getenv env ev = [] then Some v else Some (env_getenv env ev)))"

definition param_extra :: "gomap \<Rightarrow> (string \<rightharpoonup> string) \<Rightarrow> (string \<rightharpoonup> string)" where
  "param_extra e m k =
     (case map_of e k of
        None \<Rightarrow> m k
      | Some v \<Rightarrow> if zero_val (m k) = v then m k else Some v)"

definition param_spec ::
  "env \<Rightarrow> gomap \<Rightarrow> gomap list \<Rightarrow> (string \<rightharpoonup> string) \<Rightarrow> (string \<rightharpoonup> string)" where
  "param_spec env im extras m = foldl (\<lambda>m e. param_extra e m) (param_override env im m) extras"

lemma gomap_get_zero: "gomap_get m k = zero_val (map_of m k)"
  by (simp add: gomap_get_def zero_val_def)

lemma updateParam_wf: "gomap_wf m \<Longrightarrow> gomap_wf (snd (updateParam m k v))"
  by (simp add: updateParam_def)

lemma image_loop_wf: "gomap_wf m \<Longrightarrow> gomap_wf (snd (image_loop env im ks (u, m)))"
  by (induction ks arbitrary: u m)
    (auto simp: updateParam_def Let_def split: option.splits prod.splits)

lemma extra_loop_wf: "gomap_wf m \<Longrightarrow> gomap_wf (snd (extra_loop es (u, m)))"
  by (induction es arbitrary: u m) (auto simp: updateParam_def)

lemma extras_loop_wf: "gomap_wf m \<Longrightarrow> gomap_wf (snd (extras_loop env es (u, m)))"
proof (induction es arbitrary: u m)
  case (Cons e es)
  obtain u' m' where "extra_loop (env_range env 1 e) (u, m) = (u', m')"
    by (cases "extra_loop (env_range env 1 e) (u, m)")
  with Cons extra_loop_wf [of m "env_range env 1 e" u] show ?case by simp
qed simp

lemma merge_params_wf: "gomap_wf m \<Longrightarrow> gomap_wf (snd (merge_params env im es m))"
  unfolding merge_params_def
  by (metis extras_loop_wf image_loop_wf prod.collapse)

lemma map_of_image_loop:
  assumes "set ks \<subseteq> dom (map_of m)"
  shows "map_of (snd (image_loop env im ks (u, m))) k =
           (if k \<in> set ks then param_override env im (map_of m) k else map_of m k)"
  using assms
proof (induction ks arbitrary: u m)
  case (Cons x ks)
  from Cons.prems obtain v where v: "map_of m x = Some v" by auto
  show ?case
  proof (cases "map_of im x")
    case None
    with Cons v show ?thesis by (auto simp: param_override_def)
  next
    case (Some ev)
    show ?thesis
    proof (cases "env_getenv env ev = []")
      case True
      with Some Cons v show ?thesis by (auto simp: param_override_def)
    next
      case False
      obtain u' m' where up: "updateParam m x (env_getenv env ev) = (u', m')"
        by (cases "updateParam m x (env_getenv env ev)")
      then have m': "map_of m' = (map_of m)(x \<mapsto> env_getenv env ev)"
        using v by (auto simp: updateParam_def gomap_get_def split: if_splits)
      with Cons.prems have "set ks \<subseteq> dom (map_of m')" by auto
      from Cons.IH [OF this, of "u OR u'"] m' Some False up v show ?thesis
        by (auto simp: param_override_def)
    qed
  qed
qed simp

lemma map_of_extra_loop:
  assumes "gomap_wf es"
  shows "map_of (snd (extra_loop es (u, m))) = param_extra es (map_of m)"
  using assms
proof (induction es arbitrary: u m)
  case Nil
  then show ?case by (simp add: param_extra_def)
next
  case (Cons e es)
  obtain k v where e: "e = (k, v)" by (cases e)
  obtain u' m' where up: "updateParam m k v = (u', m')" by (cases "updateParam m k v")
  then have m': "map_of m' = (if zero_val (map_of m k) = v then map_of m else (map_of m)(k \<mapsto> v))"
    by (auto simp: updateParam_def gomap_get_zero split: if_splits)
  from Cons.prems e have "gomap_wf es" and k: "map_of es k = None"
    by (auto simp: gomap_wf_def map_of_eq_None_iff)
  then have "map_of (snd (extra_loop es (u OR u', m'))) = param_extra es (map_of m')"
    using Cons.IH by blast
  with e up m' k show ?case by (auto simp: param_extra_def fun_eq_iff split: option.splits)
qed

lemma map_of_extras_loop:
  assumes "range_order (env_range env 1)" and "list_all gomap_wf es"
  shows "map_of (snd (extras_loop env es (u, m))) = foldl (\<lambda>m e. param_extra e m) (map_of m) es"
  using assms(2)
proof (induction es arbitrary: u m)
  case (Cons e es)
  let ?e = "env_range env 1 e"
  obtain u' m' where step: "extra_loop ?e (u, m) = (u', m')" by (cases "extra_loop ?e (u, m)")
  from Cons.prems have "gomap_wf ?e" and "map_of ?e = map_of e"
    using assms(1) by (auto intro: range_order_wf range_order_map_of)
  then have "map_of m' = param_extra e (map_of m)"
    using map_of_extra_loop [of ?e u m] step by (simp add: param_extra_def fun_eq_iff)
  with Cons step show ?case by simp
qed simp

lemma merge_params_spec:
  assumes "range_order (env_range env 0)" and "range_order (env_range env 1)"
    and "gomap_wf m" and "list_all gomap_wf es"
  shows "map_of (snd (merge_params env im es m)) = param_spec env im es (map_of m)"
proof -
  let ?ks = "map fst (env_range env 0 m)"
  obtain u' m' where il: "image_loop env im ?ks (0, m) = (u', m')"
    by (cases "image_loop env im ?ks (0, m)")
  have ks: "set ?ks = dom (map_of m)"
    using range_order_set [OF assms(1), of m] by (simp add: dom_map_of_conv_image_fst)
  have "map_of m' = param_override env im (map_of m)"
  proof
    fix k
    show "map_of m' k = param_override env im (map_of m) k"
      using map_of_image_loop [of ?ks m env im 0 k] il ks
      by (auto simp: param_override_def split: option.splits)
  qed
  then show ?thesis
    using map_of_extras_loop [OF assms(2,4), of u' m'] il
    by (simp add: merge_params_def param_spec_def)
qed

subsection \<open>The update counter\<close>

lemma updateParam_zero: "fst (updateParam m k v) = 0 \<Longrightarrow> snd (updateParam m k v) = m"
  by (simp add: updateParam_def split: if_splits)

lemma image_loop_zero:
  "fst (image_loop env im ks (u, m)) = 0 \<Longrightarrow> u = 0 \<and> snd (image_loop env im ks (u, m)) = m"
proof (induction ks arbitrary: u m)
  case (Cons x ks)
  show ?case
  proof (cases "map_of im x")
    case (Some ev)
    then show ?thesis
    proof (cases "env_getenv env ev = []")
      case False
      obtain u' m' where up: "updateParam m x (env_getenv env ev) = (u', m')"
        by (cases "updateParam m x (env_getenv env ev)")
      with Cons.prems Some False have "fst (image_loop env im ks (u OR u', m')) = 0" by simp
      from Cons.IH [OF this] up updateParam_zero [of m x "env_getenv env ev"] Some False
      show ?thesis by (auto simp: or_eq_0_iff)
    qed (use Cons Some in simp)
  qed (use Cons in simp)
qed simp

lemma extra_loop_zero:
  "fst (extra_loop es (u, m)) = 0 \<Longrightarrow> u = 0 \<and> snd (extra_loop es (u, m)) = m"
proof (induction es arbitrary: u m)
  case (Cons e es)
  obtain k v where e: "e = (k, v)" by (cases e)
  obtain u' m' where up: "updateParam m k v = (u', m')" by (cases "updateParam m k v")
  with Cons.prems e have "fst (extra_loop es (u OR u', m')) = 0" by simp
  from Cons.IH [OF this] up updateParam_zero [of m k v] e show ?case by (auto simp: or_eq_0_iff)
qed simp

lemma extras_loop_zero:
  "fst (extras_loop env es (u, m)) = 0 \<Longrightarrow> u = 0 \<and> snd (extras_loop env es (u, m)) = m"
proof (induction es arbitrary: u m)
  case (Cons e es)
  let ?e = "env_range env 1 e"
  obtain u' m' where step: "extra_loop ?e (u, m) = (u', m')" by (cases "extra_loop ?e (u, m)")
  with Cons.prems have "fst (extras_loop env es (u', m')) = 0" by simp
  from Cons.IH [OF this] step extra_loop_zero [of ?e u m] show ?case by auto
qed simp

lemma merge_params_zero:
  assumes "fst (merge_params env im es m) = 0"
  shows "snd (merge_params env im es m) = m"
proof -
  let ?i = "image_loop env im (map fst (env_range env 0 m)) (0, m)"
  from assms have "fst (extras_loop env es (fst ?i, snd ?i)) = 0" by (simp add: merge_params_def)
  from extras_loop_zero [OF this] have "fst ?i = 0" and "snd (merge_params env im es m) = snd ?i"
    by (simp_all add: merge_params_def)
  with image_loop_zero [of env im _ 0 m] show ?thesis by simp
qed

lemma image_loop_id:
  assumes "\<And>k ev. k \<in> set ks \<Longrightarrow> map_of im k = Some ev \<Longrightarrow> env_getenv env ev \<noteq> []
             \<Longrightarrow> gomap_get m k = env_getenv env ev"
  shows "image_loop env im ks (u, m) = (u, m)"
  using assms by (induction ks) (auto simp: updateParam_def Let_def split: option.splits)

lemma extra_loop_id:
  assumes "\<And>k v. (k, v) \<in> set es \<Longrightarrow> gomap_get m k = v"
  shows "extra_loop es (u, m) = (u, m)"
  using assms by (induction es) (auto simp: updateParam_def)


subsection \<open>The write-back\<close>

definition no_faults :: "env \<Rightarrow> bool" where
  "no_faults env = (\<forall>op p. \<not> env_fault env op p)"

definition orders_ok :: "env \<Rightarrow> bool" where
  "orders_ok env = (\<forall>i. range_order (env_range env i))"

definition params_path :: "string \<Rightarrow> string" where
  "params_path dir = path_join [dir, ''params.env'']"

lemma no_faultsD [simp]: "no_faults env \<Longrightarrow> \<not> env_fault env op p"
  by (simp add: no_faults_def)

lemma orders_okD: "orders_ok env \<Longrightarrow> range_order (env_range env i)"
  by (simp add: orders_ok_def)

lemma parseParams_file:
  "no_faults env \<Longrightarrow> fs_get fs p = Some (FFile c) \<Longrightarrow> parseParams env p fs = parse_text c"
  by (simp add: parseParams_def os_ReadFile_def)

lemma parseParams_Inr_file:
  assumes "parseParams env p fs = Inr m"
  obtains c where "fs_get fs p = Some (FFile c)" and "parse_text c = Inr m"
  using assms by (auto simp: parseParams_def dest: ReadFile_Inr split: sum.splits)

text \<open>What the write-back leaves in the tree, fault or no fault.\<close>

lemma write_params_target:
  assumes "write_params env dir pf m fs = (e, fs')" and "fs_get fs pf \<noteq> None"
  shows "(e \<noteq> None \<and> fs_get fs' pf = fs_get fs pf)
         \<or> (e = None \<and> fs_get fs' pf = Some (FFile (renderParams (env_range env 2 m))))"
  using assms
  by (auto simp: write_params_def Let_def os_Remove_def split: if_splits)

lemma write_params_other:
  assumes "write_params env dir pf m fs = (e, fs')" and "q \<noteq> pf" and "q \<noteq> temp_name env dir fs"
  shows "fs_get fs' q = fs_get fs q"
  using assms by (auto simp: write_params_def Let_def os_Remove_def split: if_splits)

lemma write_params_temp:
  assumes "write_params env dir pf m fs = (e, fs')" and "fs_get fs pf \<noteq> None"
    and "\<not> env_fault env FRemove (temp_name env dir fs)"
  shows "fs_get fs' (temp_name env dir fs) = None
    \<or> fs_get fs' (temp_name env dir fs) = fs_get fs (temp_name env dir fs)"
  using assms by (auto simp: write_params_def Let_def os_Remove_def split: if_splits)

text \<open>A write-back that succeeds changes the target only: its temporary file is gone again.\<close>

lemma write_params_success:
  assumes "write_params env dir pf m fs = (None, fs')" and "q \<noteq> pf"
  shows "fs_get fs' q = fs_get fs q"
  using assms by (auto simp: write_params_def Let_def split: if_splits)

lemma free_try_free:
  assumes "i \<le> j" and "j \<le> i + k" and "fs_get fs (temp_try env dir j) = None"
  shows "fs_get fs (temp_try env dir (free_try env dir fs i k)) = None"
  using assms
proof (induction env dir fs i k rule: free_try.induct)
  case (1 env dir fs i k)
  show ?case
  proof (cases "fs_get fs (temp_try env dir i) = None")
    case True
    then show ?thesis by (subst free_try.simps) simp
  next
    case False
    then have "i \<noteq> j" using "1.prems"(3) by auto
    then have "k \<noteq> 0" "Suc i \<le> j" "j \<le> Suc i + (k - 1)" using "1.prems"(1,2) by simp_all
    with "1.IH" "1.prems"(3) False show ?thesis by (subst free_try.simps) simp
  qed
qed

text \<open>One of the names that are tried is free.\<close>

definition temp_free :: "env \<Rightarrow> string \<Rightarrow> files \<Rightarrow> bool" where
  "temp_free env dir fs = (\<exists>i < 10000. fs_get fs (temp_try env dir i) = None)"

lemma temp_free_name: "temp_free env dir fs \<Longrightarrow> fs_get fs (temp_name env dir fs) = None"
  unfolding temp_free_def temp_name_def by (elim exE conjE, rule free_try_free) simp_all

lemma write_params_no_fault:
  assumes "no_faults env" and "temp_free env dir fs"
  shows "\<exists>fs'. write_params env dir pf m fs = (None, fs')
           \<and> fs_get fs' pf = Some (FFile (renderParams (env_range env 2 m)))"
  using assms temp_free_name [OF assms(2)] by (simp add: write_params_def Let_def)

lemma applyParams_cases:
  assumes "applyParams env dir im es fs = (e, fs')"
  obtains
    (unchanged) "fs' = fs"
  | (written) m where "parseParams env (params_path dir) fs = Inr m"
      and "fst (merge_params env im es m) \<noteq> 0"
      and "write_params env dir (params_path dir) (snd (merge_params env im es m)) fs = (e, fs')"
  using assms unfolding applyParams_def params_path_def [symmetric]
  by (auto simp: Let_def split: sum.splits prod.splits if_splits)

lemma applyParams_success:
  assumes "applyParams env dir im es fs = (None, fs')" and "q \<noteq> params_path dir"
  shows "fs_get fs' q = fs_get fs q"
  using assms(1) by (cases rule: applyParams_cases) (use assms(2) write_params_success in auto)

lemma merged_ok:
  assumes "orders_ok env" and "gomap_wf m" and "list_all gomap_wf es"
    and "\<forall>k v. param_spec env im es (map_of m) k = Some v \<longrightarrow> param_ok (k, v)"
  shows "params_ok (snd (merge_params env im es m))"
proof -
  have wf: "gomap_wf (snd (merge_params env im es m))" by (rule merge_params_wf [OF assms(2)])
  have "map_of (snd (merge_params env im es m)) = param_spec env im es (map_of m)"
    using assms(1-3) by (simp add: merge_params_spec orders_okD)
  with wf assms(4) show ?thesis
    by (auto simp: params_ok_def list_all_iff gomap_wf_def dest!: map_of_is_SomeI)
qed

lemma applyParams_reads_back:
  assumes "no_faults env" and "orders_ok env"
    and "fs_get fs (params_path dir) = Some (FFile c)" and "parse_text c = Inr m"
    and "temp_free env dir fs" and "list_all gomap_wf es"
    and "\<forall>k v. param_spec env im es (map_of m) k = Some v \<longrightarrow> param_ok (k, v)"
  shows "\<exists>fs' m'. applyParams env dir im es fs = (None, fs')
           \<and> parseParams env (params_path dir) fs' = Inr m'
           \<and> map_of m' = param_spec env im es (map_of m)"
proof -
  let ?mp = "merge_params env im es m"
  have wf: "gomap_wf m" by (rule parse_text_wf [OF assms(4)])
  have read: "parseParams env (params_path dir) fs = Inr m"
    using assms(1,3,4) by (simp add: parseParams_file)
  have spec: "map_of (snd ?mp) = param_spec env im es (map_of m)"
    using assms(2,6) wf by (simp add: merge_params_spec orders_okD)
  show ?thesis
  proof (cases "fst ?mp = 0")
    case True
    then have "applyParams env dir im es fs = (None, fs)"
      using read by (auto simp: applyParams_def params_path_def Let_def split: prod.splits)
    moreover have "map_of m = param_spec env im es (map_of m)"
      using merge_params_zero [OF True] spec by simp
    ultimately show ?thesis using read by auto
  next
    case False
    have "params_ok (snd ?mp)" by (rule merged_ok [OF assms(2) wf assms(6,7)])
    then obtain m' where m': "parse_text (renderParams (env_range env 2 (snd ?mp))) = Inr m'"
      "map_of m' = map_of (snd ?mp)"
      using env_file.parse_print_order orders_okD [OF assms(2)] by blast
    obtain fs' where w: "write_params env dir (params_path dir) (snd ?mp) fs = (None, fs')"
      "fs_get fs' (params_path dir) = Some (FFile (renderParams (env_range env 2 (snd ?mp))))"
      using write_params_no_fault [OF assms(1,5)] by blast
    then have "applyParams env dir im es fs = (None, fs')"
      using read False by (auto simp: applyParams_def params_path_def Let_def split: prod.splits)
    then show ?thesis using w m' spec assms(1) by (auto simp: parseParams_file)
  qed
qed

text \<open>A second merge of what the module merges finds nothing to do.\<close>

lemma merge_again:
  assumes "orders_ok env"
    and "map_of m' = param_spec env imageParamMap [[(''namespace'', ns)]] m"
  shows "merge_params env imageParamMap [[(''namespace'', ns)]] m' = (0, m')"
proof -
  let ?ks = "map fst (env_range env 0 m')"
  have dom: "set ?ks = dom (map_of m')"
    using range_order_set [OF orders_okD [OF assms(1)], of 0 m']
    by (simp add: dom_map_of_conv_image_fst)
  have "image_loop env imageParamMap ?ks (0, m') = (0, m')"
  proof (rule image_loop_id)
    fix k ev
    assume k: "k \<in> set ?ks" "map_of imageParamMap k = Some ev" "env_getenv env ev \<noteq> []"
    then have "k \<noteq> ''namespace''" by (auto simp: imageParamMap_def)
    then have "map_of m' k = param_override env imageParamMap m k"
      by (simp add: assms(2) param_spec_def param_extra_def)
    moreover have "map_of m' k \<noteq> None" using k(1) dom by auto
    ultimately show "gomap_get m' k = env_getenv env ev"
      using k by (auto simp: gomap_get_def param_override_def split: option.splits if_splits)
  qed
  moreover have "extra_loop (env_range env 1 [(''namespace'', ns)]) (0, m') = (0, m')"
  proof (rule extra_loop_id)
    fix k v
    assume "(k, v) \<in> set (env_range env 1 [(''namespace'', ns)])"
    then have "k = ''namespace''" and "v = ns"
      using range_order_set [OF orders_okD [OF assms(1)]] by auto
    then show "gomap_get m' k = v"
      by (auto simp: gomap_get_zero assms(2) param_spec_def param_extra_def zero_val_def)
  qed
  ultimately show ?thesis by (simp add: merge_params_def)
qed

subsection \<open>The copied tree\<close>

text \<open>The paths a copy below \<open>d\<close> may write: \<open>d\<close>, what is above it and what is below it.\<close>

definition copy_region :: "string \<Rightarrow> string \<Rightarrow> bool" where
  "copy_region d q = (prefix (q @ [SLASH]) (d @ [SLASH]) \<or> prefix (d @ [SLASH]) q)"

lemma copy_region_ancestor:
  assumes "q \<in> set (ancestors (d @ SLASH # rel)) \<or> q = d @ SLASH # rel"
  shows "copy_region d q"
proof (cases "q = d @ SLASH # rel")
  case True
  then show ?thesis by (simp add: copy_region_def)
next
  case False
  with assms have "prefix (q @ [SLASH]) ((d @ [SLASH]) @ rel)" by (auto dest: ancestors_prefix)
  then consider "prefix (q @ [SLASH]) (d @ [SLASH])" | "prefix (d @ [SLASH]) (q @ [SLASH])"
    by (metis prefixI prefix_same_cases)
  then show ?thesis
  proof cases
    case 2
    then have "prefix (d @ [SLASH]) q \<or> d = q" by (auto simp: prefix_snoc)
    then show ?thesis by (auto simp: copy_region_def)
  qed (simp add: copy_region_def)
qed

lemma copy_region_top:
  assumes "q \<in> set (ancestors d) \<or> q = d"
  shows "copy_region d q"
  using assms by (auto simp: copy_region_def dest!: ancestors_prefix intro: prefix_order.trans)

lemma copy_entry_other:
  assumes "\<not> copy_region dst q"
  shows "fs_get (snd (copy_entry env src dst e fs)) q = fs_get fs q"
proof -
  have "q \<notin> set (ancestors (dst @ SLASH # fst e))" and "q \<noteq> dst @ SLASH # fst e"
    using assms copy_region_ancestor by blast+
  then show ?thesis by (auto simp: copy_entry_def Let_def MkdirAll_other split: fnode.splits)
qed

lemma copy_entries_other:
  "\<not> copy_region dst q \<Longrightarrow> fs_get (snd (copy_entries env src dst es fs)) q = fs_get fs q"
proof (induction es arbitrary: fs)
  case (Cons e es)
  obtain err fs' where "copy_entry env src dst e fs = (err, fs')"
    by (cases "copy_entry env src dst e fs")
  with Cons copy_entry_other [OF Cons.prems, of env src e fs] show ?case by (cases err) auto
qed simp

lemma copyDir_other:
  assumes "\<not> copy_region dst q"
  shows "fs_get (snd (copyDir env src dst fs)) q = fs_get fs q"
proof -
  obtain err fs' where mk: "os_MkdirAll env dst fs = (err, fs')" by (cases "os_MkdirAll env dst fs")
  have "fs_get fs' q = fs_get fs q"
    using MkdirAll_other [of q dst env fs] copy_region_top [of q dst] assms mk by auto
  then show ?thesis
    using assms mk
    by (cases err) (auto simp: copyDir_def os_CopyFS_def copy_entries_other split: option.splits fnode.splits)
qed

lemma writable_other:
  "\<not> copy_region (writable_dst env) q \<Longrightarrow>
     fs_get (snd (writableManifestsBase env base fs)) q = fs_get fs q"
  using copyDir_other [of "writable_dst env" q env base fs]
  by (auto simp: writableManifestsBase_def Let_def split: prod.splits option.splits)

lemma copy_entries_keeps:
  "fs_get fs q = Some n \<Longrightarrow> fs_get (snd (copy_entries env src dst es fs)) q \<noteq> None"
proof (induction es arbitrary: fs n)
  case (Cons e es)
  obtain err fs' where step: "copy_entry env src dst e fs = (err, fs')"
    by (cases "copy_entry env src dst e fs")
  have "fs_get (snd (copy_entry env src dst e fs)) q \<noteq> None"
    using Cons.prems by (auto simp: copy_entry_def Let_def MkdirAll_keeps split: fnode.splits)
  then obtain n' where "fs_get fs' q = Some n'" using step by auto
  from Cons.IH [OF this] this step show ?case by (cases err) auto
qed simp

lemma CopyFS_keeps:
  "fs_get fs q = Some n \<Longrightarrow> fs_get (snd (os_CopyFS env dst src fs)) q \<noteq> None"
  using copy_entries_keeps [of fs q n env src dst "tree_entries src fs"]
  by (auto simp: os_CopyFS_def split: option.splits fnode.splits)

lemma writable_result:
  "fst (writableManifestsBase env base fs) = Inr d \<Longrightarrow> d = writable_dst env"
  by (auto simp: writableManifestsBase_def Let_def split: if_splits prod.splits option.splits)

text \<open>A tree as file systems have it: unique paths, and directories above every node.\<close>

definition tree_ok :: "files \<Rightarrow> bool" where
  "tree_ok fs =
     (distinct (map fst fs)
      \<and> (\<forall>p n. fs_get fs p = Some n \<longrightarrow> (\<forall>a \<in> set (ancestors p). fs_get fs a = Some FDir)))"

lemma tree_entries_iff:
  assumes "distinct (map fst fs)"
  shows "(rel, n) \<in> set (tree_entries src fs) \<longleftrightarrow> fs_get fs (src @ SLASH # rel) = Some n"
proof -
  have "(rel, n) \<in> set (tree_entries src fs) \<longleftrightarrow> (src @ SLASH # rel, n) \<in> set fs"
  proof
    assume "(rel, n) \<in> set (tree_entries src fs)"
    then obtain p where "(p, n) \<in> set fs" "prefix (src @ [SLASH]) p" "rel = drop (Suc (length src)) p"
      by (auto simp: tree_entries_def)
    then show "(src @ SLASH # rel, n) \<in> set fs" by (auto elim!: prefixE)
  next
    assume "(src @ SLASH # rel, n) \<in> set fs"
    then show "(rel, n) \<in> set (tree_entries src fs)"
      by (force simp: tree_entries_def image_iff)
  qed
  also have "\<dots> \<longleftrightarrow> fs_get fs (src @ SLASH # rel) = Some n"
    using assms by (simp add: fs_get_def)
  finally show ?thesis .
qed

lemma tree_entries_distinct:
  assumes "distinct (map fst fs)"
  shows "distinct (map fst (tree_entries src fs))"
proof -
  let ?ps = "filter (\<lambda>e. prefix (src @ [SLASH]) (fst e)) fs"
  have "distinct (map fst ?ps)" using assms by (rule distinct_map_filter)
  moreover have "inj_on (drop (Suc (length src))) (set (map fst ?ps))"
  proof (rule inj_onI)
    fix p q
    assume "p \<in> set (map fst ?ps)" and "q \<in> set (map fst ?ps)"
      and eq: "drop (Suc (length src)) p = drop (Suc (length src)) q"
    then have "prefix (src @ [SLASH]) p" and "prefix (src @ [SLASH]) q" by auto
    then show "p = q" using eq by (auto elim!: prefixE)
  qed
  ultimately have "distinct (map (drop (Suc (length src))) (map fst ?ps))"
    by (simp only: distinct_map [of _ "map fst ?ps"] simp_thms)
  moreover have "mset (map fst (tree_entries src fs))
      = mset (map (drop (Suc (length src))) (map fst ?ps))"
    by (simp add: tree_entries_def comp_def image_mset.compositionality)
  ultimately show ?thesis by (metis mset_eq_imp_distinct_iff)
qed

text \<open>One step of the walk without faults, on a tree whose part below \<open>dst\<close> mirrors \<open>src\<close>.\<close>

definition mirrors :: "files \<Rightarrow> string \<Rightarrow> string \<Rightarrow> files \<Rightarrow> bool" where
  "mirrors fs src dst cur =
     ((\<forall>rel. fs_get cur (dst @ SLASH # rel) = None
         \<or> fs_get cur (dst @ SLASH # rel) = fs_get fs (src @ SLASH # rel))
      \<and> (\<forall>a \<in> set (ancestors dst @ [dst]). fs_get cur a = Some FDir))"

lemma ancestors_iff:
  "a \<in> set (ancestors p) \<longleftrightarrow> (\<exists>i. 0 < i \<and> i < length p \<and> p ! i = SLASH \<and> a = take i p)"
  by (auto simp: ancestors_def)

lemma ancestors_below:
  assumes "a \<in> set (ancestors (dst @ SLASH # rel))"
  shows "a \<in> set (ancestors dst @ [dst])
         \<or> (\<exists>r. a = dst @ SLASH # r \<and> src @ SLASH # r \<in> set (ancestors (src @ SLASH # rel)))"
proof -
  from assms obtain i where i: "0 < i" "i < length (dst @ SLASH # rel)"
    "(dst @ SLASH # rel) ! i = SLASH" "a = take i (dst @ SLASH # rel)"
    unfolding ancestors_iff by blast
  consider (above) "i < length dst" | (top) "i = length dst" | (below) j where "i = Suc (length dst + j)"
    by (metis add_Suc_right less_imp_Suc_add linorder_neqE_nat)
  then show ?thesis
  proof cases
    case above
    then have "a \<in> set (ancestors dst)"
      using i unfolding ancestors_iff by (intro exI [of _ i]) (simp add: nth_append)
    then show ?thesis by simp
  next
    case top
    with i show ?thesis by simp
  next
    case below
    then have "rel ! j = SLASH" and "j < length rel" using i by (auto simp: nth_append)
    then have "src @ SLASH # take j rel \<in> set (ancestors (src @ SLASH # rel))"
      unfolding ancestors_iff
      by (intro exI [of _ "Suc (length src + j)"]) (simp add: nth_append)
    moreover have "a = dst @ SLASH # take j rel" using i below by simp
    ultimately show ?thesis by blast
  qed
qed

lemma mirror_ancestor:
  assumes "mirrors fs src dst cur" and "tree_ok fs" and "fs_get fs (src @ SLASH # rel) = Some n"
    and "a \<in> set (ancestors (dst @ SLASH # rel))" and "fs_get cur a = None"
  obtains r where "a = dst @ SLASH # r" and "fs_get fs (src @ SLASH # r) = Some FDir"
proof -
  from ancestors_below [OF assms(4), of src] assms(1,5)
  obtain r where r: "a = dst @ SLASH # r" "src @ SLASH # r \<in> set (ancestors (src @ SLASH # rel))"
    by (auto simp: mirrors_def)
  with assms(2,3) have "fs_get fs (src @ SLASH # r) = Some FDir" by (auto simp: tree_ok_def)
  with r that show thesis by blast
qed

lemma mirror_no_file:
  assumes "mirrors fs src dst cur" and "tree_ok fs" and "fs_get fs (src @ SLASH # rel) = Some n"
    and "a \<in> set (ancestors (dst @ SLASH # rel))"
  shows "\<not> is_file (fs_get cur a)"
proof -
  from ancestors_below [OF assms(4), of src]
  show ?thesis
  proof (elim disjE exE conjE)
    assume "a \<in> set (ancestors dst @ [dst])"
    then show ?thesis using assms(1) by (auto simp: mirrors_def is_file_def)
  next
    fix r
    assume a: "a = dst @ SLASH # r" and "src @ SLASH # r \<in> set (ancestors (src @ SLASH # rel))"
    then have "fs_get fs (src @ SLASH # r) = Some FDir"
      using assms(2,3) by (auto simp: tree_ok_def)
    moreover have "fs_get cur a = None \<or> fs_get cur a = fs_get fs (src @ SLASH # r)"
      using assms(1) a by (auto simp: mirrors_def)
    ultimately show ?thesis by (auto simp: is_file_def)
  qed
qed

lemma copy_entry_ok:
  assumes "no_faults env" and "tree_ok fs" and "mirrors fs src dst cur"
    and "fs_get fs (src @ SLASH # rel) = Some n"
    and "is_file (Some n) \<Longrightarrow> fs_get cur (dst @ SLASH # rel) = None"
  shows "\<exists>cur'. copy_entry env src dst (rel, n) cur = (None, cur') \<and> mirrors fs src dst cur'
           \<and> fs_get cur' (dst @ SLASH # rel) = Some n
           \<and> (\<forall>q. is_file (fs_get cur' q) \<longrightarrow> q = dst @ SLASH # rel \<or> fs_get cur q = fs_get cur' q)
           \<and> (\<forall>q m. fs_get cur q = Some m \<longrightarrow> fs_get cur' q = Some m)"
proof (cases n)
  case FDir
  let ?np = "dst @ SLASH # rel" and ?ds = "ancestors (dst @ SLASH # rel) @ [dst @ SLASH # rel]"
  let ?cur' = "fold mkdir_missing ?ds cur"
  have np: "fs_get cur ?np = None \<or> fs_get cur ?np = Some FDir"
    using assms(3,4) FDir by (auto simp: mirrors_def)
  have get: "fs_get ?cur' q = (if q \<in> set ?ds \<and> fs_get cur q = None then Some FDir else fs_get cur q)"
    for q by (rule fs_get_mkdirs)
  have "\<forall>d \<in> set ?ds. \<not> is_file (fs_get cur d)"
    using mirror_no_file [OF assms(3,2,4)] np by (auto simp: is_file_def)
  then have "copy_entry env src dst (rel, n) cur = (None, ?cur')"
    using assms(1) FDir MkdirAll_ok [of env ?np cur] by (simp add: copy_entry_def Let_def del: fold_append)
  moreover have "mirrors fs src dst ?cur'"
    unfolding mirrors_def
  proof (intro conjI allI)
    fix r
    show "fs_get ?cur' (dst @ SLASH # r) = None
            \<or> fs_get ?cur' (dst @ SLASH # r) = fs_get fs (src @ SLASH # r)"
    proof (cases "dst @ SLASH # r \<in> set ?ds \<and> fs_get cur (dst @ SLASH # r) = None")
      case True
      then have "fs_get fs (src @ SLASH # r) = Some FDir"
        using mirror_ancestor [OF assms(3,2,4)] assms(4) FDir by auto
      with True get show ?thesis by simp
    next
      case False
      then have "fs_get ?cur' (dst @ SLASH # r) = fs_get cur (dst @ SLASH # r)"
        using get [of "dst @ SLASH # r"] by (simp only: if_False)
      with assms(3) show ?thesis unfolding mirrors_def by (metis (no_types))
    qed
  next
    show "\<forall>a \<in> set (ancestors dst @ [dst]). fs_get ?cur' a = Some FDir"
      using assms(3) get by (auto simp: mirrors_def)
  qed
  moreover have "fs_get ?cur' ?np = Some n" using np FDir get by auto
  ultimately show ?thesis
    using get by (intro exI [of _ ?cur']) (auto simp: is_file_def simp del: fold_append split: if_splits)
next
  case (FFile c)
  let ?np = "dst @ SLASH # rel" and ?cur' = "fs_put (dst @ SLASH # rel) (FFile c) cur"
  have none: "fs_get cur ?np = None" using assms(5) FFile by (simp add: is_file_def)
  then have "copy_entry env src dst (rel, n) cur = (None, ?cur')"
    using assms(1) FFile by (simp add: copy_entry_def Let_def)
  moreover have "mirrors fs src dst ?cur'"
    using assms(3,4) none FFile by (auto simp: mirrors_def)
  ultimately show ?thesis using none FFile by (intro exI [of _ ?cur']) (auto split: if_splits)
qed

lemma copy_entries_ok:
  assumes "no_faults env" and "tree_ok fs" and "mirrors fs src dst cur"
    and "\<forall>(rel, n) \<in> set es. fs_get fs (src @ SLASH # rel) = Some n" and "distinct (map fst es)"
    and "\<forall>(rel, n) \<in> set es. is_file (Some n) \<longrightarrow> fs_get cur (dst @ SLASH # rel) = None"
  shows "\<exists>cur'. copy_entries env src dst es cur = (None, cur') \<and> mirrors fs src dst cur'
           \<and> (\<forall>(rel, n) \<in> set es. fs_get cur' (dst @ SLASH # rel) = Some n)
           \<and> (\<forall>q m. fs_get cur q = Some m \<longrightarrow> fs_get cur' q = Some m)"
  using assms(3-6)
proof (induction es arbitrary: cur)
  case (Cons e es)
  obtain rel n where e: "e = (rel, n)" by (cases e)
  from Cons.prems e have "fs_get fs (src @ SLASH # rel) = Some n"
    and "is_file (Some n) \<Longrightarrow> fs_get cur (dst @ SLASH # rel) = None" by auto
  from copy_entry_ok [OF assms(1,2) Cons.prems(1) this]
  obtain cur1 where c1: "copy_entry env src dst (rel, n) cur = (None, cur1)"
    "mirrors fs src dst cur1" "fs_get cur1 (dst @ SLASH # rel) = Some n"
    "\<forall>q. is_file (fs_get cur1 q) \<longrightarrow> q = dst @ SLASH # rel \<or> fs_get cur q = fs_get cur1 q"
    "\<forall>q m. fs_get cur q = Some m \<longrightarrow> fs_get cur1 q = Some m"
    by blast
  have "\<forall>(r, m) \<in> set es. is_file (Some m) \<longrightarrow> fs_get cur1 (dst @ SLASH # r) = None"
  proof (intro ballI, clarify)
    fix r m
    assume rm: "(r, m) \<in> set es" and isf: "is_file (Some m)"
    from Cons.prems e rm isf have "fs_get cur (dst @ SLASH # r) = None"
      and src: "fs_get fs (src @ SLASH # r) = Some m" and "r \<noteq> rel" by force+
    then show "fs_get cur1 (dst @ SLASH # r) = None"
      using c1(2,4) isf by (metis append_same_eq list.inject mirrors_def same_append_eq)
  qed
  then obtain cur2 where c2: "copy_entries env src dst es cur1 = (None, cur2)" "mirrors fs src dst cur2"
    "\<forall>(rel, n) \<in> set es. fs_get cur2 (dst @ SLASH # rel) = Some n"
    "\<forall>q m. fs_get cur1 q = Some m \<longrightarrow> fs_get cur2 q = Some m"
    using Cons.IH [OF c1(2)] Cons.prems by auto
  with c1 e show ?case by auto
qed simp

lemma mkdirs_distinct: "distinct (map fst fs) \<Longrightarrow> distinct (map fst (fold mkdir_missing ds fs))"
  by (induction ds arbitrary: fs) (auto simp: mkdir_missing_def fs_put_def distinct_update)

lemma writable_dst_nonempty: "writable_dst env \<noteq> []"
  by (auto simp: writable_dst_def path_join_def os_TempDir_def clean_def Let_def)

lemma not_is_file: "\<not> is_file x \<longleftrightarrow> x = None \<or> x = Some FDir"
  by (auto simp: is_file_def split: option.splits fnode.splits)

text \<open>The tree after \<^verbatim>\<open>MkdirAll\<close> of a directory that was not there.\<close>

lemma mkdir_below_none:
  assumes "tree_ok fs" and "dst \<noteq> []" and "fs_get fs dst = None"
  shows "fs_get (fold mkdir_missing (ancestors dst @ [dst]) fs) (dst @ SLASH # rel) = None"
proof -
  have "dst \<in> set (ancestors (dst @ SLASH # rel))"
    unfolding ancestors_iff using assms(2) by (intro exI [of _ "length dst"]) simp
  then have "fs_get fs (dst @ SLASH # rel) = None"
    using assms(1,3) unfolding tree_ok_def by (metis not_None_eq)
  moreover have "dst @ SLASH # rel \<notin> set (ancestors dst @ [dst])"
    by (auto dest: ancestors_prefix prefix_length_le)
  ultimately show ?thesis by (simp only: fs_get_mkdirs) simp
qed

lemma mkdir_mirrors:
  assumes "tree_ok fs" and "dst \<noteq> []" and "fs_get fs dst = None"
    and "\<forall>a \<in> set (ancestors dst). \<not> is_file (fs_get fs a)"
  shows "mirrors fs src dst (fold mkdir_missing (ancestors dst @ [dst]) fs)"
  unfolding mirrors_def
proof (intro conjI allI ballI)
  fix a
  assume a: "a \<in> set (ancestors dst @ [dst])"
  have "fs_get fs a = None \<or> fs_get fs a = Some FDir"
    using a assms(3,4) by (auto simp: not_is_file)
  with a show "fs_get (fold mkdir_missing (ancestors dst @ [dst]) fs) a = Some FDir"
    by (auto simp only: fs_get_mkdirs simp_thms if_True split: if_splits)
qed (simp only: mkdir_below_none [OF assms(1-3)] simp_thms)

lemma mkdir_keeps_source:
  assumes "\<not> prefix (src @ [SLASH]) (dst @ [SLASH])"
  shows "fs_get (fold mkdir_missing (ancestors dst @ [dst]) fs) (src @ SLASH # rel)
           = fs_get fs (src @ SLASH # rel)"
proof -
  have "src @ SLASH # rel \<notin> set (ancestors dst @ [dst])"
  proof
    assume "src @ SLASH # rel \<in> set (ancestors dst @ [dst])"
    then have "prefix ((src @ SLASH # rel) @ [SLASH]) (dst @ [SLASH])"
      by (auto dest: ancestors_prefix intro: prefix_order.trans)
    then have "prefix (src @ [SLASH]) (dst @ [SLASH])"
      by (auto simp: prefix_def)
    with assms show False by contradiction
  qed
  then show ?thesis by (simp only: fs_get_mkdirs) simp
qed

lemma copyDir_complete:
  assumes "no_faults env" and "tree_ok fs" and "dst \<noteq> []" and "fs_get fs dst = None"
    and "\<forall>a \<in> set (ancestors dst). \<not> is_file (fs_get fs a)"
    and "fs_get fs src = Some FDir" and "\<not> prefix (src @ [SLASH]) (dst @ [SLASH])"
  shows "\<exists>fs'. copyDir env src dst fs = (None, fs') \<and> fs_get fs' dst = Some FDir
           \<and> (\<forall>rel. fs_get fs' (dst @ SLASH # rel) = fs_get fs (src @ SLASH # rel))"
proof -
  let ?fs1 = "fold mkdir_missing (ancestors dst @ [dst]) fs"
  let ?es = "tree_entries src ?fs1"
  have mk: "os_MkdirAll env dst fs = (None, ?fs1)"
    using assms(1,4,5) by (intro MkdirAll_ok) (simp_all add: is_file_def)
  have mir: "mirrors fs src dst ?fs1" by (rule mkdir_mirrors [OF assms(2-5)])
  have d1: "distinct (map fst ?fs1)" using assms(2) by (intro mkdirs_distinct) (simp add: tree_ok_def)
  have es: "(rel, n) \<in> set ?es \<longleftrightarrow> fs_get fs (src @ SLASH # rel) = Some n" for rel n
    by (simp only: tree_entries_iff [OF d1] mkdir_keeps_source [OF assms(7)])
  have none: "fs_get ?fs1 (dst @ SLASH # rel) = None" for rel
    by (rule mkdir_below_none [OF assms(2-4)])
  have "\<exists>fs'. copy_entries env src dst ?es ?fs1 = (None, fs') \<and> mirrors fs src dst fs'
           \<and> (\<forall>(rel, n) \<in> set ?es. fs_get fs' (dst @ SLASH # rel) = Some n)
           \<and> (\<forall>q m. fs_get ?fs1 q = Some m \<longrightarrow> fs_get fs' q = Some m)"
    using assms(1,2) mir
  proof (rule copy_entries_ok)
    show "\<forall>(rel, n) \<in> set ?es. fs_get fs (src @ SLASH # rel) = Some n"
    proof clarify
      fix rel n
      assume "(rel, n) \<in> set ?es"
      then show "fs_get fs (src @ SLASH # rel) = Some n" by (simp only: es)
    qed
    show "distinct (map fst ?es)" by (rule tree_entries_distinct [OF d1])
    show "\<forall>(rel, n) \<in> set ?es. is_file (Some n) \<longrightarrow> fs_get ?fs1 (dst @ SLASH # rel) = None"
      by (simp only: none simp_thms) auto
  qed
  then obtain fs' where fs': "copy_entries env src dst ?es ?fs1 = (None, fs')"
    "\<forall>(rel, n) \<in> set ?es. fs_get fs' (dst @ SLASH # rel) = Some n" "mirrors fs src dst fs'" by blast
  have "fs_get ?fs1 src = Some FDir" using assms(6) by (simp only: fs_get_mkdirs) simp
  then have "copyDir env src dst fs = (None, fs')"
    using assms(1) mk fs'(1) by (simp add: copyDir_def os_CopyFS_def del: fold_append)
  moreover have "fs_get fs' (dst @ SLASH # rel) = fs_get fs (src @ SLASH # rel)" for rel
  proof (cases "fs_get fs (src @ SLASH # rel)")
    case None
    with fs'(3) show ?thesis unfolding mirrors_def by (metis (no_types))
  next
    case (Some n)
    then have "(rel, n) \<in> set ?es" by (simp only: es)
    with fs'(2) Some show ?thesis by auto
  qed
  moreover have "fs_get fs' dst = Some FDir" using fs'(3) by (simp add: mirrors_def)
  ultimately show ?thesis by blast
qed

lemma writable_fresh:
  assumes "no_faults env" and "tree_ok fs" and "fs_get fs (writable_dst env) = None"
    and "\<forall>a \<in> set (ancestors (writable_dst env)). \<not> is_file (fs_get fs a)"
    and "fs_get fs base = Some FDir"
    and "\<not> prefix (base @ [SLASH]) (writable_dst env @ [SLASH])"
  shows "\<exists>fs'. writableManifestsBase env base fs = (Inr (writable_dst env), fs')
           \<and> fs_get fs' (writable_dst env) = Some FDir
           \<and> (\<forall>rel. fs_get fs' (writable_dst env @ SLASH # rel) = fs_get fs (base @ SLASH # rel))
           \<and> (\<forall>q. \<not> copy_region (writable_dst env) q \<longrightarrow> fs_get fs' q = fs_get fs q)"
proof -
  obtain fs' where c: "copyDir env base (writable_dst env) fs = (None, fs')"
    "fs_get fs' (writable_dst env) = Some FDir"
    "\<forall>rel. fs_get fs' (writable_dst env @ SLASH # rel) = fs_get fs (base @ SLASH # rel)"
    using copyDir_complete [OF assms(1,2) writable_dst_nonempty assms(3-6)] by blast
  then have w: "writableManifestsBase env base fs = (Inr (writable_dst env), fs')"
    using assms(1,3) by (simp add: writableManifestsBase_def os_Stat_def Let_def)
  with c(2,3) writable_other [of env _ base fs] show ?thesis by auto
qed

section \<open>Properties\<close>

text \<open>
  Reading a parameter file: \<^verbatim>\<open>parseParams\<close> succeeds only on a file of the tree whose
  lines fit the scanner, and the map it returns assigns to each key the value of the last line
  \<^verbatim>\<open>key=value\<close> for it; lines without an equals sign count for nothing.
\<close>

theorem parseParams_last_wins:
  assumes "parseParams env p fs = Inr m"
  shows "\<exists>c ls. fs_get fs p = Some (FFile c) \<and> scan_lines c = Inr ls
           \<and> map_of m = map_of (rev (param_pairs ls)) \<and> gomap_wf m"
proof -
  from assms obtain c where c: "fs_get fs p = Some (FFile c)" and t: "parse_text c = Inr m"
    by (rule parseParams_Inr_file)
  from t obtain ls where ls: "scan_lines c = Inr ls" and m: "m = foldl parse_line [] ls"
    by (auto simp: parse_text_def split: sum.splits)
  with map_of_parse_lines [of "[]" ls] have "map_of m = map_of (rev (param_pairs ls))" by simp
  with c t ls parse_text_wf show ?thesis by blast
qed

text \<open>
  C24. Round trip of the parameter format: what \<^verbatim>\<open>applyParams\<close> prints for a map (in any
  iteration order) is parsed back to the same map, when no key has an equals sign, no key or value
  has a newline, no value ends in a carriage return and every line fits the scanner's buffer.
\<close>

theorem params_roundtrip:
  assumes "range_order rng" and "params_ok m"
  shows "\<exists>m'. parse_text (renderParams (rng m)) = Inr m' \<and> gomap_wf m' \<and> map_of m' = map_of m"
  using assms by (rule env_file.parse_print_order)

text \<open>
  C11. \<^verbatim>\<open>applyParams\<close> does what it says: without file errors it returns nil, and reading
  \<^verbatim>\<open>params.env\<close> back gives the file's parameters with each mapped image replaced by its
  non-empty environment variable and the extra parameters laid over them, whatever the order in
  which the maps were iterated.
\<close>

theorem applyParams_correct:
  assumes "no_faults env" and "orders_ok env"
    and "fs_get fs (params_path dir) = Some (FFile c)" and "parse_text c = Inr m"
    and "temp_free env dir fs" and "list_all gomap_wf es"
    and "\<forall>k v. param_spec env im es (map_of m) k = Some v \<longrightarrow> param_ok (k, v)"
  shows "\<exists>fs' m'. applyParams env dir im es fs = (None, fs')
           \<and> parseParams env (params_path dir) fs' = Inr m'
           \<and> map_of m' = param_spec env im es (map_of m)"
  using assms by (rule applyParams_reads_back)

text \<open>
  C23. Atomic replacement: whatever file operations fail, \<^verbatim>\<open>applyParams\<close> leaves
  \<^verbatim>\<open>params.env\<close> as it was when it returns an error, and otherwise unchanged or completely
  rewritten from the merged parameters; it touches no other file but its temporary one, which is
  gone afterwards unless removing it failed too.
\<close>

theorem applyParams_atomic:
  assumes "applyParams env dir im es fs = (e, fs')"
  shows "(e \<noteq> None \<longrightarrow> fs_get fs' (params_path dir) = fs_get fs (params_path dir))
    \<and> (fs_get fs' (params_path dir) = fs_get fs (params_path dir)
       \<or> (\<exists>m. parseParams env (params_path dir) fs = Inr m
             \<and> fs_get fs' (params_path dir)
                = Some (FFile (renderParams (env_range env 2 (snd (merge_params env im es m)))))))
    \<and> (\<forall>q. q \<noteq> params_path dir \<longrightarrow> q \<noteq> temp_name env dir fs \<longrightarrow> fs_get fs' q = fs_get fs q)
    \<and> (\<not> env_fault env FRemove (temp_name env dir fs) \<longrightarrow>
         fs_get fs' (temp_name env dir fs) = None
         \<or> fs_get fs' (temp_name env dir fs) = fs_get fs (temp_name env dir fs))"
  using assms
proof (cases rule: applyParams_cases)
  case unchanged
  then show ?thesis by simp
next
  case (written m)
  have pf: "fs_get fs (params_path dir) \<noteq> None"
    using written(1) by (auto elim: parseParams_Inr_file)
  show ?thesis
    using write_params_target [OF written(3) pf] write_params_other [OF written(3)]
      write_params_temp [OF written(3) pf] written(1)
    by blast
qed

text \<open>
  C25. Idempotence of the parameter rewrite: after the module's own \<^verbatim>\<open>applyParams\<close> call
  (image map and namespace) has succeeded once, repeating it, as every later reconcile does, finds
  nothing to update and leaves the file tree exactly as it is.
\<close>

theorem applyParams_idempotent:
  assumes "no_faults env" and "orders_ok env"
    and "fs_get fs (params_path dir) = Some (FFile c)" and "parse_text c = Inr m"
    and "temp_free env dir fs"
    and "\<forall>k v. param_spec env imageParamMap [[(''namespace'', ns)]] (map_of m) k = Some v
           \<longrightarrow> param_ok (k, v)"
    and "applyParams env dir imageParamMap [[(''namespace'', ns)]] fs = (None, fs')"
  shows "applyParams env dir imageParamMap [[(''namespace'', ns)]] fs' = (None, fs')"
proof -
  have "list_all gomap_wf [[(''namespace'', ns)]]" by (simp add: gomap_wf_def)
  from applyParams_reads_back [OF assms(1-5) this assms(6)] assms(7)
  obtain m' where m': "parseParams env (params_path dir) fs' = Inr m'"
    "map_of m' = param_spec env imageParamMap [[(''namespace'', ns)]] (map_of m)"
    by auto
  from merge_again [OF assms(2) m'(2)] m'(1) show ?thesis
    by (simp add: applyParams_def params_path_def Let_def)
qed

text \<open>
  The writable copy is complete: when the temporary directory is not there yet and no file
  operation fails, \<^verbatim>\<open>writableManifestsBase\<close> returns it with exactly the files and
  directories of the image's manifest tree in it, and leaves every path outside it as it was.
\<close>

theorem writableManifestsBase_complete:
  assumes "no_faults env" and "tree_ok fs" and "fs_get fs (writable_dst env) = None"
    and "\<forall>a \<in> set (ancestors (writable_dst env)). \<not> is_file (fs_get fs a)"
    and "fs_get fs base = Some FDir"
    and "\<not> prefix (base @ [SLASH]) (writable_dst env @ [SLASH])"
  shows "\<exists>fs'. writableManifestsBase env base fs = (Inr (writable_dst env), fs')
           \<and> (\<forall>rel. fs_get fs' (writable_dst env @ SLASH # rel) = fs_get fs (base @ SLASH # rel))
           \<and> (\<forall>q. \<not> copy_region (writable_dst env) q \<longrightarrow> fs_get fs' q = fs_get fs q)"
  using writable_fresh [OF assms] by blast

text \<open>
  C38. A failed copy is not retried: once \<^verbatim>\<open>copyDir\<close> has made the destination directory,
  an error while copying leaves the partial tree in place, and every later call (whatever fails or
  not then, as long as the directory can be seen) returns it as the complete copy without copying
  anything.
\<close>

theorem failed_copy_is_kept:
  assumes "writableManifestsBase env base fs = (Inl e, fs')"
    and "fst (os_MkdirAll env (writable_dst env) fs) = None"
    and "writable_dst env' = writable_dst env" and "\<not> env_fault env' FStat (writable_dst env)"
  shows "writableManifestsBase env' base fs' = (Inr (writable_dst env), fs')"
proof -
  let ?d = "writable_dst env"
  obtain fs1 where mk: "os_MkdirAll env ?d fs = (None, fs1)"
    using assms(2) by (cases "os_MkdirAll env ?d fs") auto
  then have "fs_get fs1 ?d \<noteq> None" by (rule MkdirAll_creates)
  moreover obtain err where "os_CopyFS env ?d base fs1 = (Some err, fs')"
    using assms(1) mk
    by (auto simp: writableManifestsBase_def copyDir_def Let_def split: if_splits prod.splits option.splits)
  ultimately have "fs_get fs' ?d \<noteq> None"
    using CopyFS_keeps [of fs1 ?d _ env ?d base] by (metis not_None_eq snd_conv)
  with assms(3,4) show ?thesis by (auto simp: writableManifestsBase_def os_Stat_def Let_def)
qed

section \<open>Witnesses\<close>

text \<open>
  A process with one image variable set, maps iterated backwards, and a small image tree with the
  parameter file of an overlay.
\<close>

definition sample_env :: env where
  "sample_env =
     \<lparr>env_getenv = (\<lambda>v. if v = ''RELATED_IMAGE_ODH_KUBERAY_OPERATOR_CONTROLLER_IMAGE''
                         then ''r/kuberay:v2'' else []),
      env_fault = (\<lambda>op p. False), env_short = (\<lambda>p. 0), env_rand = (\<lambda>i. if i = 0 then ''7'' else ''8''),
      env_range = (\<lambda>i m. rev m)\<rparr>"

definition sample_text :: string where
  "sample_text =
     ''namespace=odh'' @ [NL] @ ''odh-kuberay-operator-controller-image=q/kuberay:v1'' @ [NL]"

definition sample_fs :: files where
  "sample_fs = [(''/w/params.env'', FFile sample_text)]"

definition sample_tree :: files where
  "sample_tree =
     [(''/opt'', FDir), (''/opt/manifests'', FDir), (''/opt/manifests/kuberay'', FDir),
      (''/opt/manifests/kuberay/params.env'', FFile sample_text), (''/tmp'', FDir)]"

lemma sample_env_facts [simp]: "no_faults sample_env" "orders_ok sample_env"
  by (simp_all add: sample_env_def no_faults_def orders_ok_def range_order_def)

lemma sample_read:
  "params_path ''/w'' = ''/w/params.env''" "temp_name sample_env ''/w'' sample_fs = ''/w/params.env-7''"
  "fs_get sample_fs ''/w/params.env'' = Some (FFile sample_text)"
  "fs_get sample_fs ''/w/params.env-7'' = None"
  "parse_text sample_text = Inr [(''namespace'', ''odh''),
     (''odh-kuberay-operator-controller-image'', ''q/kuberay:v1'')]"
  by code_simp+

lemma sample_temp_free: "temp_free sample_env ''/w'' sample_fs"
  unfolding temp_free_def by (rule exI [of _ 0]) (simp add: temp_try_def sample_fs_def sample_env_def fs_get_def)

lemma sample_merge_ok:
  "\<forall>k v. param_spec sample_env imageParamMap [[(''namespace'', ''apps'')]]
      (map_of [(''namespace'', ''odh''), (''odh-kuberay-operator-controller-image'', ''q/kuberay:v1'')])
      k = Some v \<longrightarrow> param_ok (k, v)"
  by (auto simp: param_spec_def param_extra_def param_override_def zero_val_def imageParamMap_def
      sample_env_def param_ok_def maxScanTokenSize_def split: option.splits if_splits)

theorem parseParams_last_wins_witness:
  "\<exists>c ls. fs_get sample_fs ''/w/params.env'' = Some (FFile c) \<and> scan_lines c = Inr ls
     \<and> map_of [(''namespace'', ''odh''), (''odh-kuberay-operator-controller-image'', ''q/kuberay:v1'')]
        = map_of (rev (param_pairs ls))
     \<and> gomap_wf [(''namespace'', ''odh''), (''odh-kuberay-operator-controller-image'', ''q/kuberay:v1'')]"
  by (rule parseParams_last_wins [of sample_env]) (simp add: parseParams_file sample_read)

theorem params_roundtrip_witness:
  "\<exists>m'. parse_text (renderParams (rev [(''a'', ''1''), (''b'', ''x=y'')])) = Inr m'
     \<and> gomap_wf m' \<and> map_of m' = map_of [(''a'', ''1''), (''b'', ''x=y'')]"
  by (rule params_roundtrip)
    (simp_all add: range_order_def params_ok_def gomap_wf_def param_ok_def maxScanTokenSize_def)

theorem applyParams_correct_witness:
  "\<exists>fs' m'. applyParams sample_env ''/w'' imageParamMap [[(''namespace'', ''apps'')]] sample_fs = (None, fs')
     \<and> parseParams sample_env (params_path ''/w'') fs' = Inr m'
     \<and> map_of m' = param_spec sample_env imageParamMap [[(''namespace'', ''apps'')]]
         (map_of [(''namespace'', ''odh''), (''odh-kuberay-operator-controller-image'', ''q/kuberay:v1'')])"
  using sample_merge_ok
  by (intro applyParams_correct [where c = sample_text]) (simp_all add: sample_read sample_temp_free gomap_wf_def)

text \<open>The same rewrite with a disk that fails when the temporary file is renamed.\<close>

definition sample_bad_env :: env where
  "sample_bad_env = sample_env\<lparr>env_fault := (\<lambda>op p. op = FRename)\<rparr>"

theorem applyParams_atomic_witness:
  "fst (applyParams sample_bad_env ''/w'' imageParamMap [[(''namespace'', ''apps'')]] sample_fs) \<noteq> None
   \<and> fs_get (snd (applyParams sample_bad_env ''/w'' imageParamMap [[(''namespace'', ''apps'')]] sample_fs))
       (params_path ''/w'') = Some (FFile sample_text)"
proof -
  have e: "fst (applyParams sample_bad_env ''/w'' imageParamMap [[(''namespace'', ''apps'')]] sample_fs) \<noteq> None"
    by code_simp
  with applyParams_atomic [OF prod.collapse [symmetric],
      of sample_bad_env "''/w''" imageParamMap "[[(''namespace'', ''apps'')]]" sample_fs]
  show ?thesis by (simp add: sample_read)
qed

theorem applyParams_idempotent_witness:
  "applyParams sample_env ''/w'' imageParamMap [[(''namespace'', ''apps'')]]
     (snd (applyParams sample_env ''/w'' imageParamMap [[(''namespace'', ''apps'')]] sample_fs))
   = (None, snd (applyParams sample_env ''/w'' imageParamMap [[(''namespace'', ''apps'')]] sample_fs))"
proof (rule applyParams_idempotent [where c = sample_text, OF _ _ _ _ _ sample_merge_ok])
  show "applyParams sample_env ''/w'' imageParamMap [[(''namespace'', ''apps'')]] sample_fs
    = (None, snd (applyParams sample_env ''/w'' imageParamMap [[(''namespace'', ''apps'')]] sample_fs))"
    by code_simp
qed (simp_all add: sample_read sample_temp_free)

lemma sample_dst: "writable_dst sample_env = ''/tmp/ray-module-manifests''"
  by code_simp

lemma sample_tree_ok: "tree_ok sample_tree"
proof -
  have "distinct (map fst sample_tree)" by (simp add: sample_tree_def)
  moreover have "list_all (\<lambda>(p, n). list_all (\<lambda>a. fs_get sample_tree a = Some FDir) (ancestors p)) sample_tree"
    by code_simp
  ultimately show ?thesis
    by (auto simp: tree_ok_def list_all_iff fs_get_def dest: map_of_SomeD)
qed

theorem writableManifestsBase_complete_witness:
  "\<exists>fs'. writableManifestsBase sample_env ''/opt/manifests'' sample_tree = (Inr (writable_dst sample_env), fs')
    \<and> fs_get fs' (writable_dst sample_env @ SLASH # ''kuberay/params.env'') = Some (FFile sample_text)"
proof -
  have rel: "fs_get sample_tree (''/opt/manifests'' @ SLASH # ''kuberay/params.env'') = Some (FFile sample_text)"
    and "fs_get sample_tree (writable_dst sample_env) = None"
    and "\<forall>a \<in> set (ancestors (writable_dst sample_env)). \<not> is_file (fs_get sample_tree a)"
    and "fs_get sample_tree ''/opt/manifests'' = Some FDir"
    and "\<not> prefix (''/opt/manifests'' @ [SLASH]) (writable_dst sample_env @ [SLASH])"
    by code_simp+
  from writableManifestsBase_complete [OF sample_env_facts(1) sample_tree_ok this(2-5)] rel show ?thesis by metis
qed

text \<open>A first copy that fails to write the parameter file; nothing fails later.\<close>

definition sample_full_env :: env where
  "sample_full_env = sample_env\<lparr>env_fault := (\<lambda>op p. op = FWrite)\<rparr>"

theorem failed_copy_is_kept_witness:
  "writableManifestsBase sample_env ''/opt/manifests''
     (snd (writableManifestsBase sample_full_env ''/opt/manifests'' sample_tree))
   = (Inr (writable_dst sample_full_env),
      snd (writableManifestsBase sample_full_env ''/opt/manifests'' sample_tree))
   \<and> fs_get (snd (writableManifestsBase sample_full_env ''/opt/manifests'' sample_tree))
       ''/tmp/ray-module-manifests/kuberay/params.env'' = Some (FFile [])"
proof
  have "isl (fst (writableManifestsBase sample_full_env ''/opt/manifests'' sample_tree))"
    by code_simp
  then obtain e where e: "fst (writableManifestsBase sample_full_env ''/opt/manifests'' sample_tree) = Inl e"
    by (cases "fst (writableManifestsBase sample_full_env ''/opt/manifests'' sample_tree)") auto
  show "writableManifestsBase sample_env ''/opt/manifests''
     (snd (writableManifestsBase sample_full_env ''/opt/manifests'' sample_tree))
   = (Inr (writable_dst sample_full_env),
      snd (writableManifestsBase sample_full_env ''/opt/manifests'' sample_tree))"
  proof (rule failed_copy_is_kept)
    show "writableManifestsBase sample_full_env ''/opt/manifests'' sample_tree
        = (Inl e, snd (writableManifestsBase sample_full_env ''/opt/manifests'' sample_tree))"
      using e by (metis prod.collapse)
    show "fst (os_MkdirAll sample_full_env (writable_dst sample_full_env) sample_tree) = None"
      by code_simp
    show "writable_dst sample_env = writable_dst sample_full_env" by code_simp
    show "\<not> env_fault sample_env FStat (writable_dst sample_full_env)" by simp
  qed
  show "fs_get (snd (writableManifestsBase sample_full_env ''/opt/manifests'' sample_tree))
       ''/tmp/ray-module-manifests/kuberay/params.env'' = Some (FFile [])"
    by code_simp
qed

end
