(* ===== verification/Overlay_Namespace.thy ===== *)
theory Overlay_Namespace
  imports Params
begin

text \<open>
  The kustomization rewrite of \<^verbatim>\<open>params.go\<close>: the regular expression
  \<^verbatim>\<open>(?m)^namespace:\s*\S+\<close>, \<^verbatim>\<open>Regexp.Match\<close> and \<^verbatim>\<open>Regexp.ReplaceAll\<close> with its
  template expansion, \<^verbatim>\<open>setOverlayNamespace\<close>, and the action
  \<^verbatim>\<open>applyImageParamsAction\<close> that runs the copy, the parameter rewrite and this one. The
  theorems: after the rewrite every namespace entry is the requested one and the rest of the text
  is as it was, a second rewrite changes nothing, what the expression does with an empty
  \<^verbatim>\<open>namespace:\<close> key, and that the action never writes to the image's own manifests.
\<close>

section \<open>The regular expression\<close>

text \<open>\<^verbatim>\<open>\s\<close> of package \<^verbatim>\<open>regexp\<close>: tab, newline, form feed, carriage return, space.\<close>

definition re_space :: "char \<Rightarrow> bool" where
  "re_space c = (c \<in> {CHR 0x09, CHR 0x0A, CHR 0x0C, CHR 0x0D, CHR 0x20})"

text \<open>
  A match at the front of a text that is at the start of a line: the match and the rest. The
  greedy \<^verbatim>\<open>\s*\<close> takes all white space, newlines included; \<^verbatim>\<open>\S+\<close> takes the bytes up to
  the next one and needs at least one.
\<close>

definition overlayNamespaceRe :: "string \<Rightarrow> (string \<times> string) option" where
  "overlayNamespaceRe s =
     (if prefix ''namespace:'' s then
        (let r = drop 10 s;
             sp = takeWhile re_space r;
             tok = takeWhile (\<lambda>c. \<not> re_space c) (dropWhile re_space r)
         in if tok = [] then None
            else Some (''namespace:'' @ sp @ tok, dropWhile (\<lambda>c. \<not> re_space c) (dropWhile re_space r)))
      else None)"

text \<open>
  The leftmost matches of a text from left to right, between the bytes that belong to none; the
  flag says whether the position is the start of a line. A match ends in a byte that is no newline.
\<close>

lemma overlayNamespaceRe_shorter:
  assumes "overlayNamespaceRe s = Some (m, rest)"
  shows "length rest < length s"
proof -
  from assms have p: "prefix ''namespace:'' s"
    and r: "rest = dropWhile (\<lambda>c. \<not> re_space c) (dropWhile re_space (drop 10 s))"
    by (auto simp: overlayNamespaceRe_def Let_def split: if_splits)
  from r have "length rest \<le> length (drop 10 s)"
    by (metis length_dropWhile_le order_trans)
  moreover have "10 \<le> length s" using prefix_length_le [OF p] by simp
  ultimately show ?thesis by simp
qed

function segments :: "bool \<Rightarrow> string \<Rightarrow> (char + string) list" where
  "segments bol [] = []"
| "segments bol (c # cs) =
     (case (if bol then overlayNamespaceRe (c # cs) else None) of
        Some (m, rest) \<Rightarrow> Inr m # segments False rest
      | None \<Rightarrow> Inl c # segments (c = NL) cs)"
  by pat_completeness auto
termination
  by (relation "measure (\<lambda>(b, s). length s)")
    (auto dest!: overlayNamespaceRe_shorter split: if_splits)

definition re_Match :: "string \<Rightarrow> bool" where
  "re_Match s = (\<exists>x \<in> set (segments True s). \<not> isl x)"

definition seg_text :: "(string \<Rightarrow> string) \<Rightarrow> char + string \<Rightarrow> string" where
  "seg_text f x = (case x of Inl c \<Rightarrow> [c] | Inr m \<Rightarrow> f m)"

definition replace_segs :: "(string \<Rightarrow> string) \<Rightarrow> (char + string) list \<Rightarrow> string" where
  "replace_segs f xs = concat (map (seg_text f) xs)"

section \<open>Template expansion\<close>

text \<open>
  \<^verbatim>\<open>Regexp.expand\<close>: the replacement is a template, in which a dollar sign starts a reference.
  The expression has no groups, so a reference is the whole match for number 0 and empty otherwise.
  Which bytes outside ASCII begin a letter or digit is the Unicode table of the standard library: a
  parameter, the length of that rune (0 for none).
\<close>

definition ascii_word :: "char \<Rightarrow> bool" where
  "ascii_word c =
     (let n = of_char c :: nat
      in (48 \<le> n \<and> n \<le> 57) \<or> (65 \<le> n \<and> n \<le> 90) \<or> (97 \<le> n \<and> n \<le> 122) \<or> n = 95)"

fun word_span :: "(string \<Rightarrow> nat) \<Rightarrow> nat \<Rightarrow> string \<Rightarrow> nat" where
  "word_span letter 0 s = 0"
| "word_span letter (Suc n) s =
     (case s of
        [] \<Rightarrow> 0
      | c # cs \<Rightarrow>
          (let k = (if ascii_word c then 1
                    else if 128 \<le> (of_char c :: nat) then min (letter s) (length s) else 0)
           in if k = 0 then 0 else k + word_span letter n (drop k s)))"

definition extract_name :: "(string \<Rightarrow> nat) \<Rightarrow> string \<Rightarrow> (string \<times> string) option" where
  "extract_name letter str =
     (if str = [] then None
      else let brace = (hd str = CHR 0x7B);
               s = (if brace then tl str else str);
               i = word_span letter (length s) s
           in if i = 0 then None
              else if brace then
                (if length s \<le> i \<or> s ! i \<noteq> CHR 0x7D then None else Some (take i s, drop (Suc i) s))
              else Some (take i s, drop i s))"

lemma extract_name_shorter: "extract_name letter s = Some (name, rest) \<Longrightarrow> length rest \<le> length s"
  by (auto simp: extract_name_def Let_def split: if_splits)

lemma cut_shorter: "cut c t = (b, a, True) \<Longrightarrow> length a < length t"
  using cut_found(1) [of c t b a] by simp

function expand :: "(string \<Rightarrow> nat) \<Rightarrow> string \<Rightarrow> string \<Rightarrow> string" where
  "expand letter m t =
     (case cut (CHR ''$'') t of (before, after, found) \<Rightarrow>
        if \<not> found then t
        else before @
          (if after \<noteq> [] \<and> hd after = CHR ''$'' then CHR ''$'' # expand letter m (tl after)
           else case extract_name letter after of
                  None \<Rightarrow> CHR ''$'' # expand letter m after
                | Some (name, rest) \<Rightarrow>
                    (if name = ''0'' then m else []) @ expand letter m rest))"
  by pat_completeness auto
termination
  by (relation "measure (\<lambda>(l, m, t). length t)")
    (auto dest!: sym [of "(_, _, True)"] cut_shorter extract_name_shorter)

declare expand.simps [simp del]

section \<open>setOverlayNamespace\<close>

definition overlay_text :: "(string \<Rightarrow> nat) \<Rightarrow> string \<Rightarrow> string \<Rightarrow> string" where
  "overlay_text letter ns d =
     (let replacement = ''namespace: '' @ ns
      in if re_Match d then replace_segs (\<lambda>m. expand letter m replacement) (segments True d)
         else (d @ [NL]) @ (replacement @ [NL]))"

text \<open>\<^verbatim>\<open>os.WriteFile\<close> truncates before it writes.\<close>

definition os_WriteFile :: "env \<Rightarrow> string \<Rightarrow> string \<Rightarrow> files \<Rightarrow> goerror option \<times> files" where
  "os_WriteFile env p c fs =
     (if env_fault env FCreate p then (Some (EIO ''open'' p), fs)
      else if env_fault env FWrite p
      then (Some (EIO ''write'' p), fs_put p (FFile (take (env_short env p) c)) fs)
      else (None, fs_put p (FFile c) fs))"

definition setOverlayNamespace ::
  "env \<Rightarrow> (string \<Rightarrow> nat) \<Rightarrow> string \<Rightarrow> string \<Rightarrow> files \<Rightarrow> goerror option \<times> files" where
  "setOverlayNamespace env letter overlayDir ns fs =
     (if ns = [] then (None, fs)
      else let path = path_join [overlayDir, ''kustomization.yaml'']
           in case os_ReadFile env path fs of
                Inl e \<Rightarrow> (if os_IsNotExist e then (None, fs) else (Some e, fs))
              | Inr data \<Rightarrow> os_WriteFile env path (overlay_text letter ns data) fs)"

section \<open>applyImageParamsAction\<close>

definition applyImageParamsAction :: "env \<Rightarrow> (string \<Rightarrow> nat) \<Rightarrow> string \<Rightarrow> 'w action" where
  "applyImageParamsAction env letter basePath r =
     (if removed r then (None, r)
      else case writableManifestsBase env basePath (rr_Files r) of
        (Inl e, fs) \<Rightarrow> (Some e, r\<lparr>rr_Files := fs\<rparr>)
      | (Inr writableBase, fs) \<Rightarrow>
          (let r1 = ext_put extKeyWritableManifests (EStr writableBase) (r\<lparr>rr_Files := fs\<rparr>);
               ns = apps_ns r1;
               componentPath = path_join [writableBase, ManifestPath, ManifestOverlay]
           in case applyParams env componentPath imageParamMap [[(''namespace'', ns)]] fs of
                (Some e, fs1) \<Rightarrow> (Some e, r1\<lparr>rr_Files := fs1\<rparr>)
              | (None, fs1) \<Rightarrow>
                  (case setOverlayNamespace env letter componentPath ns fs1 of
                     (e, fs2) \<Rightarrow> (e, r1\<lparr>rr_Files := fs2\<rparr>))))"

section \<open>Lemmas\<close>

text \<open>A namespace the expression reads back as one token, and no template reference.\<close>

definition ns_ok :: "string \<Rightarrow> bool" where
  "ns_ok ns = (ns \<noteq> [] \<and> list_all (\<lambda>c. \<not> re_space c) ns \<and> CHR ''$'' \<notin> set ns)"

definition entry :: "string \<Rightarrow> string" where
  "entry ns = ''namespace: '' @ ns"

definition relabel :: "string \<Rightarrow> char + string \<Rightarrow> char + string" where
  "relabel r x = (case x of Inl c \<Rightarrow> Inl c | Inr m \<Rightarrow> Inr r)"

lemma expand_plain: "CHR ''$'' \<notin> set t \<Longrightarrow> expand letter m t = t"
  by (subst expand.simps) (simp add: cut_def)

lemma expand_entry: "ns_ok ns \<Longrightarrow> expand letter m (''namespace: '' @ ns) = entry ns"
  by (simp add: expand_plain ns_ok_def entry_def)

lemma replace_segs_simps [simp]:
  "replace_segs f [] = []"
  "replace_segs f (Inl c # xs) = c # replace_segs f xs"
  "replace_segs f (Inr m # xs) = f m @ replace_segs f xs"
  by (simp_all add: replace_segs_def seg_text_def)

lemma relabel_simps [simp]: "relabel r (Inl c) = Inl c" "relabel r (Inr m) = Inr r"
  by (simp_all add: relabel_def)

lemma re_rest:
  assumes "overlayNamespaceRe s = Some (m, rest)"
  shows "s = m @ rest" and "rest = [] \<or> re_space (hd rest)"
proof -
  let ?r = "drop 10 s"
  from assms have p: "prefix ''namespace:'' s"
    and m: "m = ''namespace:'' @ takeWhile re_space ?r @ takeWhile (\<lambda>c. \<not> re_space c) (dropWhile re_space ?r)"
    and rest: "rest = dropWhile (\<lambda>c. \<not> re_space c) (dropWhile re_space ?r)"
    by (auto simp: overlayNamespaceRe_def Let_def split: if_splits)
  from p have "s = ''namespace:'' @ ?r" by (auto elim!: prefixE)
  then show "s = m @ rest" unfolding m rest by (metis append.assoc takeWhile_dropWhile_id)
  show "rest = [] \<or> re_space (hd rest)" unfolding rest using hd_dropWhile by blast
qed

lemma re_entry:
  assumes "ns_ok ns" and "X = [] \<or> re_space (hd X)"
  shows "overlayNamespaceRe (entry ns @ X) = Some (entry ns, X)"
proof -
  have ns: "ns \<noteq> []" using assms(1) by (simp add: ns_ok_def)
  have all: "\<forall>c \<in> set ns. \<not> re_space c" using assms(1) by (simp add: ns_ok_def list_all_iff)
  have d: "drop 10 (entry ns @ X) = CHR '' '' # ns @ X"
    and p: "prefix ''namespace:'' (entry ns @ X)" by (simp_all add: entry_def)
  have sp: "takeWhile re_space (CHR '' '' # ns @ X) = '' ''"
    and dsp: "dropWhile re_space (CHR '' '' # ns @ X) = ns @ X"
    using ns all by (cases ns; simp add: re_space_def)+
  have "takeWhile (\<lambda>c. \<not> re_space c) X = []" and "dropWhile (\<lambda>c. \<not> re_space c) X = X"
    using assms(2) by (cases X; simp)+
  then have tok: "takeWhile (\<lambda>c. \<not> re_space c) (ns @ X) = ns" "dropWhile (\<lambda>c. \<not> re_space c) (ns @ X) = X"
    using all by (simp_all add: takeWhile_append2 dropWhile_append2)
  have "overlayNamespaceRe (entry ns @ X) = Some (''namespace:'' @ '' '' @ ns, X)"
    using p ns by (simp only: overlayNamespaceRe_def Let_def d sp dsp tok if_True if_False)
  then show ?thesis by (simp add: entry_def)
qed

lemma prefix_first_line:
  "NL \<notin> set p \<Longrightarrow> prefix p s \<longleftrightarrow> prefix p (takeWhile (\<lambda>c. c \<noteq> NL) s)"
proof (induction p arbitrary: s)
  case (Cons x p)
  then show ?case by (cases s) auto
qed simp

lemma replace_first_line:
  "takeWhile (\<lambda>c. c \<noteq> NL) (replace_segs f (segments False s)) = takeWhile (\<lambda>c. c \<noteq> NL) s"
  by (induction s) auto

lemma re_no_key: "\<not> prefix ''namespace:'' s \<Longrightarrow> overlayNamespaceRe s = None"
  unfolding overlayNamespaceRe_def by (simp only: if_False)

lemma re_none_spaces:
  assumes "overlayNamespaceRe s = None" and "prefix ''namespace:'' s"
  shows "\<forall>c \<in> set (drop 10 s). re_space c"
proof -
  from assms have "takeWhile (\<lambda>c. \<not> re_space c) (dropWhile re_space (drop 10 s)) = []"
    by (auto simp: overlayNamespaceRe_def Let_def split: if_splits)
  moreover have "dropWhile re_space (drop 10 s) = [] \<or> \<not> re_space (hd (dropWhile re_space (drop 10 s)))"
    using hd_dropWhile by blast
  ultimately have "dropWhile re_space (drop 10 s) = []" by (metis hd_Cons_tl takeWhile.simps(2) list.simps(3))
  then show ?thesis by (simp add: dropWhile_eq_Nil_conv)
qed

lemma segments_spaces: "\<forall>c \<in> set s. re_space c \<Longrightarrow> segments b s = map Inl s"
proof (induction s arbitrary: b)
  case (Cons c s)
  then have "\<not> prefix ''namespace:'' (c # s)" by (auto simp: re_space_def)
  then have "overlayNamespaceRe (c # s) = None" by (rule re_no_key)
  with Cons show ?case by simp
qed simp

lemma replace_map_Inl [simp]: "replace_segs f (map Inl s) = s"
  by (induction s) auto

lemma key_one_line: "NL \<notin> set ''namespace:''"
  by simp

text \<open>A replacement makes no new match where there was none.\<close>

lemma re_none_kept:
  assumes "overlayNamespaceRe (c # cs) = None"
  shows "overlayNamespaceRe (c # replace_segs f (segments (c = NL) cs)) = None"
proof (cases "prefix ''namespace:'' (c # cs)")
  case True
  then have c: "c = CHR ''n''" and cs: "cs = ''amespace:'' @ drop 10 (c # cs)"
    by (auto elim!: prefixE)
  have "segments False (''amespace:'' @ drop 10 (c # cs)) = map Inl (''amespace:'' @ drop 10 (c # cs))"
    using segments_spaces [OF re_none_spaces [OF assms True]] by simp
  with cs have "segments False cs = map Inl cs" by simp
  with assms c show ?thesis by simp
next
  case False
  have "\<not> prefix ''namespace:'' (c # replace_segs f (segments (c = NL) cs))"
  proof (cases "c = NL")
    case False
    then have "takeWhile (\<lambda>x. x \<noteq> NL) (c # replace_segs f (segments (c = NL) cs))
        = takeWhile (\<lambda>x. x \<noteq> NL) (c # cs)"
      by (simp add: replace_first_line)
    then show ?thesis
      using \<open>\<not> prefix ''namespace:'' (c # cs)\<close> prefix_first_line [of "''namespace:''" "c # cs"]
        prefix_first_line [of "''namespace:''" "c # replace_segs f (segments (c = NL) cs)"]
      by (simp only: key_one_line simp_thms)
  qed simp
  then show ?thesis by (rule re_no_key)
qed

lemma segments_replace:
  assumes "ns_ok ns"
  shows "segments b (replace_segs (\<lambda>m. entry ns) (segments b s)) = map (relabel (entry ns)) (segments b s)"
proof (induction b s rule: segments.induct)
  case (2 b c cs)
  show ?case
  proof (cases "if b then overlayNamespaceRe (c # cs) else None")
    case None
    then have "(if b then overlayNamespaceRe (c # replace_segs (\<lambda>m. entry ns) (segments (c = NL) cs)) else None) = None"
      using re_none_kept [of c cs] by (auto split: if_splits)
    with None 2(1) show ?thesis by simp
  next
    case (Some mr)
    obtain m rest where mr: "mr = (m, rest)" by (cases mr)
    with Some have b: b and m: "overlayNamespaceRe (c # cs) = Some (m, rest)" by (auto split: if_splits)
    let ?X = "replace_segs (\<lambda>m. entry ns) (segments False rest)"
    have "?X = [] \<or> re_space (hd ?X)"
      using re_rest(2) [OF m] by (cases rest) auto
    then have "overlayNamespaceRe (entry ns @ ?X) = Some (entry ns, ?X)"
      using assms by (intro re_entry)
    moreover obtain x xs where "entry ns @ ?X = x # xs" by (cases "entry ns @ ?X") (auto simp: entry_def)
    ultimately have "segments b (entry ns @ ?X) = Inr (entry ns) # segments False ?X"
      using b by simp
    moreover have "segments b (c # cs) = Inr m # segments False rest" using b m by simp
    moreover have "segments False ?X = map (relabel (entry ns)) (segments False rest)"
      using 2(2) Some mr by blast
    ultimately show ?thesis by (simp del: segments.simps)
  qed
qed simp

lemma overlay_text_match:
  "ns_ok ns \<Longrightarrow> re_Match d \<Longrightarrow> overlay_text letter ns d = replace_segs (\<lambda>m. entry ns) (segments True d)"
  unfolding overlay_text_def Let_def by (simp only: expand_entry if_True)

lemma overlay_text_append:
  "\<not> re_Match d \<Longrightarrow> overlay_text letter ns d = d @ NL # entry ns @ [NL]"
  unfolding overlay_text_def Let_def entry_def by simp

lemma re_Match_relabel: "(\<exists>x \<in> set (map (relabel r) xs). \<not> isl x) \<longleftrightarrow> (\<exists>x \<in> set xs. \<not> isl x)"
proof (induction xs)
  case (Cons x xs)
  then show ?case by (cases x) simp_all
qed simp

lemma replace_relabel: "replace_segs f (map (relabel r) xs) = replace_segs (\<lambda>m. f r) xs"
  by (induction xs) (auto simp: replace_segs_def seg_text_def relabel_def split: sum.splits)


subsection \<open>Texts without the key\<close>

text \<open>No line is a \<^verbatim>\<open>namespace:\<close> key, with or without a value.\<close>

definition no_key :: "string \<Rightarrow> bool" where
  "no_key d = list_all (\<lambda>l. \<not> prefix ''namespace:'' l) (split_on NL d)"

definition no_key_from :: "bool \<Rightarrow> string \<Rightarrow> bool" where
  "no_key_from bol d =
     list_all (\<lambda>l. \<not> prefix ''namespace:'' l) (if bol then split_on NL d else tl (split_on NL d))"

lemma split_on_hd: "hd (split_on c s) = takeWhile (\<lambda>x. x \<noteq> c) s \<and> split_on c s \<noteq> []"
  by (induction s) (auto split: list.splits)

lemma no_key_from_Cons:
  assumes "no_key_from b (c # cs)"
  shows "no_key_from (c = NL) cs"
    and "b \<Longrightarrow> takeWhile (\<lambda>x. x \<noteq> NL) s = takeWhile (\<lambda>x. x \<noteq> NL) (c # cs) \<Longrightarrow> overlayNamespaceRe s = None"
proof -
  show "no_key_from (c = NL) cs"
    using assms by (cases "split_on NL cs") (auto simp: no_key_from_def split: if_splits)
next
  assume b and eq: "takeWhile (\<lambda>x. x \<noteq> NL) s = takeWhile (\<lambda>x. x \<noteq> NL) (c # cs)"
  have "hd (split_on NL (c # cs)) \<in> set (split_on NL (c # cs))"
    by (rule hd_in_set) (simp only: split_on_hd not_False_eq_True)
  then have "\<not> prefix ''namespace:'' (hd (split_on NL (c # cs)))"
    using assms \<open>b\<close> unfolding no_key_from_def list_all_iff by (simp only: if_True not_False_eq_True)
  then have "\<not> prefix ''namespace:'' (takeWhile (\<lambda>x. x \<noteq> NL) (c # cs))"
    by (simp only: split_on_hd not_False_eq_True)
  then show "overlayNamespaceRe s = None"
    using prefix_first_line [OF key_one_line, of s] unfolding eq by (intro re_no_key) blast
qed

lemma segments_no_key_from: "no_key_from b d \<Longrightarrow> segments b d = map Inl d"
proof (induction d arbitrary: b)
  case (Cons c d)
  have "(if b then overlayNamespaceRe (c # d) else None) = None"
    using no_key_from_Cons(2) [OF Cons.prems] by auto
  with Cons.IH [OF no_key_from_Cons(1) [OF Cons.prems]] show ?case by simp
qed simp

lemma takeWhile_line: "takeWhile (\<lambda>x. x \<noteq> NL) (d @ NL # X) = takeWhile (\<lambda>x. x \<noteq> NL) d"
  by (induction d) auto

lemma segments_append_line:
  "no_key_from b d \<Longrightarrow> segments b (d @ NL # X) = map Inl (d @ [NL]) @ segments True X"
proof (induction d arbitrary: b)
  case Nil
  have "overlayNamespaceRe (NL # X) = None" by (rule re_no_key) simp
  then show ?case by simp
next
  case (Cons c d)
  have "(if b then overlayNamespaceRe (c # d @ NL # X) else None) = None"
    using no_key_from_Cons(2) [OF Cons.prems, of "c # d @ NL # X"] takeWhile_line [of "c # d" X] by auto
  with Cons.IH [OF no_key_from_Cons(1) [OF Cons.prems]] show ?case by simp
qed

lemma no_key_start: "no_key d = no_key_from True d"
  by (simp add: no_key_def no_key_from_def)

lemma no_key_no_match: "no_key d \<Longrightarrow> \<not> re_Match d"
  by (auto simp: no_key_start re_Match_def segments_no_key_from)

lemma segments_entry:
  assumes "ns_ok ns"
  shows "segments True (entry ns @ [NL]) = [Inr (entry ns), Inl NL]"
proof -
  have "overlayNamespaceRe (entry ns @ [NL]) = Some (entry ns, [NL])"
    using assms by (intro re_entry) (auto simp: re_space_def)
  moreover obtain x xs where "entry ns @ [NL] = x # xs" by (cases "entry ns @ [NL]") auto
  ultimately show ?thesis by simp
qed

text \<open>What the rewrite leaves, as matches and the bytes between them.\<close>

lemma overlay_segments:
  assumes "ns_ok ns" and "re_Match d \<or> no_key d"
  shows "segments True (overlay_text letter ns d) =
           (if re_Match d then map (relabel (entry ns)) (segments True d)
            else map Inl (d @ [NL]) @ [Inr (entry ns), Inl NL])"
proof (cases "re_Match d")
  case True
  then show ?thesis using segments_replace [OF assms(1)] by (simp add: overlay_text_match assms(1))
next
  case False
  with assms have "no_key_from True d" by (simp add: no_key_start)
  then show ?thesis
    using False by (simp add: overlay_text_append segments_append_line segments_entry assms(1))
qed

lemma overlay_text_again:
  assumes "ns_ok ns" and "re_Match d \<or> no_key d"
  shows "re_Match (overlay_text letter ns d)"
    and "overlay_text letter ns (overlay_text letter ns d) = overlay_text letter ns d"
proof -
  show m: "re_Match (overlay_text letter ns d)"
  proof (cases "re_Match d")
    case True
    then have "segments True (overlay_text letter ns d) = map (relabel (entry ns)) (segments True d)"
      using overlay_segments [OF assms] by simp
    with True show ?thesis unfolding re_Match_def by (simp only: re_Match_relabel)
  qed (simp add: re_Match_def overlay_segments [OF assms] del: map_append)
  have "replace_segs (\<lambda>m. entry ns) (map Inl d @ xs) = d @ replace_segs (\<lambda>m. entry ns) xs" for xs
    by (induction d) simp_all
  with assms show "overlay_text letter ns (overlay_text letter ns d) = overlay_text letter ns d"
    by (auto simp: overlay_text_match m overlay_segments replace_relabel overlay_text_append)
qed

subsection \<open>The rewrite by lines\<close>

text \<open>
  What the rewrite is meant to do, without the expression: a line that begins with the key gets the
  entry in place of the key and its first word, other lines stay. \<open>has_value\<close>: the key is followed by a
  word on its own line.
\<close>

definition keyed :: "string \<Rightarrow> bool" where
  "keyed l = prefix ''namespace:'' l"

definition has_value :: "string \<Rightarrow> bool" where
  "has_value l = (\<exists>c \<in> set (drop 10 l). \<not> re_space c)"

definition after_value :: "string \<Rightarrow> string" where
  "after_value l = dropWhile (\<lambda>c. \<not> re_space c) (dropWhile re_space (drop 10 l))"

definition rewrite_line :: "string \<Rightarrow> string \<Rightarrow> string" where
  "rewrite_line ns l = (if keyed l then ''namespace: '' @ ns @ after_value l else l)"

lemma after_value_line: "NL \<notin> set l \<Longrightarrow> NL \<notin> set (after_value l)"
  unfolding after_value_def by (auto dest!: set_dropWhileD in_set_dropD)

lemma re_line:
  assumes "keyed l" and "has_value l" and "X = [] \<or> hd X = NL"
  shows "\<exists>m. overlayNamespaceRe (l @ X) = Some (m, after_value l @ X)"
proof -
  obtain v where l: "l = ''namespace:'' @ v" using assms(1) by (auto simp: keyed_def elim: prefixE)
  have v: "drop 10 l = v" and d: "drop 10 (l @ X) = v @ X" and p: "prefix ''namespace:'' (l @ X)"
    by (simp_all add: l)
  have "\<exists>c \<in> set v. \<not> re_space c" using assms(2) v by (simp add: has_value_def)
  then have sp: "dropWhile re_space (v @ X) = dropWhile re_space v @ X" and ne: "dropWhile re_space v \<noteq> []"
    by (auto simp: dropWhile_append dropWhile_eq_Nil_conv)
  have x: "dropWhile (\<lambda>c. \<not> re_space c) (w @ X) = dropWhile (\<lambda>c. \<not> re_space c) w @ X" for w
    using assms(3) by (cases X) (auto simp: dropWhile_append re_space_def)
  have "takeWhile (\<lambda>c. \<not> re_space c) (dropWhile re_space v @ X) \<noteq> []"
    using ne hd_dropWhile [of re_space v] by (cases "dropWhile re_space v") auto
  then have "overlayNamespaceRe (l @ X)
      = Some (''namespace:'' @ takeWhile re_space (v @ X) @ takeWhile (\<lambda>c. \<not> re_space c) (dropWhile re_space v @ X),
          after_value l @ X)"
    using p unfolding overlayNamespaceRe_def Let_def d sp x after_value_def v by (simp only: if_True if_False)
  then show ?thesis by blast
qed

lemma plain_tail: "NL \<notin> set l \<Longrightarrow> no_key_from False l"
  by (simp add: no_key_from_def split_on_no_sep)

lemma plain_line: "NL \<notin> set l \<Longrightarrow> \<not> keyed l \<Longrightarrow> no_key_from True l"
  by (simp add: no_key_from_def split_on_no_sep keyed_def)

lemma replace_append [simp]: "replace_segs f (xs @ ys) = replace_segs f xs @ replace_segs f ys"
  by (simp add: replace_segs_def)

lemma rewrite_one:
  assumes "NL \<notin> set l" and "keyed l \<longrightarrow> has_value l"
  shows "replace_segs (\<lambda>m. entry ns) (segments True l) = rewrite_line ns l"
    and "replace_segs (\<lambda>m. entry ns) (segments True (l @ NL # X))
      = rewrite_line ns l @ NL # replace_segs (\<lambda>m. entry ns) (segments True X)"
    and "keyed l \<Longrightarrow> \<exists>x \<in> set (segments True l). \<not> isl x" "keyed l \<Longrightarrow> \<exists>x \<in> set (segments True (l @ NL # X)). \<not> isl x"
proof -
  have *: "\<exists>m. segments True (l @ Y) = Inr m # segments False (after_value l @ Y)" if k: "keyed l" and y: "Y = [] \<or> hd Y = NL" for Y
  proof -
    obtain m where m: "overlayNamespaceRe (l @ Y) = Some (m, after_value l @ Y)"
      using re_line [OF k _ y] assms(2) k by blast
    moreover obtain c cs where "l @ Y = c # cs" using k by (cases l) (auto simp: keyed_def)
    ultimately show ?thesis by simp
  qed
  have t: "NL \<notin> set (after_value l)" by (rule after_value_line [OF assms(1)])
  show "replace_segs (\<lambda>m. entry ns) (segments True l) = rewrite_line ns l"
  proof (cases "keyed l")
    case True
    with * [of "[]"] segments_no_key_from [OF plain_tail [OF t]] show ?thesis
      by (auto simp: rewrite_line_def entry_def)
  next
    case False
    with segments_no_key_from [OF plain_line [OF assms(1) False]] show ?thesis by (simp add: rewrite_line_def)
  qed
  show "replace_segs (\<lambda>m. entry ns) (segments True (l @ NL # X))
      = rewrite_line ns l @ NL # replace_segs (\<lambda>m. entry ns) (segments True X)"
  proof (cases "keyed l")
    case True
    with * [of "NL # X"] segments_append_line [OF plain_tail [OF t]] show ?thesis
      by (auto simp: rewrite_line_def entry_def)
  next
    case False
    with segments_append_line [OF plain_line [OF assms(1) False]] show ?thesis by (simp add: rewrite_line_def)
  qed
  show "keyed l \<Longrightarrow> \<exists>x \<in> set (segments True l). \<not> isl x" using * [of "[]"] by auto
  show "keyed l \<Longrightarrow> \<exists>x \<in> set (segments True (l @ NL # X)). \<not> isl x" using * [of "NL # X"] by auto
qed

lemma rewrite_lines:
  assumes "ls \<noteq> []" and "\<forall>l \<in> set ls. NL \<notin> set l \<and> (keyed l \<longrightarrow> has_value l)"
  shows "replace_segs (\<lambda>m. entry ns) (segments True (join_with NL ls)) = join_with NL (map (rewrite_line ns) ls)"
  using assms
proof (induction ls rule: induct_list012)
  case (2 l)
  then show ?case using rewrite_one(1) [of l] by simp
next
  case (3 l l' ls)
  then show ?case using rewrite_one(2) [of l ns "join_with NL (l' # ls)"] by simp
qed simp

lemma keyed_match:
  assumes "ls \<noteq> []" and "\<forall>l \<in> set ls. NL \<notin> set l \<and> (keyed l \<longrightarrow> has_value l)" and "\<exists>l \<in> set ls. keyed l"
  shows "re_Match (join_with NL ls)"
  using assms
proof (induction ls rule: induct_list012)
  case (2 l)
  then show ?case using rewrite_one(3) [of l] by (simp add: re_Match_def)
next
  case (3 l l' ls)
  show ?case
  proof (cases "keyed l")
    case True
    then show ?thesis using rewrite_one(4) [of l "join_with NL (l' # ls)"] 3 by (simp add: re_Match_def)
  next
    case False
    have "segments True (l @ NL # join_with NL (l' # ls)) = map Inl (l @ [NL]) @ segments True (join_with NL (l' # ls))"
      using 3 False by (intro segments_append_line plain_line) simp_all
    with 3 False show ?thesis by (auto simp: re_Match_def)
  qed
qed simp

subsection \<open>The action's files\<close>

definition kustomization_path :: "string \<Rightarrow> string" where
  "kustomization_path dir = path_join [dir, ''kustomization.yaml'']"

lemma setOverlay_other:
  "q \<noteq> kustomization_path dir \<Longrightarrow>
     fs_get (snd (setOverlayNamespace env letter dir ns fs)) q = fs_get fs q"
  by (auto simp: setOverlayNamespace_def kustomization_path_def os_WriteFile_def Let_def split: sum.splits)

lemma setOverlay_file:
  assumes "no_faults env" and "ns_ok ns" and "fs_get fs (kustomization_path dir) = Some (FFile d)"
  shows "setOverlayNamespace env letter dir ns fs =
           (None, fs_put (kustomization_path dir) (FFile (overlay_text letter ns d)) fs)"
  using assms
  by (auto simp: setOverlayNamespace_def kustomization_path_def [symmetric] os_WriteFile_def os_ReadFile_def ns_ok_def Let_def)

lemma fs_put_same: "fs_get fs p = Some n \<Longrightarrow> fs_put p n fs = fs"
  by (induction fs) (auto simp: fs_get_def fs_put_def split: if_splits)

definition overlay_dir :: "env \<Rightarrow> string" where
  "overlay_dir env = path_join [writable_dst env, ManifestPath, ManifestOverlay]"

lemma overlay_dir_sub: "overlay_dir env = subpath (writable_dst env) [ManifestPath, ManifestOverlay]"
proof -
  have "os_TempDir env \<noteq> []" by (simp add: os_TempDir_def)
  then show ?thesis
    unfolding overlay_dir_def writable_dst_def
    by (intro path_join_below) (simp_all add: simple_comp_def constants_defs)
qed

lemma overlay_file_sub:
  assumes "simple_comp f"
  shows "path_join [overlay_dir env, f] = subpath (overlay_dir env) [f]"
  unfolding overlay_dir_def
  by (rule path_join_below) (use assms in \<open>simp_all add: writable_dst_nonempty simple_comp_def constants_defs\<close>)

lemma below_copy_region: "copy_region d (d @ SLASH # x)"
  by (simp add: copy_region_def)

lemma overlay_file_region: "copy_region (writable_dst env) (subpath (overlay_dir env) [f])"
  unfolding overlay_dir_sub subpath_def by (simp add: below_copy_region)

lemma overlay_written_region:
  "copy_region (writable_dst env) (params_path (overlay_dir env))"
  "copy_region (writable_dst env) (kustomization_path (overlay_dir env))"
  "copy_region (writable_dst env) (temp_name env (overlay_dir env) fs)"
proof -
  show "copy_region (writable_dst env) (params_path (overlay_dir env))"
    and "copy_region (writable_dst env) (kustomization_path (overlay_dir env))"
    unfolding params_path_def kustomization_path_def
    by (subst overlay_file_sub; simp add: simple_comp_def overlay_file_region)+
  show "copy_region (writable_dst env) (temp_name env (overlay_dir env) fs)"
    using overlay_file_region [of env "''params.env-'' @ env_rand env (free_try env (overlay_dir env) fs 0 9999)"]
    by (simp add: temp_name_def temp_try_def subpath_def)
qed

lemma applyParams_other:
  assumes "q \<noteq> params_path dir" and "q \<noteq> temp_name env dir fs"
  shows "fs_get (snd (applyParams env dir im es fs)) q = fs_get fs q"
proof -
  obtain e fs' where a: "applyParams env dir im es fs = (e, fs')" by (cases "applyParams env dir im es fs")
  then show ?thesis
    by (cases rule: applyParams_cases) (use assms a write_params_other in auto)
qed

lemma writable_Inr: "fst (writableManifestsBase env base fs) = Inr b \<Longrightarrow> b = writable_dst env"
  by (auto simp: writableManifestsBase_def Let_def split: if_splits prod.splits option.splits)

text \<open>The request an unfinished or finished run of the action leaves.\<close>

lemma applyImageParams_cases:
  obtains
    (skipped) "removed r" and "applyImageParamsAction env letter base r = (None, r)"
  | (copy) e where "applyImageParamsAction env letter base r
        = (Some e, r\<lparr>rr_Files := snd (writableManifestsBase env base (rr_Files r))\<rparr>)"
  | (rest) e fs1 e2 where
      "applyImageParamsAction env letter base r
         = (e, (ext_put extKeyWritableManifests (EStr (writable_dst env)) r)\<lparr>rr_Files := snd fs1\<rparr>)"
      and "fs1 = (let s = applyParams env (overlay_dir env) imageParamMap [[(''namespace'', apps_ns r)]]
                            (snd (writableManifestsBase env base (rr_Files r)))
                  in if fst s = None then setOverlayNamespace env letter (overlay_dir env) (apps_ns r) (snd s)
                     else s)"
      and "e = fst fs1"
proof (cases "removed r")
  case True
  then show ?thesis by (intro skipped) (simp_all add: applyImageParamsAction_def)
next
  case False
  note act = applyImageParamsAction_def overlay_dir_def Let_def
  obtain res fs where w: "writableManifestsBase env base (rr_Files r) = (res, fs)"
    by (cases "writableManifestsBase env base (rr_Files r)")
  show ?thesis
  proof (cases res)
    case (Inl e)
    then show ?thesis using False w by (intro copy) (simp add: act)
  next
    case (Inr b)
    then have b: "b = writable_dst env" using writable_Inr [of env base "rr_Files r" b] w by simp
    show ?thesis
      by (rule rest [OF _ refl refl])
        (use False w Inr b in \<open>auto simp: act ext_put_def split: prod.splits option.splits\<close>)
  qed
qed

lemma applyImageParams_instance: "rr_Instance (snd (applyImageParamsAction env letter base r)) = rr_Instance r"
  by (cases rule: applyImageParams_cases [of r env letter base]) simp_all

interpretation image_params: gated_action "applyImageParamsAction env letter base" for env letter base
  by unfold_locales (simp_all add: applyImageParams_instance, simp add: applyImageParamsAction_def)

section \<open>Properties\<close>

text \<open>
  C26. The namespace rewrite, line by line. In a text whose \<^verbatim>\<open>namespace:\<close> keys all have their
  value on the same line, every line that begins with the key gets \<^verbatim>\<open>namespace: <ns>\<close> in place of
  key and value and keeps what follows them, and all other lines stay as they are; a text without the key
  is kept with one entry appended as a line of its own. Only the kustomization file is written.
\<close>

theorem setOverlayNamespace_correct:
  assumes "no_faults env" and "ns_ok ns" and "fs_get fs (kustomization_path dir) = Some (FFile d)"
    and "\<forall>l \<in> set (split_on NL d). prefix ''namespace:'' l \<longrightarrow> (\<exists>c \<in> set (drop 10 l). \<not> re_space c)"
  shows "setOverlayNamespace env letter dir ns fs =
    (None, fs_put (kustomization_path dir)
       (FFile (if \<exists>l \<in> set (split_on NL d). prefix ''namespace:'' l
               then join_with NL (map (\<lambda>l.
                      if prefix ''namespace:'' l
                      then ''namespace: '' @ ns @ dropWhile (\<lambda>c. \<not> re_space c) (dropWhile re_space (drop 10 l))
                      else l) (split_on NL d))
               else d @ [NL] @ ''namespace: '' @ ns @ [NL])) fs)"
proof -
  have ls: "split_on NL d \<noteq> []" "\<forall>l \<in> set (split_on NL d). NL \<notin> set l \<and> (keyed l \<longrightarrow> has_value l)"
    using assms(4) split_on_elem by (auto simp: keyed_def has_value_def)
  have spec: "rewrite_line ns = (\<lambda>l. if prefix ''namespace:'' l
      then ''namespace: '' @ ns @ dropWhile (\<lambda>c. \<not> re_space c) (dropWhile re_space (drop 10 l)) else l)"
    by (simp add: rewrite_line_def keyed_def after_value_def fun_eq_iff)
  have "overlay_text letter ns d = (if \<exists>l \<in> set (split_on NL d). prefix ''namespace:'' l
      then join_with NL (map (rewrite_line ns) (split_on NL d)) else d @ [NL] @ ''namespace: '' @ ns @ [NL])"
  proof (cases "\<exists>l \<in> set (split_on NL d). keyed l")
    case True
    with overlay_text_match [OF assms(2)] keyed_match [OF ls True] rewrite_lines [OF ls, of ns] show ?thesis
      by (simp add: keyed_def)
  next
    case False
    then have "no_key d" by (simp add: no_key_def list_all_iff keyed_def)
    with overlay_text_append [OF no_key_no_match] False show ?thesis by (simp add: entry_def keyed_def)
  qed
  then show ?thesis using setOverlay_file [OF assms(1-3), of letter] by (simp only: spec)
qed

text \<open>
  The rewrite is idempotent: what the first reconcile wrote, the next ones leave as it is.
\<close>

theorem setOverlayNamespace_idempotent:
  assumes "no_faults env" and "ns_ok ns" and "fs_get fs (kustomization_path dir) = Some (FFile d)"
    and "re_Match d \<or> no_key d" and "setOverlayNamespace env letter dir ns fs = (e, fs')"
  shows "e = None \<and> setOverlayNamespace env letter dir ns fs' = (None, fs')"
proof -
  have fs': "e = None" "fs' = fs_put (kustomization_path dir) (FFile (overlay_text letter ns d)) fs"
    using setOverlay_file [OF assms(1-3), of letter] assms(5) by simp_all
  have "setOverlayNamespace env letter dir ns fs'
      = (None, fs_put (kustomization_path dir) (FFile (overlay_text letter ns (overlay_text letter ns d))) fs')"
    using assms(1,2) by (rule setOverlay_file) (simp add: fs')
  then show ?thesis
    using overlay_text_again(2) [OF assms(2,4)] by (simp add: fs' fs_put_same)
qed

text \<open>
  C40. An empty \<^verbatim>\<open>namespace:\<close> key costs the file the line below it: \<^verbatim>\<open>\s*\<close> runs over the
  line break, so the first token of the next line is taken for the value and replaced with it.
\<close>

theorem overlay_swallows_next_key:
  assumes "ns_ok ns" and "tok \<noteq> []" and "list_all (\<lambda>c. \<not> re_space c) tok" and "no_key rest"
  shows "overlay_text letter ns (''namespace:'' @ [NL] @ tok @ [NL] @ rest) = entry ns @ [NL] @ rest"
proof -
  let ?d = "''namespace:'' @ [NL] @ tok @ [NL] @ rest"
  have nl: "re_space NL" by (simp add: re_space_def)
  have sp: "takeWhile re_space ([NL] @ tok @ [NL] @ rest) = [NL]"
    and dsp: "dropWhile re_space ([NL] @ tok @ [NL] @ rest) = tok @ [NL] @ rest"
    using assms(2,3) nl by (cases tok; simp)+
  have tok: "takeWhile (\<lambda>c. \<not> re_space c) (tok @ [NL] @ rest) = tok"
    "dropWhile (\<lambda>c. \<not> re_space c) (tok @ [NL] @ rest) = [NL] @ rest"
    using assms(3) nl by (simp_all add: takeWhile_append2 dropWhile_append2 list_all_iff)
  have d: "drop 10 ?d = [NL] @ tok @ [NL] @ rest" and p: "prefix ''namespace:'' ?d" by simp_all
  have "overlayNamespaceRe ?d = Some (''namespace:'' @ [NL] @ tok, [NL] @ rest)"
    using p assms(2) by (simp only: overlayNamespaceRe_def Let_def d sp dsp tok if_True if_False)
  moreover obtain x xs where "?d = x # xs" by (cases ?d) auto
  ultimately have "segments True ?d = Inr (''namespace:'' @ [NL] @ tok) # segments False ([NL] @ rest)"
    by (simp del: append_Cons)
  moreover have "segments False ([NL] @ rest) = map Inl ([NL] @ rest)"
    using assms(4) by (simp add: no_key_start segments_no_key_from)
  ultimately have s: "segments True ?d = Inr (''namespace:'' @ [NL] @ tok) # map Inl ([NL] @ rest)"
    by simp
  then have "re_Match ?d" unfolding re_Match_def by simp
  from overlay_text_match [OF assms(1) this, of letter] show ?thesis unfolding s by simp
qed

text \<open>
  C27. The action writes to its own copy only: whatever file operations fail, every path outside
  the writable directory (and the directories above it) is as it was, the image's manifests among
  them, and the custom resource is untouched.
\<close>

theorem applyImageParamsAction_frame:
  assumes "\<not> prefix (q @ [SLASH]) (writable_dst env @ [SLASH])"
    and "\<not> prefix (writable_dst env @ [SLASH]) q"
    and "applyImageParamsAction env letter base r = (e, r')"
  shows "fs_get (rr_Files r') q = fs_get (rr_Files r) q \<and> rr_Instance r' = rr_Instance r
         \<and> rr_Resources r' = rr_Resources r \<and> rr_Cluster r' = rr_Cluster r"
proof -
  have out: "\<not> copy_region (writable_dst env) q" using assms(1,2) by (simp add: copy_region_def)
  then have q: "q \<noteq> params_path (overlay_dir env)" "q \<noteq> kustomization_path (overlay_dir env)"
    "q \<noteq> temp_name env (overlay_dir env) fs" for fs
    using overlay_written_region by blast+
  note frame = writable_other [OF out] applyParams_other [OF q(1,3)] setOverlay_other [OF q(2)]
  show ?thesis
    by (cases rule: applyImageParams_cases [of r env letter base])
      (use assms(3) frame in \<open>auto simp: Let_def split: if_splits\<close>)
qed

section \<open>Witnesses\<close>

definition sample_kustomization :: string where
  "sample_kustomization =
     ''resources:'' @ [NL] @ ''- ../default'' @ [NL] @ ''namespace: old'' @ [NL] @ ''labels: []'' @ [NL]"

definition sample_overlay :: files where
  "sample_overlay =
     [(''/w/kustomization.yaml'', FFile sample_kustomization),
      (''/plain/kustomization.yaml'', FFile ''resources: []'')]"

lemma sample_overlay_facts:
  "fs_get sample_overlay (kustomization_path ''/w'') = Some (FFile sample_kustomization)"
  "fs_get sample_overlay (kustomization_path ''/plain'') = Some (FFile ''resources: []'')"
  "re_Match sample_kustomization" "no_key ''resources: []''" "ns_ok ''odh''"
  by code_simp+

lemma sample_overlay_lines:
  "split_on NL sample_kustomization = [''resources:'', ''- ../default'', ''namespace: old'', ''labels: []'', []]"
  "split_on NL ''resources: []'' = [''resources: []'']"
  by code_simp+

theorem setOverlayNamespace_correct_witness:
  "setOverlayNamespace sample_env (\<lambda>s. 0) ''/w'' ''odh'' sample_overlay
     = (None, fs_put (kustomization_path ''/w'') (FFile
         (''resources:'' @ [NL] @ ''- ../default'' @ [NL] @ ''namespace: odh'' @ [NL] @ ''labels: []'' @ [NL])) sample_overlay)
   \<and> setOverlayNamespace sample_env (\<lambda>s. 0) ''/plain'' ''odh'' sample_overlay
     = (None, fs_put (kustomization_path ''/plain'') (FFile (''resources: []'' @ [NL] @ ''namespace: odh'' @ [NL])) sample_overlay)"
proof -
  have v: "\<forall>l \<in> set (split_on NL sample_kustomization). prefix ''namespace:'' l \<longrightarrow> (\<exists>c \<in> set (drop 10 l). \<not> re_space c)"
    "\<forall>l \<in> set (split_on NL ''resources: []''). prefix ''namespace:'' l \<longrightarrow> (\<exists>c \<in> set (drop 10 l). \<not> re_space c)"
    unfolding sample_overlay_lines by (simp_all add: re_space_def)
  show ?thesis
    using setOverlayNamespace_correct [OF sample_env_facts(1) sample_overlay_facts(5,1) v(1), of "\<lambda>s. 0"]
      setOverlayNamespace_correct [OF sample_env_facts(1) sample_overlay_facts(5,2) v(2), of "\<lambda>s. 0"]
    unfolding sample_overlay_lines by (simp add: re_space_def)
qed

theorem setOverlayNamespace_idempotent_witness:
  "setOverlayNamespace sample_env (\<lambda>s. 0) ''/w'' ''odh''
     (snd (setOverlayNamespace sample_env (\<lambda>s. 0) ''/w'' ''odh'' sample_overlay))
   = (None, snd (setOverlayNamespace sample_env (\<lambda>s. 0) ''/w'' ''odh'' sample_overlay))"
  using setOverlayNamespace_idempotent [OF sample_env_facts(1) sample_overlay_facts(5,1)
      disjI1 [OF sample_overlay_facts(3)] prod.collapse [symmetric], of "\<lambda>s. 0"]
  by blast

theorem overlay_swallows_next_key_witness:
  "overlay_text (\<lambda>s. 0) ''odh'' (''namespace:'' @ [NL] @ ''resources:'' @ [NL] @ ''- ../default'')
   = ''namespace: odh'' @ [NL] @ ''- ../default''"
proof -
  have "no_key ''- ../default''" "list_all (\<lambda>c. \<not> re_space c) ''resources:''" by code_simp+
  with overlay_swallows_next_key [OF sample_overlay_facts(5) _ this(2,1), of "\<lambda>s. 0"]
  show ?thesis by (simp add: entry_def)
qed

theorem applyImageParamsAction_frame_witness:
  "fs_get (rr_Files (snd (applyImageParamsAction sample_full_env (\<lambda>s. 0) ''/opt/manifests'' (sample_rr sample_tree ()))))
     ''/opt/manifests/kuberay/params.env'' = Some (FFile sample_text)
   \<and> fs_get (rr_Files (snd (applyImageParamsAction sample_full_env (\<lambda>s. 0) ''/opt/manifests'' (sample_rr sample_tree ()))))
     ''/tmp/ray-module-manifests/kuberay/params.env'' = Some (FFile [])"
proof
  have p: "\<not> prefix (''/opt/manifests/kuberay/params.env'' @ [SLASH]) (writable_dst sample_full_env @ [SLASH])"
    "\<not> prefix (writable_dst sample_full_env @ [SLASH]) ''/opt/manifests/kuberay/params.env''"
    by code_simp+
  have "fs_get (rr_Files (sample_rr sample_tree ())) ''/opt/manifests/kuberay/params.env'' = Some (FFile sample_text)"
    by code_simp
  then show "fs_get (rr_Files (snd (applyImageParamsAction sample_full_env (\<lambda>s. 0) ''/opt/manifests'' (sample_rr sample_tree ()))))
     ''/opt/manifests/kuberay/params.env'' = Some (FFile sample_text)"
    using applyImageParamsAction_frame [OF p prod.collapse [symmetric], of "\<lambda>s. 0" "''/opt/manifests''" "sample_rr sample_tree ()"]
    by simp
  show "fs_get (rr_Files (snd (applyImageParamsAction sample_full_env (\<lambda>s. 0) ''/opt/manifests'' (sample_rr sample_tree ()))))
     ''/tmp/ray-module-manifests/kuberay/params.env'' = Some (FFile [])"
    by code_simp
qed

end
