(* ===== verification/Releases.thy ===== *)
theory Releases
  imports Params
begin

text \<open>
  \<^verbatim>\<open>releases.go\<close>: the KubeRay version reported under \<^verbatim>\<open>status.releases\<close>, read off the
  tag of the operand image. The image comes from the \<^verbatim>\<open>RELATED_IMAGE_*\<close> variable or from the
  vendored \<^verbatim>\<open>params.env\<close>. Image references are specified by a small grammar
  (\<open>image_ref\<close>: a name, an optional tag, an optional digest), against which the extraction by
  string indices is proved. \<^verbatim>\<open>platformReleaseAction\<close> of the same source file is in
  \<open>Status_Actions\<close>, beside the ConfigMap it reads.
\<close>

section \<open>The version of an image\<close>

text \<open>Indices are Go ints: \<open>-1\<close> when the separator is absent.\<close>

definition kubeRayVersionFromImage :: "string \<Rightarrow> string" where
  "kubeRayVersionFromImage image0 =
     (let image1 = trimSpace image0
      in if image1 = [] then []
         else let digest = last_index (CHR ''@'') image1;
                  image = (if 0 \<le> digest then take (nat digest) image1 else image1);
                  slash = last_index SLASH image;
                  colon = last_index (CHR '':'') image
              in if slash < colon then drop (nat (colon + 1)) image else [])"

section \<open>Where the image comes from\<close>

definition defaultKubeRayImage :: "env \<Rightarrow> string \<Rightarrow> files \<Rightarrow> string" where
  "defaultKubeRayImage env basePath fs =
     (if basePath = [] then []
      else case parseParams env (path_join [basePath, ManifestPath, ManifestOverlay, ''params.env'']) fs of
             Inl e \<Rightarrow> []
           | Inr params \<Rightarrow> gomap_get params KubeRayImageParam)"

definition resolveKubeRayImage :: "env \<Rightarrow> string \<Rightarrow> files \<Rightarrow> string" where
  "resolveKubeRayImage env basePath fs =
     (let envName = gomap_get imageParamMap KubeRayImageParam;
          related = env_getenv env envName
      in if envName \<noteq> [] \<and> related \<noteq> [] then related
         else if basePath = [] then []
         else case parseParams env (path_join [basePath, ManifestPath, ManifestOverlay, ''params.env'']) fs of
                Inl e \<Rightarrow> []
              | Inr params \<Rightarrow> gomap_get params KubeRayImageParam)"

definition resolveKubeRayVersion :: "env \<Rightarrow> string \<Rightarrow> files \<Rightarrow> string" where
  "resolveKubeRayVersion env basePath fs =
     (let v = kubeRayVersionFromImage (resolveKubeRayImage env basePath fs)
      in if v \<noteq> [] then v else kubeRayVersionFromImage (defaultKubeRayImage env basePath fs))"

definition desiredModuleReleases :: "string \<Rightarrow> component_release list" where
  "desiredModuleReleases kubeRayVersion =
     (if kubeRayVersion = [] then []
      else [\<lparr>rel_Name = KubeRayReleaseName, rel_Version = kubeRayVersion, rel_RepoURL = KubeRayRepoURL\<rparr>])"

definition releasesAction :: "env \<Rightarrow> string \<Rightarrow> 'w action" where
  "releasesAction env basePath r =
     (None, r\<lparr>rr_Instance :=
        SetReleaseStatus (desiredModuleReleases (resolveKubeRayVersion env basePath (rr_Files r)))
          (rr_Instance r)\<rparr>)"

section \<open>Image references\<close>

definition opt_suffix :: "char \<Rightarrow> string option \<Rightarrow> string" where
  "opt_suffix c x = (case x of None \<Rightarrow> [] | Some s \<Rightarrow> c # s)"

definition image_ref :: "string \<Rightarrow> string option \<Rightarrow> string option \<Rightarrow> string" where
  "image_ref name tag digest = name @ opt_suffix (CHR '':'') tag @ opt_suffix (CHR ''@'') digest"

text \<open>
  A name may hold a registry port, so colons are allowed in it before its last slash; a tag holds
  neither colon nor slash; neither holds an at sign, nor does the digest.
\<close>

definition name_ok :: "string \<Rightarrow> bool" where
  "name_ok name = (CHR ''@'' \<notin> set name \<and> last_index (CHR '':'') name \<le> last_index SLASH name)"

definition tag_ok :: "string option \<Rightarrow> bool" where
  "tag_ok tag = (case tag of None \<Rightarrow> True
     | Some t \<Rightarrow> t \<noteq> [] \<and> SLASH \<notin> set t \<and> CHR '':'' \<notin> set t \<and> CHR ''@'' \<notin> set t)"

definition digest_ok :: "string option \<Rightarrow> bool" where
  "digest_ok d = (case d of None \<Rightarrow> True | Some s \<Rightarrow> CHR ''@'' \<notin> set s)"

definition ref_ok :: "string \<Rightarrow> string option \<Rightarrow> string option \<Rightarrow> bool" where
  "ref_ok name tag digest = (name \<noteq> [] \<and> name_ok name \<and> tag_ok tag \<and> digest_ok digest)"

definition tag_text :: "string option \<Rightarrow> string" where
  "tag_text t = (case t of None \<Rightarrow> [] | Some s \<Rightarrow> s)"

section \<open>Lemmas\<close>

lemma digest_cut:
  assumes "CHR ''@'' \<notin> set s" and "digest_ok d"
  shows "(let i = last_index (CHR ''@'') (s @ opt_suffix (CHR ''@'') d)
          in if 0 \<le> i then take (nat i) (s @ opt_suffix (CHR ''@'') d) else s @ opt_suffix (CHR ''@'') d) = s"
proof (cases d)
  case None
  with assms show ?thesis using last_index_absent [of "CHR ''@''" s] by (simp add: opt_suffix_def)
next
  case (Some x)
  with assms show ?thesis by (simp add: opt_suffix_def digest_ok_def last_index_last)
qed

lemma tag_cut:
  assumes "name_ok name" and "tag_ok tag"
  shows "(let s = name @ opt_suffix (CHR '':'') tag
          in if last_index SLASH s < last_index (CHR '':'') s then drop (nat (last_index (CHR '':'') s + 1)) s else [])
         = tag_text tag"
proof (cases tag)
  case None
  with assms show ?thesis by (simp add: opt_suffix_def tag_text_def name_ok_def)
next
  case (Some t)
  with assms(2) have t: "CHR '':'' \<notin> set t" "SLASH \<notin> set t" by (simp_all add: tag_ok_def)
  then have "last_index (CHR '':'') (name @ CHR '':'' # t) = int (length name)"
    by (intro last_index_last)
  moreover have "last_index SLASH (name @ CHR '':'' # t) = last_index SLASH name"
    using t(2) last_index_append [of SLASH name "CHR '':'' # t"] by simp
  moreover have "last_index SLASH name < int (length name)" using last_index_bounds by blast
  ultimately show ?thesis using Some by (simp add: opt_suffix_def tag_text_def nat_add_distrib)
qed

lemma version_of_ref:
  assumes "trimSpace raw = image_ref name tag digest" and "ref_ok name tag digest"
  shows "kubeRayVersionFromImage raw = tag_text tag"
proof -
  let ?s = "name @ opt_suffix (CHR '':'') tag"
  from assms(2) have ok: "name \<noteq> []" "name_ok name" "tag_ok tag" "digest_ok digest"
    by (simp_all add: ref_ok_def)
  then have "CHR ''@'' \<notin> set ?s"
    by (auto simp: name_ok_def tag_ok_def opt_suffix_def split: option.splits)
  note d = digest_cut [OF this ok(4), unfolded Let_def] and t = tag_cut [OF ok(2,3), unfolded Let_def]
  have raw: "trimSpace raw = ?s @ opt_suffix (CHR ''@'') digest" using assms(1) by (simp add: image_ref_def)
  have "?s @ opt_suffix (CHR ''@'') digest \<noteq> []" using ok(1) by simp
  then show ?thesis unfolding kubeRayVersionFromImage_def Let_def raw d t by (simp only: if_False)
qed

lemma version_cut:
  assumes "kubeRayVersionFromImage raw = v" and "v \<noteq> []"
  shows "\<exists>name rest. trimSpace raw = name @ CHR '':'' # v @ rest \<and> SLASH \<notin> set v \<and> CHR '':'' \<notin> set v
           \<and> (rest = [] \<or> (hd rest = CHR ''@'' \<and> CHR ''@'' \<notin> set (tl rest)))"
proof -
  let ?t = "trimSpace raw"
  define d where "d = last_index (CHR ''@'') ?t"
  define image where "image = (if 0 \<le> d then take (nat d) ?t else ?t)"
  define rest where "rest = (if 0 \<le> d then drop (nat d) ?t else [])"
  have "?t = image @ rest" by (simp add: image_def rest_def)
  moreover have "rest = [] \<or> (hd rest = CHR ''@'' \<and> CHR ''@'' \<notin> set (tl rest))"
  proof (cases "0 \<le> d")
    case True
    then show ?thesis unfolding rest_def d_def by (auto elim!: last_index_split)
  qed (simp add: rest_def)
  moreover have sc: "last_index SLASH image < last_index (CHR '':'') image"
    and v: "v = drop (nat (last_index (CHR '':'') image + 1)) image"
    using assms by (auto simp: kubeRayVersionFromImage_def image_def d_def Let_def split: if_splits)
  moreover have "0 \<le> last_index (CHR '':'') image" using sc last_index_bounds [of SLASH image] by simp
  then obtain xs ys where "image = xs @ CHR '':'' # ys" and "CHR '':'' \<notin> set ys"
    and "last_index (CHR '':'') image = int (length xs)"
    by (rule last_index_split)
  moreover from this have "v = ys" using v by (simp add: nat_add_distrib)
  moreover have "SLASH \<notin> set ys"
  proof
    assume "SLASH \<in> set ys"
    then have "last_index SLASH image = int (length xs) + (1 + last_index SLASH ys)"
      using \<open>image = xs @ CHR '':'' # ys\<close> last_index_append [of SLASH "xs @ '':''" ys] by simp
    moreover have "0 \<le> last_index SLASH ys"
      using \<open>SLASH \<in> set ys\<close> last_index_absent [of SLASH ys] last_index_bounds [of SLASH ys] by auto
    ultimately show False using sc \<open>last_index (CHR '':'') image = int (length xs)\<close> by simp
  qed
  ultimately show ?thesis by (metis append.assoc append_Cons)
qed

lemma related_name: "gomap_get imageParamMap KubeRayImageParam
    = ''RELATED_IMAGE_ODH_KUBERAY_OPERATOR_CONTROLLER_IMAGE''"
  by (simp add: imageParamMap_def gomap_get_def constants_defs)

lemma resolve_related:
  "env_getenv env ''RELATED_IMAGE_ODH_KUBERAY_OPERATOR_CONTROLLER_IMAGE'' \<noteq> [] \<Longrightarrow>
     resolveKubeRayImage env base fs = env_getenv env ''RELATED_IMAGE_ODH_KUBERAY_OPERATOR_CONTROLLER_IMAGE''"
  unfolding resolveKubeRayImage_def related_name Let_def by simp

lemma resolve_default:
  "env_getenv env ''RELATED_IMAGE_ODH_KUBERAY_OPERATOR_CONTROLLER_IMAGE'' = [] \<Longrightarrow>
     resolveKubeRayImage env base fs = defaultKubeRayImage env base fs"
  unfolding resolveKubeRayImage_def defaultKubeRayImage_def related_name Let_def by simp

interpretation releases: status_action "releasesAction env base" for env base
  by unfold_locales (simp add: releasesAction_def SetReleaseStatus_def)

section \<open>Properties\<close>

text \<open>
  C31. The version of a well-formed image reference is its tag: a registry port is never taken for
  one, a digest is dropped, and a reference without a tag has the empty version. Of any image
  whatever, a version the code returns is a stretch of the trimmed text between a colon and its
  end or the last at sign, with no slash or colon in it.
\<close>

theorem kubeRayVersion_is_tag:
  "(\<forall>name tag digest. trimSpace raw = image_ref name tag digest \<longrightarrow> ref_ok name tag digest \<longrightarrow>
      kubeRayVersionFromImage raw = tag_text tag)
   \<and> (kubeRayVersionFromImage raw \<noteq> [] \<longrightarrow>
      (\<exists>name rest. trimSpace raw = name @ CHR '':'' # kubeRayVersionFromImage raw @ rest
         \<and> SLASH \<notin> set (kubeRayVersionFromImage raw) \<and> CHR '':'' \<notin> set (kubeRayVersionFromImage raw)
         \<and> (rest = [] \<or> (hd rest = CHR ''@'' \<and> CHR ''@'' \<notin> set (tl rest)))))"
  using version_of_ref version_cut [OF refl] by blast

text \<open>
  C32. What \<^verbatim>\<open>releasesAction\<close> reports, where the platform sets the related image and the
  vendored parameters hold the default one: the tag of the related image; if that one is pinned by
  digest alone, the tag of the default; one entry, or none when neither has a tag. Nothing else of
  the request changes and the action cannot fail.
\<close>

theorem releasesAction_reports:
  assumes "trimSpace (env_getenv env ''RELATED_IMAGE_ODH_KUBERAY_OPERATOR_CONTROLLER_IMAGE'') = image_ref n t d"
    and "ref_ok n t d"
    and "trimSpace (defaultKubeRayImage env base (rr_Files r)) = image_ref n' t' d'"
    and "ref_ok n' t' d'"
  shows "\<exists>r'. releasesAction env base r = (None, r')
     \<and> Releases (Status (rr_Instance r')) =
         (case (if t = None then t' else t) of
            None \<Rightarrow> []
          | Some v \<Rightarrow> [\<lparr>rel_Name = KubeRayReleaseName, rel_Version = v, rel_RepoURL = KubeRayRepoURL\<rparr>])
     \<and> r'\<lparr>rr_Instance := rr_Instance r\<rparr> = r \<and> cr_frame (rr_Instance r) (rr_Instance r')"
proof -
  have "image_ref n t d \<noteq> []" using assms(2) by (simp add: image_ref_def ref_ok_def)
  then have "env_getenv env ''RELATED_IMAGE_ODH_KUBERAY_OPERATOR_CONTROLLER_IMAGE'' \<noteq> []"
    using assms(1) by (auto simp: trimSpace_def)
  then have "resolveKubeRayImage env base (rr_Files r)
      = env_getenv env ''RELATED_IMAGE_ODH_KUBERAY_OPERATOR_CONTROLLER_IMAGE''"
    by (rule resolve_related)
  then have v: "resolveKubeRayVersion env base (rr_Files r) = tag_text (if t = None then t' else t)"
    using version_of_ref [OF assms(1,2)] version_of_ref [OF assms(3,4)] assms(2,4)
    by (auto simp: resolveKubeRayVersion_def Let_def tag_text_def ref_ok_def tag_ok_def split: option.splits)
  have ok: "tag_ok (if t = None then t' else t)" using assms(2,4) by (simp add: ref_ok_def)
  show ?thesis
    using ok releases.status_only [of r env base]
    by (auto simp: releasesAction_def SetReleaseStatus_def v desiredModuleReleases_def tag_text_def tag_ok_def
        split: option.splits)
qed

text \<open>
  Without a related image the vendored default decides, and a parameter file that cannot be
  read or parsed (or an empty base path) means that no release is reported, never an error or a
  stale entry.
\<close>

theorem releasesAction_without_related:
  assumes "env_getenv env ''RELATED_IMAGE_ODH_KUBERAY_OPERATOR_CONTROLLER_IMAGE'' = []"
  shows "fst (releasesAction env base r) = None
     \<and> Releases (Status (rr_Instance (snd (releasesAction env base r))))
         = desiredModuleReleases (kubeRayVersionFromImage (defaultKubeRayImage env base (rr_Files r)))
     \<and> (base = [] \<or> isl (parseParams env (path_join [base, ManifestPath, ManifestOverlay, ''params.env'']) (rr_Files r))
         \<longrightarrow> Releases (Status (rr_Instance (snd (releasesAction env base r)))) = [])"
proof -
  have "kubeRayVersionFromImage [] = []"
    by (simp add: kubeRayVersionFromImage_def trimSpace_def Let_def)
  moreover have "resolveKubeRayVersion env base (rr_Files r)
      = kubeRayVersionFromImage (defaultKubeRayImage env base (rr_Files r))"
    by (simp add: resolveKubeRayVersion_def resolve_default [OF assms])
  ultimately show ?thesis
    by (auto simp: releasesAction_def SetReleaseStatus_def desiredModuleReleases_def defaultKubeRayImage_def
        isl_def split: sum.splits)
qed

section \<open>Witnesses\<close>

definition sample_params_tree :: files where
  "sample_params_tree =
     [(''/opt/manifests/kuberay/openshift/params.env'',
       FFile (''odh-kuberay-operator-controller-image=quay.io/opendatahub/kuberay:v1.4.2'' @ [NL]))]"

definition sample_pin_env :: env where
  "sample_pin_env =
     sample_env\<lparr>env_getenv := (\<lambda>v. if v = ''RELATED_IMAGE_ODH_KUBERAY_OPERATOR_CONTROLLER_IMAGE''
       then ''reg:5000/rhoai/kuberay@sha256:ab'' else [])\<rparr>"

theorem kubeRayVersion_is_tag_witness:
  "kubeRayVersionFromImage '' reg:5000/kuberay:v1.4.2@sha256:ab '' = ''v1.4.2''
   \<and> kubeRayVersionFromImage ''reg:5000/kuberay@sha256:ab'' = []"
proof -
  have "trimSpace '' reg:5000/kuberay:v1.4.2@sha256:ab ''
      = image_ref ''reg:5000/kuberay'' (Some ''v1.4.2'') (Some ''sha256:ab'')"
    and "ref_ok ''reg:5000/kuberay'' (Some ''v1.4.2'') (Some ''sha256:ab'')"
    and "trimSpace ''reg:5000/kuberay@sha256:ab''
      = image_ref ''reg:5000/kuberay'' None (Some ''sha256:ab'')"
    and "ref_ok ''reg:5000/kuberay'' None (Some ''sha256:ab'')"
    by code_simp+
  then show ?thesis
    using kubeRayVersion_is_tag [THEN conjunct1, rule_format] by (simp only: tag_text_def option.case)
qed

theorem releasesAction_reports_witness:
  "map rel_Version (Releases (Status (rr_Instance (snd
     (releasesAction sample_pin_env ''/opt/manifests'' (sample_rr sample_params_tree ())))))) = [''v1.4.2'']"
proof -
  let ?r = "sample_rr sample_params_tree ()"
  have "trimSpace (env_getenv sample_pin_env ''RELATED_IMAGE_ODH_KUBERAY_OPERATOR_CONTROLLER_IMAGE'')
      = image_ref ''reg:5000/rhoai/kuberay'' None (Some ''sha256:ab'')"
    and "ref_ok ''reg:5000/rhoai/kuberay'' None (Some ''sha256:ab'')"
    and "trimSpace (defaultKubeRayImage sample_pin_env ''/opt/manifests'' (rr_Files ?r))
      = image_ref ''quay.io/opendatahub/kuberay'' (Some ''v1.4.2'') None"
    and "ref_ok ''quay.io/opendatahub/kuberay'' (Some ''v1.4.2'') None"
    by code_simp+
  from releasesAction_reports [OF this] show ?thesis by auto
qed

theorem releasesAction_without_related_witness:
  "Releases (Status (rr_Instance (snd
     (releasesAction (sample_env\<lparr>env_getenv := \<lambda>v. []\<rparr>) ''/nowhere'' (sample_rr sample_params_tree ()))))) = []"
proof -
  have "isl (parseParams (sample_env\<lparr>env_getenv := \<lambda>v. []\<rparr>)
      (path_join [''/nowhere'', ManifestPath, ManifestOverlay, ''params.env'']) (rr_Files (sample_rr sample_params_tree ())))"
    by code_simp
  moreover have "env_getenv (sample_env\<lparr>env_getenv := \<lambda>v. []\<rparr>)
      ''RELATED_IMAGE_ODH_KUBERAY_OPERATOR_CONTROLLER_IMAGE'' = []" by simp
  ultimately show ?thesis using releasesAction_without_related by blast
qed

end
