(* ===== verification/Platform_Config.thy ===== *)
theory Platform_Config
  imports Ray_Types
begin

text \<open>
  \<^verbatim>\<open>configmap.go\<close>: the platform's ConfigMap \<^verbatim>\<open>odh-ray-config\<close>. Its watch (the mapper and
  the predicate), the two reads of it, the standalone default, and the validation of a release
  version. The client and the semver parser are parameters.
\<close>

datatype distributionReadStatus = distributionAbsent | distributionOK | distributionInvalid

definition ConfigMapGVK :: gvk where
  "ConfigMapGVK = \<lparr>Group = [], Version = ''v1'', Kind = ''ConfigMap''\<rparr>"

text \<open>A request is the name of the cluster-scoped object to reconcile.\<close>

definition platformConfigMapper :: "'w client \<Rightarrow> kobj \<Rightarrow> 'w \<Rightarrow> string list \<times> 'w" where
  "platformConfigMapper cli obj w =
     (if obj_Name obj \<noteq> PlatformConfigMapName then ([], w)
      else case cli_getRay cli InstanceName w of
             (Inl err, w') \<Rightarrow> (if err = NotFound then ([], w') else ([InstanceName], w'))
           | (Inr ray, w') \<Rightarrow>
               (let appsNamespace = ApplicationsNamespace (Spec ray)
                in if appsNamespace = [] \<or> obj_Namespace obj \<noteq> appsNamespace then ([], w')
                   else ([InstanceName], w')))"

definition platformConfigPredicate :: "kobj \<Rightarrow> bool" where
  "platformConfigPredicate obj = (obj_Name obj = PlatformConfigMapName)"

definition validateReleaseVersion :: "'w framework \<Rightarrow> string \<Rightarrow> goerror option" where
  "validateReleaseVersion fw version =
     (if MaxReleaseVersionLength < length version
      then Some (EText (''release version length '' @ decimal (length version) @ '' exceeds maximum ''
                       @ decimal MaxReleaseVersionLength))
      else if \<not> fw_semver fw (trimPrefix ''v'' version)
      then Some (EWrap (''parse semantic version '' @ quote version) (EExt ''semver''))
      else None)"

definition emptyDistribution :: distribution where
  "emptyDistribution = \<lparr>dist_Name = [], dist_Version = []\<rparr>"

definition getConfigError :: "string \<Rightarrow> kerror \<Rightarrow> goerror" where
  "getConfigError ns err =
     EWrap (''get platform config ConfigMap '' @ ns @ ''/'' @ PlatformConfigMapName) (EKube err)"

definition readPlatformDistribution ::
  "'w framework \<Rightarrow> 'w client \<Rightarrow> string \<Rightarrow> 'w
     \<Rightarrow> (distribution \<times> distributionReadStatus \<times> goerror option) \<times> 'w" where
  "readPlatformDistribution fw cli appsNamespace w =
     (if appsNamespace = [] then ((emptyDistribution, distributionAbsent, None), w)
      else case cli_get cli ConfigMapGVK PlatformConfigMapName appsNamespace w of
        (Inl err, w') \<Rightarrow>
          (if err = NotFound then ((emptyDistribution, distributionAbsent, None), w')
           else ((emptyDistribution, distributionAbsent, Some (getConfigError appsNamespace err)), w'))
      | (Inr cm, w') \<Rightarrow>
          (let name = gomap_get (obj_Data cm) PlatformNameKey;
               version = gomap_get (obj_Data cm) PlatformVersionKey
           in if name = [] \<and> version = [] then ((emptyDistribution, distributionAbsent, None), w')
              else if version \<noteq> [] \<and> validateReleaseVersion fw version \<noteq> None
              then ((emptyDistribution, distributionInvalid, None), w')
              else ((\<lparr>dist_Name = (if name = [] then StandaloneDistributionName else name),
                      dist_Version = version\<rparr>, distributionOK, None), w')))"

definition readPlatformVersion :: "'w client \<Rightarrow> string \<Rightarrow> 'w \<Rightarrow> (goerror + string) \<times> 'w" where
  "readPlatformVersion cli appsNamespace w =
     (if appsNamespace = [] then (Inr [], w)
      else case cli_get cli ConfigMapGVK PlatformConfigMapName appsNamespace w of
        (Inl err, w') \<Rightarrow>
          (if err = NotFound then (Inr [], w') else (Inl (getConfigError appsNamespace err), w'))
      | (Inr cm, w') \<Rightarrow> (Inr (gomap_get (obj_Data cm) PlatformHandshakeKey), w'))"

definition standaloneDistribution :: "string \<Rightarrow> distribution" where
  "standaloneDistribution moduleVersion =
     \<lparr>dist_Name = StandaloneDistributionName,
      dist_Version = (if moduleVersion = [] then StandaloneDistributionVersion else moduleVersion)\<rparr>"

section \<open>Lemmas\<close>

text \<open>A distribution the module may report.\<close>

definition dist_valid :: "'w framework \<Rightarrow> distribution \<Rightarrow> bool" where
  "dist_valid fw d =
     (dist_Name d \<noteq> []
      \<and> (dist_Version d = []
         \<or> (length (dist_Version d) \<le> 64 \<and> fw_semver fw (trimPrefix ''v'' (dist_Version d)))))"

lemma validate_None_iff:
  "validateReleaseVersion fw v = None \<longleftrightarrow> length v \<le> 64 \<and> fw_semver fw (trimPrefix ''v'' v)"
  by (auto simp: validateReleaseVersion_def MaxReleaseVersionLength_def)

lemma read_OK_valid:
  assumes "fst (readPlatformDistribution fw cli ns w) = (d, distributionOK, e)"
  shows "dist_valid fw d" and "e = None"
  using assms
  by (auto simp: readPlatformDistribution_def dist_valid_def Let_def validate_None_iff constants_defs
      emptyDistribution_def split: if_splits prod.splits sum.splits)

lemma read_error_absent:
  "fst (readPlatformDistribution fw cli ns w) = (d, s, Some e) \<Longrightarrow> s = distributionAbsent"
  by (auto simp: readPlatformDistribution_def Let_def split: if_splits prod.splits sum.splits)

lemma standalone_valid: "fw_semver fw ''0.0.0'' \<Longrightarrow> dist_valid fw (standaloneDistribution [])"
  by (simp add: dist_valid_def standaloneDistribution_def constants_defs trimPrefix_def)

lemma platform_reads_missing:
  "cli_get cli ConfigMapGVK PlatformConfigMapName ns w = (Inl NotFound, w') \<Longrightarrow>
     readPlatformVersion cli ns w = (Inr [], if ns = [] then w else w')
     \<and> readPlatformDistribution fw cli ns w
         = ((emptyDistribution, distributionAbsent, None), if ns = [] then w else w')"
  by (simp add: readPlatformVersion_def readPlatformDistribution_def)

section \<open>Properties\<close>

text \<open>
  The watch on ConfigMaps wakes the reconciler for exactly the right objects: the platform's
  ConfigMap in the applications namespace of the custom resource, or one of that name while the
  resource cannot be read. The only request ever made is for the singleton, and an object without
  a custom resource to reconcile makes none.
\<close>

theorem platformConfigMapper_exact:
  "fst (platformConfigMapper cli obj w) =
     (if platformConfigPredicate obj
         \<and> (case fst (cli_getRay cli ''default-ray'' w) of
              Inl err \<Rightarrow> err \<noteq> NotFound
            | Inr ray \<Rightarrow> ApplicationsNamespace (Spec ray) \<noteq> []
                       \<and> obj_Namespace obj = ApplicationsNamespace (Spec ray))
      then [''default-ray''] else [])"
  by (auto simp: platformConfigMapper_def platformConfigPredicate_def constants_defs Let_def
      split: prod.splits sum.splits)

text \<open>
  C35. What a read of the platform ConfigMap yields, for every content: absent without both keys,
  invalid exactly for a non-empty version that is longer than 64 bytes or no semantic version, and
  otherwise the pair with the standalone name in place of an empty one, which is always a valid
  distribution.
\<close>

theorem readPlatformDistribution_classifies:
  assumes "ns \<noteq> []" and "cli_get cli ConfigMapGVK PlatformConfigMapName ns w = (Inr cm, w')"
    and "name = gomap_get (obj_Data cm) ''distribution.name''"
    and "version = gomap_get (obj_Data cm) ''distribution.version''"
    and "readPlatformDistribution fw cli ns w = ((d, st, e), w'')"
  shows "e = None \<and> w'' = w'
     \<and> (st = distributionAbsent \<longleftrightarrow> name = [] \<and> version = [])
     \<and> (st = distributionInvalid \<longleftrightarrow>
          version \<noteq> [] \<and> (64 < length version \<or> \<not> fw_semver fw (trimPrefix ''v'' version)))
     \<and> (st = distributionOK \<longrightarrow> dist_valid fw d \<and> dist_Version d = version
          \<and> dist_Name d = (if name = [] then ''Standalone'' else name))"
proof -
  have names: "name = gomap_get (obj_Data cm) PlatformNameKey"
    "version = gomap_get (obj_Data cm) PlatformVersionKey"
    using assms(3,4) by (simp_all add: constants_defs)
  have inv: "(validateReleaseVersion fw version \<noteq> None)
      \<longleftrightarrow> (64 < length version \<or> \<not> fw_semver fw (trimPrefix ''v'' version))"
    using validate_None_iff [of fw version] by auto
  have "st = distributionOK \<longrightarrow> dist_valid fw d"
    using read_OK_valid(1) [of fw cli ns w d e] assms(5) by auto
  then show ?thesis
    using assms(1,2,5) inv unfolding readPlatformDistribution_def
    by (auto simp: names [symmetric] Let_def StandaloneDistributionName_def split: if_splits)
qed

end
