(* ===== verification/Mem_Cluster.thy ===== *)
theory Mem_Cluster
  imports Ray_Types
begin

text \<open>
  What the module relies on of the Kubernetes client, as named hypotheses on the client parameter,
  and a client that meets them: a cluster held in memory. The hypotheses state the documented
  behaviour of \<^verbatim>\<open>List\<close>, \<^verbatim>\<open>Get\<close>, \<^verbatim>\<open>Delete\<close>, \<^verbatim>\<open>Update\<close> and
  \<^verbatim>\<open>CreateOrUpdate\<close> through the objects that are live in a state (\<open>view\<close>): stored, and not
  marked for deletion, since an object with finalizers stays stored for a while after it is deleted. They
  speak of reads that are current. The client that \<^verbatim>\<open>cmd/main.go\<close> builds reads typed objects through the
  manager's informer cache, which may lag behind; a property with \<open>get_lawful\<close> or \<open>list_lawful\<close> among
  its hypotheses therefore holds once the cache has caught up with the objects it is about, whereas the read of the custom resource
  itself may be stale in \<open>Life_Cycle\<close>. The
  in-memory client shows that they can be met, and is where the witnesses of the component theories
  evaluate.
\<close>

section \<open>Objects by key\<close>

definition obj_key :: "kobj \<Rightarrow> gvk \<times> string \<times> string" where
  "obj_key x = (obj_GVK x, obj_Namespace x, obj_Name x)"

definition in_scope :: "gvk \<Rightarrow> string option \<Rightarrow> kobj \<Rightarrow> bool" where
  "in_scope g ns x = (obj_GVK x = g \<and> (case ns of None \<Rightarrow> True | Some n \<Rightarrow> obj_Namespace x = n))"

section \<open>The laws\<close>

text \<open>
  Taking the items out of a list that was read may fail; otherwise it yields them all, in order, each
  as the object it is (the items of the typed lists are objects).
\<close>

definition extract_lawful :: "'w client \<Rightarrow> bool" where
  "extract_lawful cli = (\<forall>items objs. cli_extractList cli items = Inr objs \<longrightarrow> objs = map Some items)"

lemma extract_lawfulD: "extract_lawful cli \<Longrightarrow> cli_extractList cli items = Inr objs \<Longrightarrow> objs = map Some items"
  unfolding extract_lawful_def by blast

text \<open>
  A list call changes nothing and, when it succeeds, returns objects of the kind in the namespace:
  all live ones, and possibly some that are on their way out; one that finds no such resource (not found, no match, not registered) tells that the
  cluster has none of them.
\<close>

definition list_lawful :: "'w client \<Rightarrow> ('w \<Rightarrow> kobj list) \<Rightarrow> bool" where
  "list_lawful cli view =
     (extract_lawful cli \<and>
      (\<forall>g ns w res w'. cli_list cli g ns w = (res, w') \<longrightarrow>
        view w' = view w
        \<and> (case res of
             Inr items \<Rightarrow>
               {x \<in> set (view w). in_scope g ns x} \<subseteq> set items
               \<and> (\<forall>x \<in> set items. in_scope g ns x
                      \<and> (x \<in> set (view w) \<or> obj_key x \<notin> obj_key ` set (view w)))
           | Inl err \<Rightarrow> err \<in> {NotFound, NoMatch, NotRegistered} \<longrightarrow>
               (\<forall>x \<in> set (view w). \<not> in_scope g ns x))))"

text \<open>
  A delete that succeeds, or answers that the object is not there, leaves the cluster without the
  object of that key and with all the others; one that fails otherwise changes nothing.
\<close>

definition delete_lawful :: "'w client \<Rightarrow> ('w \<Rightarrow> kobj list) \<Rightarrow> bool" where
  "delete_lawful cli view =
     (\<forall>x w err w'. cli_delete cli x w = (err, w') \<longrightarrow>
        set (view w') = (if err = None \<or> err = Some NotFound
                         then {y \<in> set (view w). obj_key y \<noteq> obj_key x} else set (view w)))"

text \<open>\<^verbatim>\<open>Get\<close> returns the object of the key, or that there is none, and changes nothing.\<close>

definition get_lawful :: "'w client \<Rightarrow> ('w \<Rightarrow> kobj list) \<Rightarrow> bool" where
  "get_lawful cli view =
     (\<forall>g n ns w res w'. cli_get cli g n ns w = (res, w') \<longrightarrow>
        view w' = view w
        \<and> (case res of
             Inr x \<Rightarrow> obj_key x = (g, ns, n) \<and> (x \<in> set (view w) \<or> obj_key x \<notin> obj_key ` set (view w))
           | Inl err \<Rightarrow> err = NotFound \<longrightarrow> (\<forall>x \<in> set (view w). obj_key x \<noteq> (g, ns, n))))"

text \<open>\<^verbatim>\<open>Update\<close> replaces the object of the key; one on its way out does not come back.\<close>

definition update_lawful :: "'w client \<Rightarrow> ('w \<Rightarrow> kobj list) \<Rightarrow> bool" where
  "update_lawful cli view =
     (\<forall>x w err w'. cli_update cli x w = (err, w') \<longrightarrow>
        set (view w') = (if err = None \<and> obj_key x \<in> obj_key ` set (view w)
                         then insert x {y \<in> set (view w). obj_key y \<noteq> obj_key x} else set (view w)))"

text \<open>
  \<^verbatim>\<open>controllerutil.CreateOrUpdate\<close> applies the mutation to the object of the key when it is
  there, to the object given otherwise, and stores the result.
\<close>

definition createOrUpdate_lawful :: "'w client \<Rightarrow> ('w \<Rightarrow> kobj list) \<Rightarrow> bool" where
  "createOrUpdate_lawful cli view =
     (\<forall>x f w w'. (\<forall>y. obj_key (f y) = obj_key y) \<longrightarrow> cli_createOrUpdate cli x f w = (None, w') \<longrightarrow>
        (\<exists>old. (old = x \<or> (old \<in> set (view w) \<and> obj_key old = obj_key x))
           \<and> set (view w') = insert (f old) {y \<in> set (view w). obj_key y \<noteq> obj_key x}))"

section \<open>A cluster in memory\<close>

record cluster =
  cl_Ray :: "ray option"
  cl_Objs :: "kobj list"

definition objs_without :: "kobj \<Rightarrow> cluster \<Rightarrow> kobj list" where
  "objs_without x c = filter (\<lambda>y. obj_key y \<noteq> obj_key x) (cl_Objs c)"

definition mem_client :: "cluster client" where
  "mem_client =
     \<lparr>cli_getRay = (\<lambda>n c. (case cl_Ray c of
          None \<Rightarrow> Inl NotFound
        | Some r \<Rightarrow> if meta_Name r = n then Inr r else Inl NotFound, c)),
      cli_updateRay = (\<lambda>r c. if cl_Ray c = None then (Some NotFound, c) else (None, c\<lparr>cl_Ray := Some r\<rparr>)),
      cli_get = (\<lambda>g n ns c. (case List.find (\<lambda>x. obj_key x = (g, ns, n)) (cl_Objs c) of
          None \<Rightarrow> Inl NotFound | Some x \<Rightarrow> Inr x, c)),
      cli_list = (\<lambda>g ns c. (Inr (filter (in_scope g ns) (cl_Objs c)), c)),
      cli_extractList = (\<lambda>items. Inr (map Some items)),
      cli_update = (\<lambda>x c. if \<exists>y \<in> set (cl_Objs c). obj_key y = obj_key x
        then (None, c\<lparr>cl_Objs := x # objs_without x c\<rparr>) else (Some NotFound, c)),
      cli_delete = (\<lambda>x c.
        if \<exists>y \<in> set (cl_Objs c). obj_key y = obj_key x
        then (None, c\<lparr>cl_Objs := objs_without x c\<rparr>) else (Some NotFound, c)),
      cli_createOrUpdate = (\<lambda>x f c. case List.find (\<lambda>y. obj_key y = obj_key x) (cl_Objs c) of
          None \<Rightarrow> (None, c\<lparr>cl_Objs := f x # objs_without x c\<rparr>)
        | Some y \<Rightarrow> (None, c\<lparr>cl_Objs := f y # objs_without x c\<rparr>))\<rparr>"

text \<open>The same where objects of one kind cannot be deleted (an authorization error).\<close>

definition denying_client :: "gvk \<Rightarrow> cluster client" where
  "denying_client g =
     mem_client\<lparr>cli_delete := (\<lambda>x c. if obj_GVK x = g then (Some (OtherKube ''forbidden''), c)
                                  else cli_delete mem_client x c)\<rparr>"

lemma mem_client_lawful [simp]:
  "list_lawful mem_client cl_Objs" "delete_lawful mem_client cl_Objs" "get_lawful mem_client cl_Objs"
  "update_lawful mem_client cl_Objs" "createOrUpdate_lawful mem_client cl_Objs"
proof -
  show "list_lawful mem_client cl_Objs" by (auto simp: list_lawful_def extract_lawful_def mem_client_def)
  show "delete_lawful mem_client cl_Objs"
    by (auto simp: delete_lawful_def mem_client_def objs_without_def split: if_splits)
  show "get_lawful mem_client cl_Objs"
    by (auto simp: get_lawful_def mem_client_def find_Some_iff find_None_iff split: option.splits)
  show "update_lawful mem_client cl_Objs"
    by (auto simp: update_lawful_def mem_client_def objs_without_def image_iff split: if_splits)
  show "createOrUpdate_lawful mem_client cl_Objs"
    unfolding createOrUpdate_lawful_def
  proof (intro allI impI)
    fix x f w w'
    assume "cli_createOrUpdate mem_client x f w = (None, w')"
    then show "\<exists>old. (old = x \<or> (old \<in> set (cl_Objs w) \<and> obj_key old = obj_key x))
        \<and> set (cl_Objs w') = insert (f old) {y \<in> set (cl_Objs w). obj_key y \<noteq> obj_key x}"
    proof (cases "List.find (\<lambda>y. obj_key y = obj_key x) (cl_Objs w)")
      case None
      then show ?thesis using \<open>cli_createOrUpdate mem_client x f w = (None, w')\<close>
        by (intro exI [of _ x]) (auto simp: mem_client_def objs_without_def)
    next
      case (Some y)
      then have "y \<in> set (cl_Objs w)" "obj_key y = obj_key x" by (auto simp: find_Some_iff)
      with Some show ?thesis using \<open>cli_createOrUpdate mem_client x f w = (None, w')\<close>
        by (intro exI [of _ y]) (auto simp: mem_client_def objs_without_def)
    qed
  qed
qed

lemma denying_client_lawful [simp]:
  "list_lawful (denying_client g) cl_Objs" "delete_lawful (denying_client g) cl_Objs"
  using mem_client_lawful(1,2)
  by (simp_all add: list_lawful_def extract_lawful_def delete_lawful_def denying_client_def)

section \<open>A framework\<close>

text \<open>Conditions kept by type, everything else as simple as the contracts allow.\<close>

definition put_condition :: "condition \<Rightarrow> ray \<Rightarrow> ray" where
  "put_condition c r =
     SetConditions (filter (\<lambda>d. cond_Type d \<noteq> cond_Type c) (GetConditions r) @ [c]) r"

definition sample_framework :: "'w framework" where
  "sample_framework =
     \<lparr>fw_isStatusConditionTrue = (\<lambda>r t. \<exists>c \<in> set (GetConditions r). cond_Type c = t \<and> cond_Status c = ''True''),
      fw_markTrue = (\<lambda>t rs m. put_condition \<lparr>cond_Type = t, cond_Status = ''True'', cond_Reason = rs,
         cond_Message = m, cond_ObservedGeneration = 0\<rparr>),
      fw_markFalse = (\<lambda>t rs m g. put_condition \<lparr>cond_Type = t, cond_Status = ''False'', cond_Reason = rs,
         cond_Message = m, cond_ObservedGeneration = g\<rparr>),
      fw_removeFinalizer = (\<lambda>r n. (n \<in> set (meta_Finalizers r),
         r\<lparr>meta_Finalizers := filter (\<lambda>f. f \<noteq> n) (meta_Finalizers r)\<rparr>)),
      fw_setPlatformRelease = (\<lambda>v st. st\<lparr>Phase := v\<rparr>),
      fw_render = (\<lambda>p ns fs. Inr []),
      fw_hasCRD = (\<lambda>g w. (Inr True, w)),
      fw_restMapping = (\<lambda>g v k w. (None, w)),
      fw_semver = (\<lambda>v. v \<noteq> [] \<and> list_all (\<lambda>c. c \<in> set ''0123456789.'') v),
      fw_deploy = (\<lambda>os r. (None, r)),
      fw_gc = (\<lambda>f os r. (None, r)),
      fw_deployments = (\<lambda>f r. (None, r)),
      fw_runActions = seq_actions\<rparr>"

text \<open>The framework's condition manager writes the status of the instance and nothing else.\<close>

definition conditions_lawful :: "'w framework \<Rightarrow> bool" where
  "conditions_lawful fw =
     (\<forall>t rs m g r. cr_frame r (fw_markTrue fw t rs m r) \<and> cr_frame r (fw_markFalse fw t rs m g r))"

text \<open>\<^verbatim>\<open>controllerutil.RemoveFinalizer\<close> takes the name out of the list and tells whether it was there.\<close>

definition finalizer_lawful :: "'w framework \<Rightarrow> bool" where
  "finalizer_lawful fw =
     (\<forall>r n. fw_removeFinalizer fw r n =
        (n \<in> set (meta_Finalizers r), r\<lparr>meta_Finalizers := filter (\<lambda>f. f \<noteq> n) (meta_Finalizers r)\<rparr>))"

text \<open>
  The framework's own actions (deploy, deployment status, garbage collection) leave everything of
  the instance but its status alone, and do not write the extensions, which are the module's.
\<close>

definition actions_lawful :: "'w framework \<Rightarrow> bool" where
  "actions_lawful fw =
     (\<forall>r r'. ((\<exists>os. r' = snd (fw_deploy fw os r)) \<or> (\<exists>f. r' = snd (fw_deployments fw f r))
              \<or> (\<exists>f os. r' = snd (fw_gc fw f os r)))
        \<longrightarrow> cr_frame (rr_Instance r) (rr_Instance r') \<and> rr_Extensions r' = rr_Extensions r)"

text \<open>Garbage collection deletes and does nothing else; the instance is not its business.\<close>

definition gc_lawful :: "'w framework \<Rightarrow> ('w \<Rightarrow> kobj list) \<Rightarrow> bool" where
  "gc_lawful fw view =
     (\<forall>f os r. rr_Instance (snd (fw_gc fw f os r)) = rr_Instance r
        \<and> set (view (rr_Cluster (snd (fw_gc fw f os r)))) \<subseteq> set (view (rr_Cluster r)))"

lemma sample_framework_lawful [simp]:
  "finalizer_lawful sample_framework" "actions_lawful sample_framework" "gc_lawful sample_framework v"
  "runs_in_order sample_framework"
  by (auto simp: finalizer_lawful_def actions_lawful_def gc_lawful_def runs_in_order_def sample_framework_def)

lemma sample_framework_conditions [simp]: "conditions_lawful sample_framework"
  by (simp add: conditions_lawful_def sample_framework_def put_condition_def SetConditions_def)

end
