(* ===== verification/Status_Actions.thy ===== *)
theory Status_Actions
  imports Platform_Config Mem_Cluster
begin

text \<open>
  The actions that only write the status of the custom resource: \<^verbatim>\<open>status.go\<close>
  (\<^verbatim>\<open>distributionAction\<close>, \<^verbatim>\<open>upgrade\<close>, \<^verbatim>\<open>degradedAction\<close>,
  \<^verbatim>\<open>observedGenerationAction\<close>) and \<^verbatim>\<open>platformReleaseAction\<close> of \<^verbatim>\<open>releases.go\<close>.
  Each is shown to meet the contract \<open>status_action\<close>; the theorems say what the distribution and the
  platform handshake may be set to and when.
\<close>

definition upgrade :: "ray \<Rightarrow> distribution \<Rightarrow> ray" where
  "upgrade ray dist = ray"

definition distributionAction :: "'w framework \<Rightarrow> 'w client \<Rightarrow> string \<Rightarrow> 'w action" where
  "distributionAction fw cli basePath r =
     (if \<not> fw_isStatusConditionTrue fw (rr_Instance r) ConditionDeploymentsAvailable then (None, r)
      else case readPlatformDistribution fw cli (apps_ns r) (rr_Cluster r) of
        ((dist0, status, Some e), w) \<Rightarrow> (Some e, r\<lparr>rr_Cluster := w\<rparr>)
      | ((dist0, status, None), w) \<Rightarrow>
          (let r1 = r\<lparr>rr_Cluster := w\<rparr>
           in if status = distributionInvalid then (None, r1)
              else let dist = (if status = distributionAbsent then standaloneDistribution [] else dist0)
                   in if Distribution (Status (rr_Instance r1)) = dist then (None, r1)
                      else let ray = upgrade (rr_Instance r1) dist
                           in (None, r1\<lparr>rr_Instance := ray\<lparr>Status := (Status ray)\<lparr>Distribution := dist\<rparr>\<rparr>\<rparr>)))"

definition degradedAction :: "'w framework \<Rightarrow> 'w action" where
  "degradedAction fw r =
     (None, r\<lparr>rr_Instance :=
        fw_markFalse fw ConditionDegraded ''AsExpected'' ''Module is operating normally''
          (meta_Generation (rr_Instance r)) (rr_Instance r)\<rparr>)"

definition observedGenerationAction :: "'w action" where
  "observedGenerationAction r =
     (None, r\<lparr>rr_Instance := (rr_Instance r)\<lparr>Status :=
        (Status (rr_Instance r))\<lparr>ObservedGeneration := meta_Generation (rr_Instance r)\<rparr>\<rparr>\<rparr>)"

definition platformReleaseAction :: "'w framework \<Rightarrow> 'w client \<Rightarrow> 'w action" where
  "platformReleaseAction fw cli r =
     (if removed r then (None, r)
      else if \<not> fw_isStatusConditionTrue fw (rr_Instance r) ConditionDeploymentsAvailable then (None, r)
      else case readPlatformVersion cli (apps_ns r) (rr_Cluster r) of
        (Inl e, w) \<Rightarrow> (Some (EWrap ''read platform version'' e), r\<lparr>rr_Cluster := w\<rparr>)
      | (Inr version, w) \<Rightarrow>
          (let r1 = r\<lparr>rr_Cluster := w\<rparr>
           in if version = [] then (None, r1)
              else (None, r1\<lparr>rr_Instance := (rr_Instance r1)\<lparr>Status :=
                     fw_setPlatformRelease fw version (Status (rr_Instance r1))\<rparr>\<rparr>)))"

section \<open>The contract of the actions\<close>

lemma distribution_frame: "cr_frame (rr_Instance r) (rr_Instance (snd (distributionAction fw cli p r)))"
  by (auto simp: distributionAction_def upgrade_def Let_def split: prod.splits option.splits)

lemma platformRelease_frame: "cr_frame (rr_Instance r) (rr_Instance (snd (platformReleaseAction fw cli r)))"
  by (auto simp: platformReleaseAction_def Let_def split: prod.splits sum.splits)

interpretation distribution: status_action "distributionAction fw cli p" for fw cli p
  by unfold_locales (rule distribution_frame)

interpretation observed: status_action observedGenerationAction
  by unfold_locales (simp add: observedGenerationAction_def)

interpretation platform_release: gated_action "platformReleaseAction fw cli" for fw cli
  by unfold_locales (rule platformRelease_frame, simp add: platformReleaseAction_def)

lemma degraded_status_action: "conditions_lawful fw \<Longrightarrow> status_action (degradedAction fw)"
  by unfold_locales (simp add: degradedAction_def conditions_lawful_def)

section \<open>Lemmas\<close>

text \<open>The fields of a request that only status actions' own writes may touch.\<close>

definition plan_frame :: "'w rr \<Rightarrow> 'w rr \<Rightarrow> bool" where
  "plan_frame r r' =
     (rr_Extensions r' = rr_Extensions r \<and> rr_Manifests r' = rr_Manifests r
      \<and> rr_Resources r' = rr_Resources r \<and> rr_Generated r' = rr_Generated r
      \<and> rr_Files r' = rr_Files r \<and> rr_SCC r' = rr_SCC r)"

lemma plan_frame_trans [trans]: "plan_frame a b \<Longrightarrow> plan_frame b c \<Longrightarrow> plan_frame a c"
  by (simp add: plan_frame_def)

lemma status_plan_frames [frame_simps]:
  "plan_frame r (snd (distributionAction fw cli p r))"
  "plan_frame r (snd (platformReleaseAction fw cli r))"
  "plan_frame r (snd (degradedAction fw r))"
  "plan_frame r (snd (observedGenerationAction r))"
  by (auto simp: plan_frame_def distributionAction_def platformReleaseAction_def degradedAction_def
      observedGenerationAction_def Let_def split: prod.splits option.splits sum.splits)

text \<open>What the distribution is after a run: what it was, the standalone one, or what was read.\<close>

lemma distribution_result:
  fixes r :: "'w rr" and fw :: "'w framework" and cli :: "'w client" and p :: string
  defines "D \<equiv> Distribution (Status (rr_Instance (snd (distributionAction fw cli p r))))"
  shows "D = Distribution (Status (rr_Instance r)) \<or> D = standaloneDistribution []
    \<or> (\<exists>e. fst (readPlatformDistribution fw cli (apps_ns r) (rr_Cluster r)) = (D, distributionOK, e))"
proof -
  obtain d s e w where rd: "readPlatformDistribution fw cli (apps_ns r) (rr_Cluster r) = ((d, s, e), w)"
    by (metis surj_pair)
  then show ?thesis
    unfolding D_def
    by (cases s; cases e) (simp_all add: distributionAction_def upgrade_def Let_def)
qed

section \<open>Properties\<close>

text \<open>
  C36. Invariant of \<^verbatim>\<open>status.distribution\<close>: it is unset, or it has a name and a version that is
  empty or passed the validation. Every run of the action keeps it, whatever the ConfigMap holds and
  whatever the client answers.
\<close>

theorem distribution_stays_valid:
  assumes "fw_semver fw ''0.0.0''"
    and "Distribution (Status (rr_Instance r)) = emptyDistribution
         \<or> dist_valid fw (Distribution (Status (rr_Instance r)))"
  shows "Distribution (Status (rr_Instance (snd (distributionAction fw cli p r)))) = emptyDistribution
         \<or> dist_valid fw (Distribution (Status (rr_Instance (snd (distributionAction fw cli p r)))))"
  using distribution_result [of fw cli p r] standalone_valid [OF assms(1)] assms(2) read_OK_valid(1)
  by metis

text \<open>
  C37. \<^verbatim>\<open>distributionAction\<close> converges with the ConfigMap once the deployments are available:
  a valid pair is reported, an absent one gives the standalone distribution, an invalid one keeps
  what was reported before, and a failed read is an error that changes nothing of the resource.
\<close>

theorem distributionAction_converges:
  assumes "fw_isStatusConditionTrue fw (rr_Instance r) ''DeploymentsAvailable''"
    and "readPlatformDistribution fw cli (apps_ns r) (rr_Cluster r) = ((d, st, e), w)"
  shows "distributionAction fw cli p r =
     (e, r\<lparr>rr_Cluster := w,
          rr_Instance := (if e \<noteq> None \<or> st = distributionInvalid then rr_Instance r
            else (rr_Instance r)\<lparr>Status := (Status (rr_Instance r))\<lparr>Distribution :=
                   (if st = distributionAbsent then \<lparr>dist_Name = ''Standalone'', dist_Version = ''0.0.0''\<rparr>
                    else d)\<rparr>\<rparr>)\<rparr>)"
proof -
  have id: "ray = ray\<lparr>Status := (Status ray)\<lparr>Distribution := x\<rparr>\<rparr>" if "Distribution (Status ray) = x" for ray x
    using that by simp
  have "standaloneDistribution [] = \<lparr>dist_Name = ''Standalone'', dist_Version = ''0.0.0''\<rparr>"
    by (simp add: standaloneDistribution_def constants_defs)
  with assms show ?thesis
    by (auto simp: distributionAction_def upgrade_def Let_def ConditionDeploymentsAvailable_def
        intro: id split: option.splits)
qed

text \<open>
  The platform handshake is answered only for a running component: the action writes the
  platform release exactly when the component is not removed, its deployments are available and the
  ConfigMap of the applications namespace names a version; it then writes that version.
\<close>

theorem platformReleaseAction_handshake:
  "platformReleaseAction fw cli r =
     (if removed r \<or> \<not> fw_isStatusConditionTrue fw (rr_Instance r) ''DeploymentsAvailable'' \<or> apps_ns r = []
      then (None, r)
      else case cli_get cli ConfigMapGVK ''odh-ray-config'' (apps_ns r) (rr_Cluster r) of
             (Inr cm, w) \<Rightarrow>
               (let v = gomap_get (obj_Data cm) ''platformVersion'' in
                (None, r\<lparr>rr_Cluster := w,
                     rr_Instance := (if v = [] then rr_Instance r
                       else (rr_Instance r)\<lparr>Status := fw_setPlatformRelease fw v (Status (rr_Instance r))\<rparr>)\<rparr>))
           | (Inl err, w) \<Rightarrow>
               ((if err = NotFound then None
                 else Some (EWrap ''read platform version'' (getConfigError (apps_ns r) err))),
                r\<lparr>rr_Cluster := w\<rparr>))"
  by (auto simp: platformReleaseAction_def readPlatformVersion_def constants_defs Let_def
      split: prod.splits sum.splits)

section \<open>Witnesses\<close>

definition sample_config :: kobj where
  "sample_config =
     \<lparr>obj_GVK = ConfigMapGVK, obj_Namespace = ''odh'', obj_Name = ''odh-ray-config'', obj_Labels = [],
      obj_OwnerRefs = [], obj_Data = [(''distribution.version'', ''v2.19.0''), (''platformVersion'', ''3.0'')],
      obj_Rules = [], obj_Body = []\<rparr>"

definition sample_cluster :: cluster where
  "sample_cluster = \<lparr>cl_Ray = Some sample_ray, cl_Objs = [sample_config]\<rparr>"

definition sample_ready :: "cluster rr" where
  "sample_ready =
     (sample_rr [] sample_cluster)\<lparr>rr_Instance :=
        fw_markTrue (sample_framework :: cluster framework) ''DeploymentsAvailable'' ''Ready'' [] sample_ray\<rparr>"

lemma sample_config_read:
  "cli_get mem_client ConfigMapGVK PlatformConfigMapName ''odh'' sample_cluster
     = (Inr sample_config, sample_cluster)"
  "readPlatformDistribution sample_framework mem_client ''odh'' sample_cluster
     = ((\<lparr>dist_Name = ''Standalone'', dist_Version = ''v2.19.0''\<rparr>, distributionOK, None), sample_cluster)"
  "readPlatformDistribution sample_framework mem_client (apps_ns sample_ready) (rr_Cluster sample_ready)
     = ((\<lparr>dist_Name = ''Standalone'', dist_Version = ''v2.19.0''\<rparr>, distributionOK, None), sample_cluster)"
  "fw_isStatusConditionTrue (sample_framework :: cluster framework) (rr_Instance sample_ready) ''DeploymentsAvailable''"
  "fw_semver (sample_framework :: cluster framework) ''0.0.0''"
  "Distribution (Status (rr_Instance sample_ready)) = emptyDistribution"
  by code_simp+

theorem readPlatformDistribution_classifies_witness:
  "dist_valid (sample_framework :: cluster framework)
     (fst (fst (readPlatformDistribution sample_framework mem_client ''odh'' sample_cluster)))"
  using readPlatformDistribution_classifies [OF _ sample_config_read(1) refl refl sample_config_read(2)]
  unfolding sample_config_read(2) fst_conv by blast

theorem distribution_stays_valid_witness:
  "dist_valid (sample_framework :: cluster framework)
     (Distribution (Status (rr_Instance (snd (distributionAction sample_framework mem_client [] sample_ready)))))"
proof -
  have "Distribution (Status (rr_Instance (snd (distributionAction sample_framework mem_client [] sample_ready))))
      \<noteq> emptyDistribution" by code_simp
  then show ?thesis
    using distribution_stays_valid [OF sample_config_read(5) disjI1 [OF sample_config_read(6)]] by blast
qed

theorem distributionAction_converges_witness:
  "Distribution (Status (rr_Instance (snd (distributionAction sample_framework mem_client [] sample_ready))))
     = \<lparr>dist_Name = ''Standalone'', dist_Version = ''v2.19.0''\<rparr>"
  using distributionAction_converges [OF sample_config_read(4,3), of "[]"] by simp

theorem platformReleaseAction_handshake_witness:
  "platformReleaseAction sample_framework mem_client sample_ready =
     (None, sample_ready\<lparr>rr_Instance := (rr_Instance sample_ready)\<lparr>Status :=
        fw_setPlatformRelease (sample_framework :: cluster framework) ''3.0'' (Status (rr_Instance sample_ready))\<rparr>\<rparr>)"
proof -
  have "\<not> removed sample_ready" "apps_ns sample_ready = ''odh''" "rr_Cluster sample_ready = sample_cluster"
    "gomap_get (obj_Data sample_config) ''platformVersion'' = ''3.0''" by code_simp+
  moreover have "sample_ready\<lparr>rr_Cluster := sample_cluster\<rparr> = sample_ready"
    using \<open>rr_Cluster sample_ready = sample_cluster\<close> by simp
  ultimately show ?thesis
    using platformReleaseAction_handshake [of sample_framework mem_client sample_ready] sample_config_read(1,4)
    by (simp add: PlatformConfigMapName_def)
qed

end
