(* ===== verification/Render.thy ===== *)
theory Render
  imports Ray_Types Mem_Cluster
begin

text \<open>
  What becomes of the manifests: \<^verbatim>\<open>render.go\<close> (the kustomize render of every manifest, the
  namespace forced on namespaced objects, the part-of label stamped on everything but CRDs),
  \<^verbatim>\<open>dependencies.go\<close> (the check for the cert-manager CRDs) and \<^verbatim>\<open>platform_filter.go\<close>
  (SecurityContextConstraints dropped where the API has none, in place, with the answer cached for
  the life of the process). The passes over the resources share the contract
  \<open>resource_transform\<close>. The kustomize engine, the CRD lookup and the REST mapper are parameters.
\<close>

section \<open>The passes over the rendered objects\<close>

definition force_namespace :: "string \<Rightarrow> kobj \<Rightarrow> kobj" where
  "force_namespace ns x = (if obj_Namespace x \<noteq> [] then x\<lparr>obj_Namespace := ns\<rparr> else x)"

definition forceNamespacedResources :: "string \<Rightarrow> kobj list \<Rightarrow> kobj list" where
  "forceNamespacedResources ns objs = (if ns = [] then objs else map (force_namespace ns) objs)"

definition stamp_label :: "kobj \<Rightarrow> kobj" where
  "stamp_label x =
     (if Kind (obj_GVK x) = ''CustomResourceDefinition'' then x
      else x\<lparr>obj_Labels := gomap_set DefaultPartOfLabelKey ComponentName (obj_Labels x)\<rparr>)"

definition stampPartOfLabels :: "kobj list \<Rightarrow> kobj list" where
  "stampPartOfLabels objs = map stamp_label objs"

section \<open>RenderKustomize\<close>

definition manifest_path :: "string \<Rightarrow> manifest_info \<Rightarrow> string" where
  "manifest_path renderBase m =
     (let p0 = mi_Path m;
          p1 = (if mi_ContextDir m \<noteq> [] then path_join [p0, mi_ContextDir m] else p0);
          p2 = (if mi_SourcePath m \<noteq> [] then path_join [p1, mi_SourcePath m] else p1)
      in path_join [renderBase, p2])"

text \<open>The loop over the manifests; what was rendered before an error stays in the request.\<close>

fun render_loop :: "'w framework \<Rightarrow> string \<Rightarrow> string \<Rightarrow> manifest_info list \<Rightarrow> 'w action" where
  "render_loop fw ns renderBase [] r = (None, r)"
| "render_loop fw ns renderBase (m # ms) r =
     (let path = manifest_path renderBase m
      in case fw_render fw path ns (rr_Files r) of
           Inl e \<Rightarrow> (Some (EWrap (''render manifests from '' @ path) e), r)
         | Inr resources \<Rightarrow>
             render_loop fw ns renderBase ms
               (r\<lparr>rr_Resources :=
                   rr_Resources r @ stampPartOfLabels (forceNamespacedResources ns resources)\<rparr>))"

definition RenderKustomize :: "'w framework \<Rightarrow> string \<Rightarrow> 'w getter \<Rightarrow> 'w action" where
  "RenderKustomize fw basePath nsFn r =
     (if rr_Manifests r = [] then (None, r)
      else case nsFn r of
        Inl e \<Rightarrow> (Some e, r)
      | Inr ns \<Rightarrow>
          (let renderBase =
                 (case ext_get r extKeyWritableManifests of
                    Some (EStr p) \<Rightarrow> if p \<noteq> [] then p else basePath
                  | _ \<Rightarrow> basePath)
           in case render_loop fw ns renderBase (rr_Manifests r) r of
                (Some e, r') \<Rightarrow> (Some e, r')
              | (None, r') \<Rightarrow> (None, r'\<lparr>rr_Generated := True\<rparr>)))"

section \<open>The cert-manager requirement\<close>

definition certManagerGVKs :: "gvk list" where
  "certManagerGVKs =
     [\<lparr>Group = ''cert-manager.io'', Version = ''v1'', Kind = ''Issuer''\<rparr>,
      \<lparr>Group = ''cert-manager.io'', Version = ''v1'', Kind = ''Certificate''\<rparr>]"

text \<open>The inner loop, which stops at the first resource of the kind.\<close>

fun has_gvk :: "gvk \<Rightarrow> kobj list \<Rightarrow> bool" where
  "has_gvk g [] = False"
| "has_gvk g (x # xs) = (if obj_GVK x = g then True else has_gvk g xs)"

fun required_loop :: "kobj list \<Rightarrow> gvk list \<Rightarrow> gvk list \<Rightarrow> gvk list" where
  "required_loop resources required [] = required"
| "required_loop resources required (g # gs) =
     required_loop resources (if has_gvk g resources then required @ [g] else required) gs"

definition requiredCertManagerGVKs :: "kobj list \<Rightarrow> gvk list" where
  "requiredCertManagerGVKs resources = required_loop resources [] certManagerGVKs"

text \<open>\<^verbatim>\<open>GroupVersionKind.String\<close>, as the verb \<^verbatim>\<open>%s\<close> prints it.\<close>

definition gvk_String :: "gvk \<Rightarrow> string" where
  "gvk_String g = Group g @ ''/'' @ Version g @ '', Kind='' @ Kind g"

fun require_crds :: "'w framework \<Rightarrow> gvk list \<Rightarrow> 'w \<Rightarrow> goerror option \<times> 'w" where
  "require_crds fw [] w = (None, w)"
| "require_crds fw (g # gs) w =
     (case fw_hasCRD fw g w of
        (Inl e, w') \<Rightarrow> (Some (EWrap (''check cert-manager '' @ Kind g @ '' CRD'') e), w')
      | (Inr available, w') \<Rightarrow>
          (if \<not> available
           then (Some (EText (''cert-manager is required by the Ray module: '' @ gvk_String g
                               @ '' CRD is not installed'')), w')
           else require_crds fw gs w'))"

definition certManagerRequirementAction :: "'w framework \<Rightarrow> 'w action" where
  "certManagerRequirementAction fw r =
     (if removed r then (None, r)
      else case require_crds fw (requiredCertManagerGVKs (rr_Resources r)) (rr_Cluster r) of
             (e, w) \<Rightarrow> (e, r\<lparr>rr_Cluster := w\<rparr>))"

section \<open>Platform-specific resources\<close>

definition sccGVK :: gvk where
  "sccGVK = \<lparr>Group = ''security.openshift.io'', Version = ''v1'', Kind = ''SecurityContextConstraints''\<rparr>"

definition is_scc :: "kobj \<Rightarrow> bool" where
  "is_scc x = (Kind (obj_GVK x) = Kind sccGVK \<and> Group (obj_GVK x) = Group sccGVK)"

text \<open>
  The loop over \<^verbatim>\<open>rr.Resources\<close> that appends to \<^verbatim>\<open>rr.Resources[:0]\<close>: one backing
  array, read at \<open>i\<close> and written at \<open>j\<close>. The first argument counts the iterations left. The
  appends never exceed the capacity, so the array is never reallocated.
\<close>

fun filter_loop :: "nat \<Rightarrow> nat \<Rightarrow> nat \<Rightarrow> kobj list \<Rightarrow> nat \<times> kobj list" where
  "filter_loop 0 i j arr = (j, arr)"
| "filter_loop (Suc k) i j arr =
     (let x = arr ! i
      in if is_scc x then filter_loop k (Suc i) j arr
         else filter_loop k (Suc i) (Suc j) (arr[j := x]))"

definition filterPlatformResources :: "'w framework \<Rightarrow> 'w action" where
  "filterPlatformResources fw r0 =
     (let r = (case rr_SCC r0 of
                 Some b \<Rightarrow> r0
               | None \<Rightarrow>
                   (case fw_restMapping fw (Group sccGVK) (Kind sccGVK) (Version sccGVK) (rr_Cluster r0) of
                      (err, w) \<Rightarrow> r0\<lparr>rr_Cluster := w, rr_SCC := Some (err = None)\<rparr>))
      in if rr_SCC r = Some True then (None, r)
         else case filter_loop (length (rr_Resources r)) 0 0 (rr_Resources r) of
                (j, arr) \<Rightarrow> (None, r\<lparr>rr_Resources := take j arr\<rparr>))"

section \<open>The contract of a pass\<close>

text \<open>A pass may set a namespace or a label of an object and is idempotent.\<close>

definition same_object :: "kobj \<Rightarrow> kobj \<Rightarrow> bool" where
  "same_object x y =
     (y\<lparr>obj_Namespace := obj_Namespace x, obj_Labels := obj_Labels x\<rparr> = x
      \<and> (obj_Namespace y = [] \<longleftrightarrow> obj_Namespace x = []))"

locale resource_transform =
  fixes f :: "kobj \<Rightarrow> kobj"
  assumes same: "same_object x (f x)"
    and idem: "f (f x) = f x"
begin

lemma identity:
  "obj_GVK (f x) = obj_GVK x" "obj_Name (f x) = obj_Name x" "obj_OwnerRefs (f x) = obj_OwnerRefs x"
  using same [of x] by (cases x; cases "f x"; simp add: same_object_def)+

lemma pass_identity: "map (\<lambda>x. (obj_GVK x, obj_Name x, obj_OwnerRefs x)) (map f xs)
    = map (\<lambda>x. (obj_GVK x, obj_Name x, obj_OwnerRefs x)) xs"
  by (simp add: identity)

lemma pass_idem: "map f (map f xs) = map f xs"
  by (simp add: idem)

end

text \<open>Two passes that do not interfere make one.\<close>

locale transform_pair = one: resource_transform f + two: resource_transform g
  for f :: "kobj \<Rightarrow> kobj" and g :: "kobj \<Rightarrow> kobj" +
  assumes commute: "f (g x) = g (f x)"
begin

lemma both_same: "same_object x (g (f x))"
  using one.same [of x] two.same [of "f x"]
  by (cases x; cases "f x"; cases "g (f x)") (auto simp: same_object_def)

lemma both_idem: "g (f (g (f x))) = g (f x)"
  by (simp add: commute one.idem two.idem)

end

sublocale transform_pair \<subseteq> both: resource_transform "\<lambda>x. g (f x)"
  by unfold_locales (rule both_same, rule both_idem)

definition force_pass :: "string \<Rightarrow> kobj \<Rightarrow> kobj" where
  "force_pass ns x = (if ns = [] then x else force_namespace ns x)"

lemma force_as_pass: "forceNamespacedResources ns objs = map (force_pass ns) objs"
  by (induction objs) (simp_all add: forceNamespacedResources_def force_pass_def)

interpretation rendered: transform_pair "force_pass ns" stamp_label for ns
proof (unfold_locales)
  fix x
  show "same_object x (force_pass ns x)" "force_pass ns (force_pass ns x) = force_pass ns x"
    by (simp_all add: same_object_def force_pass_def force_namespace_def)
  show "same_object x (stamp_label x)" "stamp_label (stamp_label x) = stamp_label x"
    by (simp_all add: same_object_def stamp_label_def gomap_set_def)
  show "force_pass ns (stamp_label x) = stamp_label (force_pass ns x)"
    by (simp add: force_pass_def force_namespace_def stamp_label_def)
qed

section \<open>Lemmas\<close>

text \<open>The module's pass over what the engine rendered.\<close>

definition operand_pass :: "string \<Rightarrow> kobj \<Rightarrow> kobj" where
  "operand_pass ns x = stamp_label (force_pass ns x)"

text \<open>What an object of the plan must satisfy.\<close>

definition operand_ok :: "string \<Rightarrow> kobj \<Rightarrow> bool" where
  "operand_ok ns x =
     ((ns \<noteq> [] \<longrightarrow> obj_Namespace x = [] \<or> obj_Namespace x = ns)
      \<and> (Kind (obj_GVK x) \<noteq> ''CustomResourceDefinition'' \<longrightarrow>
           gomap_get (obj_Labels x) ''platform.opendatahub.io/part-of'' = ''ray''))"

lemma operand_pass_ok: "operand_ok ns (operand_pass ns x)"
  by (auto simp: operand_ok_def operand_pass_def stamp_label_def force_pass_def force_namespace_def
      gomap_get_def gomap_set_def update_conv' constants_defs)

lemma operand_pass_exact:
  "operand_pass ns x = x\<lparr>obj_Namespace := (if obj_Namespace x = [] \<or> ns = [] then obj_Namespace x else ns),
      obj_Labels := obj_Labels (operand_pass ns x)\<rparr>
   \<and> (\<forall>k. map_of (obj_Labels (operand_pass ns x)) k =
        (if k = ''platform.opendatahub.io/part-of'' \<and> Kind (obj_GVK x) \<noteq> ''CustomResourceDefinition''
         then Some ''ray'' else map_of (obj_Labels x) k))"
  by (cases x) (auto simp: operand_pass_def stamp_label_def force_pass_def force_namespace_def gomap_set_def
      update_conv' constants_defs)

lemma passes_as_map:
  "stampPartOfLabels (forceNamespacedResources ns objs) = map (operand_pass ns) objs"
  by (simp add: stampPartOfLabels_def force_as_pass operand_pass_def)

lemma render_loop_result:
  assumes "render_loop fw ns base ms r = (e, r')"
  shows "\<exists>rendered k. k \<le> length ms
      \<and> list_all2 (\<lambda>m os. fw_render fw (manifest_path base m) ns (rr_Files r) = Inr os) (take k ms) rendered
      \<and> (e = None \<longleftrightarrow> k = length ms)
      \<and> r' = r\<lparr>rr_Resources := rr_Resources r @ map (operand_pass ns) (concat rendered)\<rparr>"
  using assms
proof (induction ms arbitrary: r)
  case Nil
  then show ?case by (intro exI [of _ "[]"] exI [of _ 0]) simp
next
  case (Cons m ms)
  show ?case
  proof (cases "fw_render fw (manifest_path base m) ns (rr_Files r)")
    case (Inl err)
    with Cons.prems show ?thesis by (intro exI [of _ "[]"] exI [of _ 0]) (auto simp: Let_def)
  next
    case (Inr os)
    with Cons.prems have "render_loop fw ns base ms
        (r\<lparr>rr_Resources := rr_Resources r @ map (operand_pass ns) os\<rparr>) = (e, r')"
      by (simp add: Let_def passes_as_map)
    from Cons.IH [OF this] obtain rendered k where "k \<le> length ms"
      and "list_all2 (\<lambda>m os. fw_render fw (manifest_path base m) ns (rr_Files r) = Inr os) (take k ms) rendered"
      and "e = None \<longleftrightarrow> k = length ms"
      and "r' = r\<lparr>rr_Resources := (rr_Resources r @ map (operand_pass ns) os) @ map (operand_pass ns) (concat rendered)\<rparr>"
      by auto
    with Inr show ?thesis by (intro exI [of _ "os # rendered"] exI [of _ "Suc k"]) simp
  qed
qed

lemma RenderKustomize_result:
  assumes "RenderKustomize fw base nsFn r = (e, r')"
  shows "rr_Instance r' = rr_Instance r \<and> rr_Manifests r' = rr_Manifests r \<and> rr_Files r' = rr_Files r
     \<and> rr_Extensions r' = rr_Extensions r \<and> rr_SCC r' = rr_SCC r \<and> rr_Cluster r' = rr_Cluster r
     \<and> (\<exists>ns os. (os = [] \<or> nsFn r = Inr ns) \<and> rr_Resources r' = rr_Resources r @ map (operand_pass ns) os)"
proof (cases "rr_Manifests r = [] \<or> isl (nsFn r)")
  case True
  with assms have "r' = r" by (auto simp: RenderKustomize_def isl_def split: if_splits)
  then show ?thesis by auto
next
  case False
  then obtain ns where ns: "nsFn r = Inr ns" by (cases "nsFn r") auto
  define b where "b = (case ext_get r extKeyWritableManifests of
      Some (EStr p) \<Rightarrow> if p \<noteq> [] then p else base | _ \<Rightarrow> base)"
  obtain e1 r1 where l: "render_loop fw ns b (rr_Manifests r) r = (e1, r1)"
    by (cases "render_loop fw ns b (rr_Manifests r) r")
  have r': "r' = r1 \<or> r' = r1\<lparr>rr_Generated := True\<rparr>"
    using assms False l by (auto simp: RenderKustomize_def ns b_def [symmetric] Let_def split: option.splits)
  from render_loop_result [OF l] obtain os where
    r1: "r1 = r\<lparr>rr_Resources := rr_Resources r @ map (operand_pass ns) os\<rparr>" by blast
  have "\<exists>ns os. (os = [] \<or> nsFn r = Inr ns) \<and> rr_Resources r' = rr_Resources r @ map (operand_pass ns) os"
    using ns r' r1 by (intro exI [of _ ns] exI [of _ os]) auto
  with r' r1 show ?thesis by auto
qed

lemma has_gvk_iff: "has_gvk g xs \<longleftrightarrow> g \<in> obj_GVK ` set xs"
  by (induction xs) auto

lemma required_loop_filter: "required_loop xs acc gs = acc @ filter (\<lambda>g. has_gvk g xs) gs"
  by (induction gs arbitrary: acc) auto

lemma required_set: "set (requiredCertManagerGVKs xs) = set certManagerGVKs \<inter> obj_GVK ` set xs"
  by (auto simp: requiredCertManagerGVKs_def required_loop_filter has_gvk_iff)

lemma sccGVK_fields [simp]:
  "Group sccGVK = ''security.openshift.io''" "Kind sccGVK = ''SecurityContextConstraints''"
  "Version sccGVK = ''v1''"
  by (simp_all add: sccGVK_def)

text \<open>The in-place loop computes the filter: invariant, the prefix written and the suffix unread.\<close>

lemma filter_loop_inv:
  assumes "filter_loop k i j arr = (j', arr')" and "i + k = length arr" and "j \<le> i"
  shows "take j' arr' = take j arr @ filter (\<lambda>x. \<not> is_scc x) (drop i arr) \<and> length arr' = length arr"
  using assms
proof (induction k arbitrary: i j arr)
  case (Suc k)
  then have i: "i < length arr" by simp
  then have d: "drop i arr = arr ! i # drop (Suc i) arr" by (simp add: Cons_nth_drop_Suc)
  show ?case
  proof (cases "is_scc (arr ! i)")
    case True
    with Suc.IH [of "Suc i" j arr] Suc.prems d show ?thesis by simp
  next
    case False
    let ?a = "arr[j := arr ! i]"
    have "take (Suc j) ?a = take j arr @ [arr ! i]"
      using Suc.prems i by (simp add: take_Suc_conv_app_nth)
    moreover have "drop (Suc i) ?a = drop (Suc i) arr" using Suc.prems by simp
    ultimately show ?thesis
      using False Suc.IH [of "Suc i" "Suc j" ?a] Suc.prems d by simp
  qed
qed simp

lemma filter_loop_filter:
  "filter_loop (length xs) 0 0 xs = (j, arr) \<Longrightarrow> take j arr = filter (\<lambda>x. \<not> is_scc x) xs"
  using filter_loop_inv [of "length xs" 0 0 xs j arr] by simp

lemma filterPlatform_result:
  "fst (filterPlatformResources fw r) = None"
  "rr_Instance (snd (filterPlatformResources fw r)) = rr_Instance r"
  "rr_Extensions (snd (filterPlatformResources fw r)) = rr_Extensions r"
  "rr_Manifests (snd (filterPlatformResources fw r)) = rr_Manifests r"
  "rr_Resources (snd (filterPlatformResources fw r)) =
     (if rr_SCC (snd (filterPlatformResources fw r)) = Some True then rr_Resources r
      else filter (\<lambda>x. \<not> is_scc x) (rr_Resources r))"
  "rr_SCC (snd (filterPlatformResources fw r)) =
     Some (case rr_SCC r of Some b \<Rightarrow> b
           | None \<Rightarrow> fst (fw_restMapping fw (Group sccGVK) (Kind sccGVK) (Version sccGVK) (rr_Cluster r)) = None)"
  by (auto simp: filterPlatformResources_def Let_def filter_loop_filter split: option.splits prod.splits)

lemma certManager_instance: "rr_Instance (snd (certManagerRequirementAction fw r)) = rr_Instance r"
  by (simp add: certManagerRequirementAction_def split: prod.splits)

interpretation cert_manager: gated_action "certManagerRequirementAction fw" for fw
  by unfold_locales (simp_all add: certManager_instance, simp add: certManagerRequirementAction_def)

interpretation platform_filter: status_action "filterPlatformResources fw" for fw
  by unfold_locales (simp add: filterPlatform_result)

interpretation render: status_action "RenderKustomize fw base nsFn" for fw base nsFn
proof
  fix r
  show "cr_frame (rr_Instance r) (rr_Instance (snd (RenderKustomize fw base nsFn r)))"
    using RenderKustomize_result [OF prod.collapse [symmetric], of fw base nsFn r] by simp
qed

section \<open>Properties\<close>

text \<open>
  C28. What a successful render adds to the plan: for every manifest, in order, the objects the
  engine rendered from the writable copy (the base path without one), each exactly as rendered but for
  two fields: an object that has a namespace gets the requested one (unless that is empty), a
  cluster-scoped one gets none, and everything but a CRD gets the part-of label beside the labels it has.
  Objects already in the request stay, and the request is marked generated and otherwise untouched.
\<close>

theorem RenderKustomize_plan:
  assumes "RenderKustomize fw base nsFn r = (None, r')" and "rr_Manifests r \<noteq> []" and "nsFn r = Inr ns"
  shows "\<exists>rendered new.
      list_all2 (\<lambda>m os. fw_render fw
          (manifest_path (case ext_get r extKeyWritableManifests of
             Some (EStr p) \<Rightarrow> if p \<noteq> [] then p else base | _ \<Rightarrow> base) m) ns (rr_Files r) = Inr os)
        (rr_Manifests r) rendered
      \<and> r' = r\<lparr>rr_Resources := rr_Resources r @ new, rr_Generated := True\<rparr>
      \<and> list_all2 (\<lambda>x y.
            y = x\<lparr>obj_Namespace := (if obj_Namespace x = [] \<or> ns = [] then obj_Namespace x else ns),
                  obj_Labels := obj_Labels y\<rparr>
            \<and> (\<forall>k. map_of (obj_Labels y) k =
                 (if k = ''platform.opendatahub.io/part-of'' \<and> Kind (obj_GVK x) \<noteq> ''CustomResourceDefinition''
                  then Some ''ray'' else map_of (obj_Labels x) k)))
          (concat rendered) new"
proof -
  define b where "b = (case ext_get r extKeyWritableManifests of
      Some (EStr p) \<Rightarrow> if p \<noteq> [] then p else base | _ \<Rightarrow> base)"
  obtain e1 r1 where l: "render_loop fw ns b (rr_Manifests r) r = (e1, r1)"
    by (cases "render_loop fw ns b (rr_Manifests r) r")
  then have r': "e1 = None" "r' = r1\<lparr>rr_Generated := True\<rparr>"
    using assms by (auto simp: RenderKustomize_def b_def [symmetric] Let_def split: option.splits)
  from render_loop_result [OF l] r' obtain rendered where
      "list_all2 (\<lambda>m os. fw_render fw (manifest_path b m) ns (rr_Files r) = Inr os) (rr_Manifests r) rendered"
    and "r' = r\<lparr>rr_Resources := rr_Resources r @ map (operand_pass ns) (concat rendered), rr_Generated := True\<rparr>"
    by auto
  moreover have "list_all2 (\<lambda>x y.
            y = x\<lparr>obj_Namespace := (if obj_Namespace x = [] \<or> ns = [] then obj_Namespace x else ns),
                  obj_Labels := obj_Labels y\<rparr>
            \<and> (\<forall>k. map_of (obj_Labels y) k =
                 (if k = ''platform.opendatahub.io/part-of'' \<and> Kind (obj_GVK x) \<noteq> ''CustomResourceDefinition''
                  then Some ''ray'' else map_of (obj_Labels x) k))) xs (map (operand_pass ns) xs)" for xs
    unfolding list_all2_map2 by (rule list.rel_refl) (rule operand_pass_exact)
  ultimately show ?thesis unfolding b_def by blast
qed

text \<open>
  The two passes over rendered objects are idempotent and independent of their order: running
  them again on their own result, or the label pass first, gives the same objects.
\<close>

theorem render_passes_stable:
  "stampPartOfLabels (forceNamespacedResources ns (stampPartOfLabels (forceNamespacedResources ns xs)))
     = stampPartOfLabels (forceNamespacedResources ns xs)
   \<and> forceNamespacedResources ns (stampPartOfLabels xs) = stampPartOfLabels (forceNamespacedResources ns xs)"
  using rendered.both.pass_idem [of ns xs]
  by (simp add: stampPartOfLabels_def force_as_pass rendered.commute)

text \<open>
  C30. The cert-manager gate is exact: with a CRD lookup that tells what is installed, a managed
  reconcile passes exactly when every cert-manager kind among its resources (Issuer, Certificate)
  has its CRD; otherwise the pipeline stops with an error before anything is deployed. Resources are
  left alone either way.
\<close>

theorem certManagerRequirementAction_exact:
  assumes "\<And>g w. fw_hasCRD fw g w = (Inr (g \<in> installed), w)" and "\<not> removed r"
    and "certManagerRequirementAction fw r = (e, r')"
  shows "r' = r
    \<and> (e = None \<longleftrightarrow>
        (\<forall>x \<in> set (rr_Resources r).
           Group (obj_GVK x) = ''cert-manager.io'' \<and> Version (obj_GVK x) = ''v1''
             \<and> Kind (obj_GVK x) \<in> {''Issuer'', ''Certificate''} \<longrightarrow> obj_GVK x \<in> installed))"
proof -
  have loop: "require_crds fw gs w = (fst (require_crds fw gs w), w)
      \<and> (fst (require_crds fw gs w) = None \<longleftrightarrow> set gs \<subseteq> installed)" for gs w
    by (induction gs) (auto simp: assms(1))
  have "r' = r" and e: "e = fst (require_crds fw (requiredCertManagerGVKs (rr_Resources r)) (rr_Cluster r))"
    using assms(2,3) loop [of "requiredCertManagerGVKs (rr_Resources r)" "rr_Cluster r"]
    by (auto simp: certManagerRequirementAction_def split: prod.splits)
  moreover have "g \<in> set certManagerGVKs \<longleftrightarrow>
      Group g = ''cert-manager.io'' \<and> Version g = ''v1'' \<and> Kind g \<in> {''Issuer'', ''Certificate''}" for g :: gvk
    unfolding certManagerGVKs_def list.set insert_iff empty_iff by (cases g) (simp only: gvk.simps; blast)
  moreover have "e = None \<longleftrightarrow> set (requiredCertManagerGVKs (rr_Resources r)) \<subseteq> installed"
    using e loop by simp
  ultimately show ?thesis unfolding required_set by (simp only: subset_eq Int_iff ball_simps) blast
qed

text \<open>
  C29. The in-place filter is exact: over one backing array, it leaves every object that is no
  SecurityContextConstraints, in order and once, and it does so exactly when the answer of the REST
  mapper (asked once, remembered from then on) was an error. The action cannot fail.
\<close>

theorem filterPlatformResources_exact:
  "\<exists>r'. filterPlatformResources fw r = (None, r')
     \<and> rr_SCC r' = Some (case rr_SCC r of
           Some known \<Rightarrow> known
         | None \<Rightarrow> fst (fw_restMapping fw ''security.openshift.io'' ''SecurityContextConstraints'' ''v1'' (rr_Cluster r)) = None)
     \<and> rr_Resources r' =
         (if rr_SCC r' = Some True then rr_Resources r
          else filter (\<lambda>x. \<not> (Group (obj_GVK x) = ''security.openshift.io''
                            \<and> Kind (obj_GVK x) = ''SecurityContextConstraints'')) (rr_Resources r))"
proof -
  have "is_scc x \<longleftrightarrow> Group (obj_GVK x) = ''security.openshift.io''
      \<and> Kind (obj_GVK x) = ''SecurityContextConstraints''" for x
    by (auto simp: is_scc_def)
  then show ?thesis
    using filterPlatform_result [of fw r] by (cases "filterPlatformResources fw r"; cases "rr_SCC r") simp_all
qed

text \<open>
  C39. One failed lookup costs the cluster its SecurityContextConstraints for the life of the
  process: whatever error the REST mapper returned on the first reconcile (a discovery timeout as
  well as a missing API), every later reconcile drops them, whatever the mapper would answer by
  then.
\<close>

theorem transient_mapping_error_is_kept:
  assumes "rr_SCC r = None"
    and "fst (fw_restMapping fw ''security.openshift.io'' ''SecurityContextConstraints'' ''v1'' (rr_Cluster r)) = Some err"
    and "rr_SCC later = rr_SCC (snd (filterPlatformResources fw r))"
  shows "\<forall>x \<in> set (rr_Resources (snd (filterPlatformResources fw' later))).
           \<not> (Group (obj_GVK x) = ''security.openshift.io'' \<and> Kind (obj_GVK x) = ''SecurityContextConstraints'')"
proof -
  have "rr_SCC later = Some False"
    using assms(1-3) by (simp add: filterPlatform_result)
  then have "rr_Resources (snd (filterPlatformResources fw' later)) = filter (\<lambda>x. \<not> is_scc x) (rr_Resources later)"
    by (simp add: filterPlatform_result)
  then show ?thesis by (auto simp: is_scc_def)
qed

section \<open>Witnesses\<close>

definition sample_object :: "gvk \<Rightarrow> string \<Rightarrow> string \<Rightarrow> kobj" where
  "sample_object g ns name =
     \<lparr>obj_GVK = g, obj_Namespace = ns, obj_Name = name, obj_Labels = [], obj_OwnerRefs = [],
      obj_Data = [], obj_Rules = [], obj_Body = []\<rparr>"

definition sample_rendered :: "kobj list" where
  "sample_rendered =
     [sample_object \<lparr>Group = ''apps'', Version = ''v1'', Kind = ''Deployment''\<rparr> ''redhat-ods'' ''kuberay-operator'',
      sample_object sccGVK [] ''ray-scc'',
      sample_object (hd certManagerGVKs) ''redhat-ods'' ''issuer'']"

definition sample_renderer :: "cluster framework" where
  "sample_renderer =
     sample_framework\<lparr>fw_render := (\<lambda>p ns fs. if p = ''/w/kuberay/openshift'' then Inr sample_rendered
                                            else Inl (EExt ''kustomize'')),
       fw_hasCRD := (\<lambda>g w. (Inr (g \<in> set (tl certManagerGVKs)), w)),
       fw_restMapping := (\<lambda>g k v w. (Some (EExt ''timeout''), w))\<rparr>"

definition sample_empty_cluster :: cluster where
  "sample_empty_cluster = \<lparr>cl_Ray = Some sample_ray, cl_Objs = []\<rparr>"

definition sample_plan :: "cluster rr" where
  "sample_plan =
     (sample_rr [] sample_empty_cluster)\<lparr>
       rr_Extensions := Some [(''ray.writableManifests'', EStr ''/w'')],
       rr_Manifests := [\<lparr>mi_Path = ''kuberay'', mi_ContextDir = ''openshift'', mi_SourcePath = []\<rparr>]\<rparr>"

definition sample_rendered_plan :: "cluster rr" where
  "sample_rendered_plan = snd (RenderKustomize sample_renderer ''/opt/manifests'' (\<lambda>r. Inr (apps_ns r)) sample_plan)"

lemma two_fields:
  "y = x\<lparr>obj_Namespace := n, obj_Labels := l\<rparr> \<Longrightarrow> obj_Body y = obj_Body x \<and> obj_Data y = obj_Data x \<and> obj_Name y = obj_Name x"
  by simp

theorem RenderKustomize_plan_witness:
  "(\<exists>rendered. list_all2 (\<lambda>(x :: kobj) y. obj_Body y = obj_Body x \<and> obj_Data y = obj_Data x \<and> obj_Name y = obj_Name x)
      (concat rendered) (rr_Resources sample_rendered_plan))
   \<and> map obj_Name (rr_Resources sample_rendered_plan) = [''kuberay-operator'', ''ray-scc'', ''issuer'']"
proof -
  have "RenderKustomize sample_renderer ''/opt/manifests'' (\<lambda>r. Inr (apps_ns r)) sample_plan
      = (None, sample_rendered_plan)" and m: "rr_Manifests sample_plan \<noteq> []"
    and ns: "apps_ns sample_plan = ''odh''" and e: "rr_Resources sample_plan = []"
    and n: "map obj_Name (rr_Resources sample_rendered_plan) = [''kuberay-operator'', ''ray-scc'', ''issuer'']"
    by code_simp+
  have f: "Inr (apps_ns sample_plan) = (Inr ''odh'' :: goerror + string)" using ns by simp
  from RenderKustomize_plan [OF \<open>RenderKustomize sample_renderer ''/opt/manifests'' (\<lambda>r. Inr (apps_ns r)) sample_plan
      = (None, sample_rendered_plan)\<close> m f] obtain rendered new where
    plan: "sample_rendered_plan = sample_plan\<lparr>rr_Resources := rr_Resources sample_plan @ new, rr_Generated := True\<rparr>"
    and new: "list_all2 (\<lambda>x y. y = x\<lparr>obj_Namespace := (if obj_Namespace x = [] \<or> ''odh'' = [] then obj_Namespace x else ''odh''),
                  obj_Labels := obj_Labels y\<rparr>
            \<and> (\<forall>k. map_of (obj_Labels y) k =
                 (if k = ''platform.opendatahub.io/part-of'' \<and> Kind (obj_GVK x) \<noteq> ''CustomResourceDefinition''
                  then Some ''ray'' else map_of (obj_Labels x) k))) (concat rendered) new" by blast
  have "rr_Resources sample_rendered_plan = new" by (subst plan) (simp add: e)
  moreover have "list_all2 (\<lambda>x y. obj_Body y = obj_Body x \<and> obj_Data y = obj_Data x \<and> obj_Name y = obj_Name x)
      (concat rendered) new"
    using new by (rule list.rel_mono_strong) (use two_fields in blast)
  ultimately show ?thesis using n by (intro conjI exI [of _ rendered]) simp_all
qed

theorem certManagerRequirementAction_exact_witness:
  "fst (certManagerRequirementAction sample_renderer sample_rendered_plan) \<noteq> None"
proof -
  have crd: "fw_hasCRD sample_renderer g w = (Inr (g \<in> set (tl certManagerGVKs)), w)" for g w
    by (simp add: sample_renderer_def)
  have "\<not> removed sample_rendered_plan"
    and "\<exists>x \<in> set (rr_Resources sample_rendered_plan).
        (Group (obj_GVK x) = ''cert-manager.io'' \<and> Version (obj_GVK x) = ''v1''
          \<and> Kind (obj_GVK x) \<in> {''Issuer'', ''Certificate''}) \<and> obj_GVK x \<notin> set (tl certManagerGVKs)"
    by code_simp+
  with certManagerRequirementAction_exact [OF crd _ prod.collapse [symmetric], of sample_rendered_plan]
  show ?thesis by blast
qed

theorem transient_mapping_error_is_kept_witness:
  "list_all (\<lambda>x. Kind (obj_GVK x) \<noteq> ''SecurityContextConstraints'' \<or> Group (obj_GVK x) \<noteq> ''security.openshift.io'')
     (rr_Resources (snd (filterPlatformResources sample_framework
       (sample_rendered_plan\<lparr>rr_SCC := rr_SCC (snd (filterPlatformResources sample_renderer sample_rendered_plan))\<rparr>))))"
proof -
  have "rr_SCC sample_rendered_plan = None" by code_simp
  moreover have "fst (fw_restMapping sample_renderer ''security.openshift.io'' ''SecurityContextConstraints'' ''v1''
      (rr_Cluster sample_rendered_plan)) = Some (EExt ''timeout'')" by (simp add: sample_renderer_def)
  ultimately show ?thesis
    using transient_mapping_error_is_kept [of sample_rendered_plan sample_renderer "EExt ''timeout''"
        "sample_rendered_plan\<lparr>rr_SCC := rr_SCC (snd (filterPlatformResources sample_renderer sample_rendered_plan))\<rparr>"
        sample_framework]
    unfolding list_all_iff by fastforce
qed

end
