(* ===== verification/Owned_GC.thy ===== *)
theory Owned_GC
  imports Ray_Types Mem_Cluster
begin

text \<open>
  \<^verbatim>\<open>owned_gc.go\<close>: the direct deletion of operands. For every listed kind (the namespaced ones
  in the applications namespace, then the cluster-scoped ones) the objects are listed and those that
  the custom resource owns or that carry the component's part-of label are deleted. Against a client
  that lists and deletes as documented (\<open>list_lawful\<close>, \<open>delete_lawful\<close>), the theorems say that
  exactly those objects go, and what is safe when a call fails on the way. An item of a list that is
  not a \<^verbatim>\<open>client.Object\<close> is \<open>None\<close> here. The action as the framework calls it, with
  requests that may lack their client or instance, is \<open>deleteOwnedOperands_request\<close>.
\<close>

definition namespacedOwnedLists :: "gvk list" where
  "namespacedOwnedLists =
     [\<lparr>Group = ''apps'', Version = ''v1'', Kind = ''Deployment''\<rparr>,
      \<lparr>Group = [], Version = ''v1'', Kind = ''ConfigMap''\<rparr>,
      \<lparr>Group = [], Version = ''v1'', Kind = ''Service''\<rparr>,
      \<lparr>Group = [], Version = ''v1'', Kind = ''ServiceAccount''\<rparr>]"

definition clusterOwnedLists :: "gvk list" where
  "clusterOwnedLists =
     [\<lparr>Group = ''admissionregistration.k8s.io'', Version = ''v1'', Kind = ''MutatingWebhookConfiguration''\<rparr>,
      \<lparr>Group = ''rbac.authorization.k8s.io'', Version = ''v1'', Kind = ''ClusterRole''\<rparr>,
      \<lparr>Group = ''rbac.authorization.k8s.io'', Version = ''v1'', Kind = ''ClusterRoleBinding''\<rparr>]"

definition labeledOperand :: "kobj \<Rightarrow> bool" where
  "labeledOperand obj = (gomap_get (obj_Labels obj) DefaultPartOfLabelKey = ComponentName)"

fun owner_loop :: "string list \<Rightarrow> string \<Rightarrow> bool" where
  "owner_loop [] ownerUID = False"
| "owner_loop (ref # refs) ownerUID = (if ref = ownerUID then True else owner_loop refs ownerUID)"

definition ownedByUID :: "kobj \<Rightarrow> string \<Rightarrow> bool" where
  "ownedByUID obj ownerUID = (if ownerUID = [] then False else owner_loop (obj_OwnerRefs obj) ownerUID)"

fun delete_items :: "'w client \<Rightarrow> string \<Rightarrow> kobj option list \<Rightarrow> 'w \<Rightarrow> goerror option \<times> 'w" where
  "delete_items cli ownerUID [] w = (None, w)"
| "delete_items cli ownerUID (None # items) w = delete_items cli ownerUID items w"
| "delete_items cli ownerUID (Some obj # items) w =
     (if \<not> ownedByUID obj ownerUID \<and> \<not> labeledOperand obj then delete_items cli ownerUID items w
      else case cli_delete cli obj w of
             (err, w') \<Rightarrow>
               (case err of
                  Some k \<Rightarrow>
                    if k \<noteq> NotFound
                    then (Some (EWrap (''delete owned '' @ obj_Namespace obj @ ''/'' @ obj_Name obj) (EKube k)), w')
                    else delete_items cli ownerUID items w'
                | None \<Rightarrow> delete_items cli ownerUID items w'))"

definition deleteOwnedFromList ::
  "'w client \<Rightarrow> string \<Rightarrow> gvk \<Rightarrow> string option \<Rightarrow> 'w \<Rightarrow> goerror option \<times> 'w" where
  "deleteOwnedFromList cli ownerUID g inNamespace w =
     (case cli_list cli g inNamespace w of
        (Inl err, w') \<Rightarrow>
          (if err = NotFound \<or> err = NoMatch \<or> err = NotRegistered then (None, w')
           else (Some (EWrap (''list *'' @ Version g @ ''.'' @ Kind g @ ''List for owned-operand GC'') (EKube err)), w'))
      | (Inr list, w') \<Rightarrow>
          (case cli_extractList cli list of
             Inl err \<Rightarrow> (Some (EWrap (''extract *'' @ Version g @ ''.'' @ Kind g @ ''List'') err), w')
           | Inr items \<Rightarrow> delete_items cli ownerUID items w'))"

fun delete_lists ::
  "'w client \<Rightarrow> string \<Rightarrow> string option \<Rightarrow> gvk list \<Rightarrow> 'w \<Rightarrow> goerror option \<times> 'w" where
  "delete_lists cli ownerUID inNamespace [] w = (None, w)"
| "delete_lists cli ownerUID inNamespace (g # gs) w =
     (case deleteOwnedFromList cli ownerUID g inNamespace w of
        (Some e, w') \<Rightarrow> (Some e, w')
      | (None, w') \<Rightarrow> delete_lists cli ownerUID inNamespace gs w')"

definition deleteOwnedOperands :: "'w client \<Rightarrow> 'w action" where
  "deleteOwnedOperands cli r =
     (let ray = rr_Instance r
      in if meta_UID ray = [] then (None, r)
         else let ns = ApplicationsNamespace (Spec ray)
              in case (if ns \<noteq> [] then delete_lists cli (meta_UID ray) (Some ns) namespacedOwnedLists (rr_Cluster r)
                       else (None, rr_Cluster r)) of
                   (Some e, w) \<Rightarrow> (Some e, r\<lparr>rr_Cluster := w\<rparr>)
                 | (None, w) \<Rightarrow>
                     (case delete_lists cli (meta_UID ray) None clusterOwnedLists w of
                        (e, w') \<Rightarrow> (e, r\<lparr>rr_Cluster := w'\<rparr>)))"

text \<open>
  The action as the framework calls it: the request, its client and its instance may be nil, and the
  instance may be of another type; then the action does nothing. \<open>rq_Rest\<close> are the fields of the
  request that the deletion leaves alone.
\<close>

datatype platform_object = RayObject ray | OtherObject string

record 'w nilable_request =
  rq_Client :: "'w client option"
  rq_Instance :: "platform_object option"
  rq_Rest :: "'w rr"

definition deleteOwnedOperands_request :: "'w nilable_request option \<Rightarrow> goerror option \<times> 'w nilable_request option" where
  "deleteOwnedOperands_request rr =
     (case rr of
        None \<Rightarrow> (None, rr)
      | Some q \<Rightarrow>
          (case rq_Client q of
             None \<Rightarrow> (None, rr)
           | Some cli \<Rightarrow>
               (case rq_Instance q of
                  None \<Rightarrow> (None, rr)
                | Some (OtherObject t) \<Rightarrow> (None, rr)
                | Some (RayObject ray) \<Rightarrow>
                    (case deleteOwnedOperands cli ((rq_Rest q)\<lparr>rr_Instance := ray\<rparr>) of
                       (e, r') \<Rightarrow> (e, Some (q\<lparr>rq_Rest := (rq_Rest q)\<lparr>rr_Cluster := rr_Cluster r'\<rparr>\<rparr>))))))"

section \<open>What is to go\<close>

text \<open>An object in the scope of the lists that the resource owns or that carries the label.\<close>

definition doomed :: "string \<Rightarrow> kobj \<Rightarrow> bool" where
  "doomed uid x = ((uid \<noteq> [] \<and> uid \<in> set (obj_OwnerRefs x))
      \<or> gomap_get (obj_Labels x) ''platform.opendatahub.io/part-of'' = ''ray'')"

definition listed :: "string \<Rightarrow> kobj \<Rightarrow> bool" where
  "listed ns x =
     ((ns \<noteq> [] \<and> obj_GVK x \<in> set namespacedOwnedLists \<and> obj_Namespace x = ns)
      \<or> obj_GVK x \<in> set clusterOwnedLists)"

definition operand_target :: "ray \<Rightarrow> kobj \<Rightarrow> bool" where
  "operand_target ray x =
     (meta_UID ray \<noteq> [] \<and> doomed (meta_UID ray) x \<and> listed (ApplicationsNamespace (Spec ray)) x)"

text \<open>A client whose calls meet no other errors than those the code takes for an absent object.\<close>

definition calls_succeed :: "'w client \<Rightarrow> bool" where
  "calls_succeed cli =
     ((\<forall>g ns w err. fst (cli_list cli g ns w) = Inl err \<longrightarrow> err \<in> {NotFound, NoMatch, NotRegistered})
      \<and> (\<forall>x w err. fst (cli_delete cli x w) = Some err \<longrightarrow> err = NotFound)
      \<and> (\<forall>items err. cli_extractList cli items \<noteq> Inl err))"

text \<open>
  A call on the list of kind \<open>g\<close> that failed, the error the deletion makes of it, and the state it
  left: a list call with an error other than absence, an extraction, or the deletion of an item that
  was to go, with an error other than absence.
\<close>

inductive list_fault :: "'w client \<Rightarrow> string \<Rightarrow> gvk \<Rightarrow> string option \<Rightarrow> goerror \<Rightarrow> 'w \<Rightarrow> bool"
  for cli uid g ns where
  list: "cli_list cli g ns w = (Inl err, w') \<Longrightarrow> err \<notin> {NotFound, NoMatch, NotRegistered} \<Longrightarrow>
    list_fault cli uid g ns
      (EWrap (''list *'' @ Version g @ ''.'' @ Kind g @ ''List for owned-operand GC'') (EKube err)) w'"
| extraction: "cli_list cli g ns w = (Inr items, w') \<Longrightarrow> cli_extractList cli items = Inl err \<Longrightarrow>
    list_fault cli uid g ns (EWrap (''extract *'' @ Version g @ ''.'' @ Kind g @ ''List'') err) w'"
| deletion: "cli_list cli g ns w = (Inr items, w1) \<Longrightarrow> cli_extractList cli items = Inr objs \<Longrightarrow>
    Some x \<in> set objs \<Longrightarrow> doomed uid x \<Longrightarrow> cli_delete cli x w2 = (Some err, w') \<Longrightarrow> err \<noteq> NotFound \<Longrightarrow>
    list_fault cli uid g ns (EWrap (''delete owned '' @ obj_Namespace x @ ''/'' @ obj_Name x) (EKube err)) w'"

inductive_cases list_faultE: "list_fault cli uid g ns e w'"

section \<open>Lemmas\<close>

lemma owner_loop_iff: "owner_loop refs uid \<longleftrightarrow> uid \<in> set refs"
  by (induction refs) auto

lemma selected_iff: "ownedByUID x uid \<or> labeledOperand x \<longleftrightarrow> doomed uid x"
  by (auto simp: ownedByUID_def labeledOperand_def doomed_def owner_loop_iff constants_defs)

text \<open>
  The two effects a run of the deletions has on the live objects: \<open>spares\<close>, whatever happened,
  and \<open>clears\<close>, when it succeeded.
\<close>

definition spares :: "(kobj \<Rightarrow> bool) \<Rightarrow> kobj list \<Rightarrow> kobj list \<Rightarrow> bool" where
  "spares P before after = (set after \<subseteq> set before \<and> (\<forall>x \<in> set before. \<not> P x \<longrightarrow> x \<in> set after))"

definition clears :: "(kobj \<Rightarrow> bool) \<Rightarrow> kobj list \<Rightarrow> kobj list \<Rightarrow> bool" where
  "clears P before after = (set after = {x \<in> set before. \<not> P x})"

definition distinct_keys :: "kobj list \<Rightarrow> bool" where
  "distinct_keys xs = inj_on obj_key (set xs)"

lemma spares_refl [simp]: "spares P xs xs"
  by (simp add: spares_def)

lemma spares_trans: "spares P xs ys \<Longrightarrow> spares Q ys zs \<Longrightarrow> spares (\<lambda>x. P x \<or> Q x) xs zs"
  by (auto simp: spares_def)

lemma spares_mono: "spares P xs ys \<Longrightarrow> (\<And>x. x \<in> set xs \<Longrightarrow> P x \<Longrightarrow> Q x) \<Longrightarrow> spares Q xs ys"
  by (auto simp: spares_def)

lemma spares_keys: "spares P xs ys \<Longrightarrow> distinct_keys xs \<Longrightarrow> distinct_keys ys"
  by (auto simp: spares_def distinct_keys_def intro: inj_on_subset)

lemma clears_spares: "clears P xs ys \<Longrightarrow> spares P xs ys"
  by (auto simp: clears_def spares_def)

lemma clears_trans: "clears P xs ys \<Longrightarrow> clears Q ys zs \<Longrightarrow> clears (\<lambda>x. P x \<or> Q x) xs zs"
  by (auto simp: clears_def)

lemma clears_mono: "clears P xs ys \<Longrightarrow> (\<And>x. x \<in> set xs \<Longrightarrow> P x = Q x) \<Longrightarrow> clears Q xs ys"
  by (auto simp: clears_def)

text \<open>An item of a list call: live, or its key is not.\<close>

definition item_of :: "kobj list \<Rightarrow> kobj \<Rightarrow> bool" where
  "item_of live x = (x \<in> set live \<or> obj_key x \<notin> obj_key ` set live)"

lemma delete_one:
  assumes "delete_lawful cli view" and "distinct_keys (view w)" and "item_of (view w) x"
    and "cli_delete cli x w = (err, w')"
  shows "spares (\<lambda>y. y = x) (view w) (view w')"
    and "err = None \<or> err = Some NotFound \<Longrightarrow> clears (\<lambda>y. y = x) (view w) (view w')"
proof -
  have d: "set (view w') = (if err = None \<or> err = Some NotFound
      then {y \<in> set (view w). obj_key y \<noteq> obj_key x} else set (view w))"
    using assms(1,4) unfolding delete_lawful_def by blast
  moreover have "y \<in> set (view w) \<Longrightarrow> obj_key y = obj_key x \<longleftrightarrow> y = x" for y
    using assms(2,3) unfolding distinct_keys_def item_of_def by (metis image_eqI inj_onD)
  ultimately show c: "err = None \<or> err = Some NotFound \<Longrightarrow> clears (\<lambda>y. y = x) (view w) (view w')"
    by (auto simp: clears_def)
  show "spares (\<lambda>y. y = x) (view w) (view w')"
  proof (cases "err = None \<or> err = Some NotFound")
    case True
    with c show ?thesis by (blast intro: clears_spares)
  next
    case False
    with d show ?thesis by (auto simp: spares_def)
  qed
qed

lemma item_of_shrinks: "spares P xs ys \<Longrightarrow> distinct_keys xs \<Longrightarrow> item_of xs x \<Longrightarrow> item_of ys x"
  unfolding item_of_def spares_def distinct_keys_def by (metis image_iff inj_onD subsetD)

lemma delete_items_effect:
  assumes "delete_lawful cli view" and "distinct_keys (view w)" and "\<forall>x \<in> set items. item_of (view w) x"
    and "delete_items cli uid (map Some items) w = (e, w')"
  shows "spares (\<lambda>x. x \<in> set items \<and> doomed uid x) (view w) (view w')
    \<and> (e = None \<longrightarrow> clears (\<lambda>x. x \<in> set items \<and> doomed uid x) (view w) (view w'))"
  using assms(2-4)
proof (induction items arbitrary: w)
  case Nil
  then show ?case by (simp add: spares_def clears_def)
next
  case (Cons x items)
  show ?case
  proof (cases "doomed uid x")
    case False
    then have "delete_items cli uid (map Some items) w = (e, w')" using Cons.prems(3) selected_iff [of x uid] by simp
    with Cons.IH [OF Cons.prems(1)] Cons.prems(2) False show ?thesis
      by (auto elim!: spares_mono clears_mono)
  next
    case True
    obtain err w1 where d: "cli_delete cli x w = (err, w1)" by (cases "cli_delete cli x w")
    have x: "item_of (view w) x" using Cons.prems(2) by simp
    note one = delete_one [OF assms(1) Cons.prems(1) x d]
    show ?thesis
    proof (cases "err = None \<or> err = Some NotFound")
      case ok: True
      have run: "delete_items cli uid (map Some items) w1 = (e, w')"
        using Cons.prems(3) True d ok selected_iff [of x uid] by auto
      have "\<forall>y \<in> set items. item_of (view w1) y"
        using Cons.prems(1,2) item_of_shrinks [OF one(1)] by simp
      note ih = Cons.IH [OF spares_keys [OF one(1) Cons.prems(1)] this run]
      from spares_trans [OF one(1) conjunct1 [OF ih]] True
      have "spares (\<lambda>y. y \<in> set (x # items) \<and> doomed uid y) (view w) (view w')"
        by (auto elim!: spares_mono)
      moreover have "clears (\<lambda>y. y \<in> set (x # items) \<and> doomed uid y) (view w) (view w')" if "e = None"
        using clears_trans [OF one(2) [OF ok] mp [OF conjunct2 [OF ih] that]] True
        by (auto elim!: clears_mono)
      ultimately show ?thesis by blast
    next
      case False
      then have "e \<noteq> None" and "w' = w1"
        using Cons.prems(3) True d selected_iff [of x uid] by (auto split: option.splits if_splits)
      with one(1) True show ?thesis by (auto elim!: spares_mono)
    qed
  qed
qed

lemma deleteOwnedFromList_effect:
  assumes "list_lawful cli view" and "delete_lawful cli view" and "distinct_keys (view w)"
    and "deleteOwnedFromList cli uid g ns w = (e, w')"
  shows "spares (\<lambda>x. in_scope g ns x \<and> doomed uid x) (view w) (view w')
    \<and> (e = None \<longrightarrow> clears (\<lambda>x. in_scope g ns x \<and> doomed uid x) (view w) (view w'))"
proof -
  obtain res w1 where l: "cli_list cli g ns w = (res, w1)" by (cases "cli_list cli g ns w")
  have law: "view w1 = view w" "case res of
             Inr items \<Rightarrow> {x \<in> set (view w). in_scope g ns x} \<subseteq> set items
               \<and> (\<forall>x \<in> set items. in_scope g ns x \<and> (x \<in> set (view w) \<or> obj_key x \<notin> obj_key ` set (view w)))
           | Inl err \<Rightarrow> err \<in> {NotFound, NoMatch, NotRegistered} \<longrightarrow> (\<forall>x \<in> set (view w). \<not> in_scope g ns x)"
    using assms(1) l unfolding list_lawful_def by blast+
  have ex: "extract_lawful cli" using assms(1) unfolding list_lawful_def by blast
  show ?thesis
  proof (cases res)
    case (Inl err)
    then show ?thesis using l law assms(4)
      by (auto simp: deleteOwnedFromList_def spares_def clears_def split: if_splits)
  next
    case (Inr items)
    have items: "\<forall>x \<in> set items. item_of (view w1) x" using law Inr by (auto simp: item_of_def)
    show ?thesis
    proof (cases "cli_extractList cli items")
      case failed: (Inl err)
      then have "e \<noteq> None" "w' = w1" using l Inr assms(4) by (auto simp: deleteOwnedFromList_def)
      with law(1) show ?thesis by auto
    next
      case extracted: (Inr objs)
      have "delete_items cli uid (map Some items) w1 = (e, w')"
        using l Inr extracted extract_lawfulD [OF ex extracted] assms(4) by (simp add: deleteOwnedFromList_def)
      with items have "spares (\<lambda>x. x \<in> set items \<and> doomed uid x) (view w) (view w')
        \<and> (e = None \<longrightarrow> clears (\<lambda>x. x \<in> set items \<and> doomed uid x) (view w) (view w'))"
        using delete_items_effect [OF assms(2), of w1 items uid e w'] assms(3) law(1) by simp
      then show ?thesis using law(2) Inr by (auto elim!: spares_mono clears_mono)
    qed
  qed
qed

lemma delete_lists_effect:
  assumes "list_lawful cli view" and "delete_lawful cli view" and "distinct_keys (view w)"
    and "delete_lists cli uid ns gs w = (e, w')"
  shows "spares (\<lambda>x. (\<exists>g \<in> set gs. in_scope g ns x) \<and> doomed uid x) (view w) (view w')
    \<and> (e = None \<longrightarrow> clears (\<lambda>x. (\<exists>g \<in> set gs. in_scope g ns x) \<and> doomed uid x) (view w) (view w'))"
  using assms(3,4)
proof (induction gs arbitrary: w)
  case Nil
  then show ?case by (simp add: spares_def clears_def)
next
  case (Cons g gs)
  obtain err w1 where d: "deleteOwnedFromList cli uid g ns w = (err, w1)"
    by (cases "deleteOwnedFromList cli uid g ns w")
  note one = deleteOwnedFromList_effect [OF assms(1,2) Cons.prems(1) d]
  show ?case
  proof (cases err)
    case None
    have run: "delete_lists cli uid ns gs w1 = (e, w')" using Cons.prems(2) d None by simp
    note ih = Cons.IH [OF spares_keys [OF conjunct1 [OF one] Cons.prems(1)] run]
    from spares_trans [OF conjunct1 [OF one] conjunct1 [OF ih]]
    have "spares (\<lambda>x. (\<exists>g \<in> set (g # gs). in_scope g ns x) \<and> doomed uid x) (view w) (view w')"
      by (auto elim!: spares_mono)
    moreover have "clears (\<lambda>x. (\<exists>g \<in> set (g # gs). in_scope g ns x) \<and> doomed uid x) (view w) (view w')"
      if "e = None"
      using clears_trans [OF mp [OF conjunct2 [OF one] None] mp [OF conjunct2 [OF ih] that]]
      by (auto elim!: clears_mono)
    ultimately show ?thesis by blast
  next
    case (Some x)
    then have "e \<noteq> None" and "w' = w1" using Cons.prems(2) d by auto
    with one show ?thesis by (auto elim!: spares_mono)
  qed
qed

lemma scope_ns: "(\<exists>g \<in> set gs. in_scope g (Some ns) x) \<longleftrightarrow> obj_GVK x \<in> set gs \<and> obj_Namespace x = ns"
  and scope_cluster: "(\<exists>g \<in> set gs. in_scope g None x) \<longleftrightarrow> obj_GVK x \<in> set gs"
  by (auto simp: in_scope_def)

lemma deleteOwnedOperands_effect:
  assumes "list_lawful cli view" and "delete_lawful cli view" and "distinct_keys (view (rr_Cluster r))"
    and "deleteOwnedOperands cli r = (e, r')"
  shows "spares (operand_target (rr_Instance r)) (view (rr_Cluster r)) (view (rr_Cluster r'))
    \<and> (e = None \<longrightarrow> clears (operand_target (rr_Instance r)) (view (rr_Cluster r)) (view (rr_Cluster r')))"
proof (cases "meta_UID (rr_Instance r) = []")
  case True
  with assms(4) show ?thesis
    by (auto simp: deleteOwnedOperands_def Let_def spares_def clears_def operand_target_def)
next
  case False
  let ?u = "meta_UID (rr_Instance r)" and ?ns = "apps_ns r" and ?v = "view (rr_Cluster r)"
  let ?P = "\<lambda>x. (?ns \<noteq> [] \<and> obj_GVK x \<in> set namespacedOwnedLists \<and> obj_Namespace x = ?ns) \<and> doomed ?u x"
  let ?Q = "\<lambda>x. obj_GVK x \<in> set clusterOwnedLists \<and> doomed ?u x"
  have target: "operand_target (rr_Instance r) = (\<lambda>x. ?P x \<or> ?Q x)"
    using False by (auto simp: operand_target_def listed_def fun_eq_iff)
  obtain e1 w1 where one: "(if ?ns \<noteq> [] then delete_lists cli ?u (Some ?ns) namespacedOwnedLists (rr_Cluster r)
      else (None, rr_Cluster r)) = (e1, w1)" by fastforce
  have p: "spares ?P ?v (view w1) \<and> (e1 = None \<longrightarrow> clears ?P ?v (view w1))"
  proof (cases "?ns = []")
    case True
    with one show ?thesis by (auto simp: spares_def clears_def)
  next
    case False
    with delete_lists_effect [OF assms(1,2,3), of ?u "Some ?ns" namespacedOwnedLists e1 w1] one show ?thesis
      by (simp add: scope_ns)
  qed
  show ?thesis
  proof (cases e1)
    case None
    obtain e2 w2 where two: "delete_lists cli ?u None clusterOwnedLists w1 = (e2, w2)"
      by (cases "delete_lists cli ?u None clusterOwnedLists w1")
    have r': "e = e2" "rr_Cluster r' = w2"
      using assms(4) False one None two by (auto simp: deleteOwnedOperands_def Let_def)
    have q: "spares ?Q (view w1) (view w2) \<and> (e2 = None \<longrightarrow> clears ?Q (view w1) (view w2))"
      using delete_lists_effect [OF assms(1,2) spares_keys [OF conjunct1 [OF p] assms(3)] two]
      by (simp add: scope_cluster)
    from spares_trans [OF conjunct1 [OF p] conjunct1 [OF q]]
    have "spares (operand_target (rr_Instance r)) ?v (view w2)" by (simp only: target)
    moreover have "clears (operand_target (rr_Instance r)) ?v (view w2)" if "e2 = None"
      using clears_trans [OF mp [OF conjunct2 [OF p] None] mp [OF conjunct2 [OF q] that]] by (simp only: target)
    ultimately show ?thesis using r' by blast
  next
    case (Some x)
    then have "e \<noteq> None" "rr_Cluster r' = w1"
      using assms(4) False one by (auto simp: deleteOwnedOperands_def Let_def)
    with p target show ?thesis by (auto elim!: spares_mono)
  qed
qed

lemma calls_succeedD:
  assumes "calls_succeed cli"
  shows "cli_list cli g ns w = (Inl err, w') \<Longrightarrow> err = NotFound \<or> err = NoMatch \<or> err = NotRegistered"
    and "cli_delete cli x w = (Some err, w') \<Longrightarrow> err = NotFound"
    and "cli_extractList cli items \<noteq> Inl gerr"
  using assms unfolding calls_succeed_def by (metis fst_conv insert_iff empty_iff)+

lemma delete_items_succeed:
  assumes "calls_succeed cli"
  shows "fst (delete_items cli uid items w) = None"
proof (induction items arbitrary: w)
  case (Cons item items)
  then show ?case
    by (cases item) (auto split: prod.splits option.splits dest: calls_succeedD(2) [OF assms])
qed simp

lemma delete_list_succeed:
  assumes "calls_succeed cli"
  shows "fst (deleteOwnedFromList cli uid g ns w) = None"
  using delete_items_succeed [OF assms]
  by (auto simp: deleteOwnedFromList_def calls_succeedD(3) [OF assms]
      split: prod.splits sum.splits dest: calls_succeedD(1) [OF assms])

lemma delete_lists_succeed:
  assumes "calls_succeed cli"
  shows "fst (delete_lists cli uid ns gs w) = None"
proof (induction gs arbitrary: w)
  case (Cons g gs)
  obtain w1 where "deleteOwnedFromList cli uid g ns w = (None, w1)"
    using delete_list_succeed [OF assms, of uid g ns w] by (metis prod.collapse)
  with Cons show ?case by simp
qed simp

lemma deleteOwnedOperands_succeeds:
  assumes "calls_succeed cli"
  shows "fst (deleteOwnedOperands cli r) = None"
proof -
  have run: "\<exists>w'. delete_lists cli uid ns gs w = (None, w')" for uid ns gs w
    using delete_lists_succeed [OF assms, of uid ns gs w] by (metis prod.collapse)
  obtain w1 where "delete_lists cli (meta_UID (rr_Instance r)) (Some (apps_ns r)) namespacedOwnedLists (rr_Cluster r)
      = (None, w1)" using run by blast
  moreover obtain w2 where "delete_lists cli (meta_UID (rr_Instance r)) None clusterOwnedLists
      (if apps_ns r = [] then rr_Cluster r else w1) = (None, w2)" using run by blast
  ultimately show ?thesis by (auto simp: deleteOwnedOperands_def Let_def split: if_splits)
qed

lemma delete_items_fault:
  assumes "delete_items cli uid objs w = (Some e, w')"
  shows "\<exists>x w2 err. Some x \<in> set objs \<and> doomed uid x \<and> cli_delete cli x w2 = (Some err, w') \<and> err \<noteq> NotFound
    \<and> e = EWrap (''delete owned '' @ obj_Namespace x @ ''/'' @ obj_Name x) (EKube err)"
  using assms
proof (induction objs arbitrary: w)
  case (Cons item objs)
  show ?case
  proof (cases "\<exists>w1. delete_items cli uid objs w1 = (Some e, w')")
    case True
    with Cons.IH show ?thesis by (metis list.set_intros(2))
  next
    case False
    then obtain x where x: "item = Some x" "doomed uid x"
      using Cons.prems by (cases item) (auto simp: selected_iff [symmetric] split: if_splits)
    with False Cons.prems obtain err where "cli_delete cli x w = (Some err, w')" "err \<noteq> NotFound"
      "e = EWrap (''delete owned '' @ obj_Namespace x @ ''/'' @ obj_Name x) (EKube err)"
      by (auto simp: selected_iff [symmetric] split: prod.splits option.splits if_splits)
    with x show ?thesis by (metis list.set_intros(1))
  qed
qed simp

lemma delete_list_fault:
  assumes "deleteOwnedFromList cli uid g ns w = (Some e, w')"
  shows "list_fault cli uid g ns e w'"
proof -
  obtain res w1 where l: "cli_list cli g ns w = (res, w1)" by (cases "cli_list cli g ns w")
  show ?thesis
  proof (cases res)
    case (Inl err)
    with l assms list_fault.list [of cli g ns w err w1 uid] show ?thesis
      by (auto simp: deleteOwnedFromList_def split: if_splits)
  next
    case items: (Inr items)
    show ?thesis
    proof (cases "cli_extractList cli items")
      case (Inl err)
      with l items assms list_fault.extraction [of cli g ns w items w1 err uid] show ?thesis
        by (auto simp: deleteOwnedFromList_def)
    next
      case (Inr objs)
      with l items assms have "delete_items cli uid objs w1 = (Some e, w')" by (simp add: deleteOwnedFromList_def)
      with delete_items_fault list_fault.deletion [of cli g ns w items w1 objs] l items Inr show ?thesis by metis
    qed
  qed
qed

lemma delete_lists_fault:
  assumes "delete_lists cli uid ns gs w = (Some e, w')"
  shows "\<exists>g \<in> set gs. list_fault cli uid g ns e w'"
  using assms
proof (induction gs arbitrary: w)
  case (Cons g gs)
  then show ?case
    by (auto split: prod.splits option.splits dest: delete_list_fault)
qed simp

lemma deleteOwnedOperands_frame: "\<exists>w. snd (deleteOwnedOperands cli r) = r\<lparr>rr_Cluster := w\<rparr>"
proof (cases "meta_UID (rr_Instance r) = []")
  case True
  then show ?thesis by (intro exI [of _ "rr_Cluster r"]) (simp add: deleteOwnedOperands_def Let_def)
next
  case False
  then show ?thesis
    by (auto simp: deleteOwnedOperands_def Let_def split: prod.splits option.splits)
qed

text \<open>
  The guards of the action: a nil request, one without client or instance, or one for another type is
  left as it is without an error; for a Ray it is the deletion with the client of the request.
\<close>

lemma same_cluster [simp]: "q\<lparr>rq_Rest := (rq_Rest q)\<lparr>rr_Cluster := rr_Cluster (rq_Rest q)\<rparr>\<rparr> = q"
  by (cases q; cases "rq_Rest q") simp

lemma request_guards:
  assumes "deleteOwnedOperands_request rr \<noteq> (None, rr)"
  shows "\<exists>q cli ray. rr = Some q \<and> rq_Client q = Some cli \<and> rq_Instance q = Some (RayObject ray) \<and> meta_UID ray \<noteq> []"
  using assms
  by (auto simp: deleteOwnedOperands_request_def deleteOwnedOperands_def
      split: option.splits platform_object.splits prod.splits if_splits)

lemma request_of_ray:
  "deleteOwnedOperands_request (Some \<lparr>rq_Client = Some cli, rq_Instance = Some (RayObject (rr_Instance r)), rq_Rest = r\<rparr>)
   = (fst (deleteOwnedOperands cli r),
      Some \<lparr>rq_Client = Some cli, rq_Instance = Some (RayObject (rr_Instance r)), rq_Rest = snd (deleteOwnedOperands cli r)\<rparr>)"
proof -
  obtain w where "snd (deleteOwnedOperands cli r) = r\<lparr>rr_Cluster := w\<rparr>"
    using deleteOwnedOperands_frame [of cli r] by blast
  then obtain e where d: "deleteOwnedOperands cli r = (e, r\<lparr>rr_Cluster := w\<rparr>)" by (metis prod.collapse)
  moreover have "r\<lparr>rr_Instance := rr_Instance r\<rparr> = r" by simp
  ultimately show ?thesis by (simp add: deleteOwnedOperands_request_def)
qed

interpretation owned_gc: status_action "deleteOwnedOperands cli" for cli
proof
  fix r
  obtain w where "snd (deleteOwnedOperands cli r) = r\<lparr>rr_Cluster := w\<rparr>"
    using deleteOwnedOperands_frame [of cli r] by blast
  then show "cr_frame (rr_Instance r) (rr_Instance (snd (deleteOwnedOperands cli r)))" by simp
qed

section \<open>Properties\<close>

text \<open>
  C9. Total correctness of the operand deletion: with a client that lists and deletes as documented
  and meets no error but absence, it succeeds, and of the live objects exactly those go that are of a
  listed kind (in the applications namespace, for the namespaced ones) and are owned by the custom
  resource or carry its part-of label.
\<close>

theorem deleteOwnedOperands_exact:
  assumes "list_lawful cli view" and "delete_lawful cli view" and "calls_succeed cli"
    and "inj_on obj_key (set (view (rr_Cluster r)))"
    and "meta_UID (rr_Instance r) \<noteq> []"
    and "deleteOwnedOperands cli r = (e, r')"
  shows "e = None
    \<and> set (view (rr_Cluster r')) =
        {x \<in> set (view (rr_Cluster r)).
           \<not> ((meta_UID (rr_Instance r) \<in> set (obj_OwnerRefs x)
               \<or> gomap_get (obj_Labels x) ''platform.opendatahub.io/part-of'' = ''ray'')
              \<and> ((apps_ns r \<noteq> [] \<and> obj_GVK x \<in> set namespacedOwnedLists \<and> obj_Namespace x = apps_ns r)
                 \<or> obj_GVK x \<in> set clusterOwnedLists))}"
proof -
  have "e = None" using deleteOwnedOperands_succeeds [OF assms(3), of r] assms(6) by simp
  with deleteOwnedOperands_effect [OF assms(1,2) _ assms(6)] assms(4,5) show ?thesis
    by (auto simp: distinct_keys_def clears_def operand_target_def doomed_def listed_def)
qed

text \<open>
  C14. The deletion is safe on every path: whatever list or delete call fails on the way and with
  whatever error, nothing appears, and no live object is lost that is not a target; CRDs in
  particular survive, and without a UID (a resource that was never stored) nothing is touched.
\<close>

theorem deleteOwnedOperands_safe:
  assumes "list_lawful cli view" and "delete_lawful cli view"
    and "inj_on obj_key (set (view (rr_Cluster r)))"
    and "deleteOwnedOperands cli r = (e, r')"
  shows "set (view (rr_Cluster r')) \<subseteq> set (view (rr_Cluster r))
    \<and> (\<forall>x \<in> set (view (rr_Cluster r)). x \<notin> set (view (rr_Cluster r')) \<longrightarrow>
         operand_target (rr_Instance r) x \<and> Kind (obj_GVK x) \<noteq> ''CustomResourceDefinition'')
    \<and> (meta_UID (rr_Instance r) = [] \<longrightarrow> e = None \<and> r' = r)"
proof -
  have "Kind g \<noteq> ''CustomResourceDefinition''" if "g \<in> set namespacedOwnedLists \<or> g \<in> set clusterOwnedLists" for g
    using that by (auto simp: namespacedOwnedLists_def clusterOwnedLists_def)
  then have "operand_target (rr_Instance r) x \<Longrightarrow> Kind (obj_GVK x) \<noteq> ''CustomResourceDefinition''" for x
    unfolding operand_target_def listed_def by metis
  moreover have "meta_UID (rr_Instance r) = [] \<longrightarrow> e = None \<and> r' = r"
    using assms(4) by (auto simp: deleteOwnedOperands_def)
  ultimately show ?thesis
    using deleteOwnedOperands_effect [OF assms(1,2) _ assms(4)] assms(3)
    by (simp only: distinct_keys_def spares_def simp_thms) blast
qed

text \<open>
  C15. Every error of the operand deletion is accounted for: it is the wrapped error of one call, on the
  list of a kind in scope, that failed with something other than absence, and the state returned is the
  one that call left, so that nothing is called after the first failure; there is none without a UID.
\<close>

theorem deleteOwnedOperands_error_exact:
  assumes "deleteOwnedOperands cli r = (Some e, r')"
  shows "meta_UID (rr_Instance r) \<noteq> []
    \<and> ((apps_ns r \<noteq> [] \<and> (\<exists>g \<in> set namespacedOwnedLists.
           list_fault cli (meta_UID (rr_Instance r)) g (Some (apps_ns r)) e (rr_Cluster r')))
       \<or> (\<exists>g \<in> set clusterOwnedLists. list_fault cli (meta_UID (rr_Instance r)) g None e (rr_Cluster r')))"
proof -
  have u: "meta_UID (rr_Instance r) \<noteq> []" using assms by (auto simp: deleteOwnedOperands_def)
  with assms show ?thesis
    by (fastforce simp: deleteOwnedOperands_def Let_def split: prod.splits option.splits if_splits
        dest: delete_lists_fault)
qed

section \<open>Witnesses\<close>

definition sample_operands :: cluster where
  "sample_operands =
     (let o1 = \<lambda>g ns n ls os. \<lparr>obj_GVK = g, obj_Namespace = ns, obj_Name = n, obj_Labels = ls, obj_OwnerRefs = os,
                obj_Data = [], obj_Rules = [], obj_Body = []\<rparr>
      in \<lparr>cl_Ray = Some sample_ray,
          cl_Objs =
            [o1 (namespacedOwnedLists ! 0) ''odh'' ''kuberay-operator'' [] [''u1''],
             o1 (namespacedOwnedLists ! 0) ''other'' ''kuberay-operator'' [] [''u1''],
             o1 (namespacedOwnedLists ! 1) ''odh'' ''odh-ray-config'' [] [],
             o1 (clusterOwnedLists ! 0) [] ''ray-webhook'' [(''platform.opendatahub.io/part-of'', ''ray'')] []]\<rparr>)"

lemma mem_client_succeeds: "calls_succeed mem_client"
  by (auto simp: calls_succeed_def mem_client_def split: if_splits)

lemma sample_operands_facts:
  "inj_on obj_key (set (cl_Objs (rr_Cluster (sample_rr [] sample_operands))))"
  "meta_UID (rr_Instance (sample_rr [] sample_operands)) \<noteq> []"
  by (simp_all add: sample_operands_def sample_rr_def sample_ray_def Let_def obj_key_def
      namespacedOwnedLists_def clusterOwnedLists_def)

theorem deleteOwnedOperands_exact_witness:
  "map (\<lambda>x. (obj_Namespace x, obj_Name x)) (cl_Objs (rr_Cluster (snd (deleteOwnedOperands mem_client (sample_rr [] sample_operands)))))
     = [(''other'', ''kuberay-operator''), (''odh'', ''odh-ray-config'')]
   \<and> fst (deleteOwnedOperands mem_client (sample_rr [] sample_operands)) = None"
proof
  show "map (\<lambda>x. (obj_Namespace x, obj_Name x)) (cl_Objs (rr_Cluster (snd (deleteOwnedOperands mem_client (sample_rr [] sample_operands)))))
     = [(''other'', ''kuberay-operator''), (''odh'', ''odh-ray-config'')]"
    by code_simp
  show "fst (deleteOwnedOperands mem_client (sample_rr [] sample_operands)) = None"
    using deleteOwnedOperands_exact [OF mem_client_lawful(1,2) mem_client_succeeds sample_operands_facts
        prod.collapse [symmetric]]
    by blast
qed

theorem deleteOwnedOperands_error_exact_witness:
  "\<exists>e. fst (deleteOwnedOperands (denying_client (clusterOwnedLists ! 0)) (sample_rr [] sample_operands)) = Some e
     \<and> list_ex (\<lambda>g. list_fault (denying_client (clusterOwnedLists ! 0)) ''u1'' g None e
         (rr_Cluster (snd (deleteOwnedOperands (denying_client (clusterOwnedLists ! 0)) (sample_rr [] sample_operands)))))
         clusterOwnedLists
     \<and> e = EWrap ''delete owned /ray-webhook'' (EKube (OtherKube ''forbidden''))"
proof -
  let ?cli = "denying_client (clusterOwnedLists ! 0)" and ?r = "sample_rr [] sample_operands"
  have e: "fst (deleteOwnedOperands ?cli ?r) = Some (EWrap ''delete owned /ray-webhook'' (EKube (OtherKube ''forbidden'')))"
    by code_simp
  then have run: "deleteOwnedOperands ?cli ?r
      = (Some (EWrap ''delete owned /ray-webhook'' (EKube (OtherKube ''forbidden''))), snd (deleteOwnedOperands ?cli ?r))"
    by (metis prod.collapse)
  have "meta_UID (rr_Instance ?r) = ''u1''" by code_simp
  moreover have "\<not> list_fault ?cli uid g (Some n) (EWrap ''delete owned /ray-webhook'' (EKube (OtherKube ''forbidden''))) w"
    if "g \<in> set namespacedOwnedLists" for uid g n w
    using that by (auto elim!: list_faultE simp: denying_client_def mem_client_def in_scope_def
        namespacedOwnedLists_def clusterOwnedLists_def split: if_splits)
  ultimately show ?thesis using deleteOwnedOperands_error_exact [OF run] e by (auto simp: list_ex_iff)
qed

theorem deleteOwnedOperands_safe_witness:
  "set (cl_Objs (rr_Cluster (snd (deleteOwnedOperands (denying_client (clusterOwnedLists ! 0)) (sample_rr [] sample_operands)))))
     \<subseteq> set (cl_Objs sample_operands)
   \<and> fst (deleteOwnedOperands (denying_client (clusterOwnedLists ! 0)) (sample_rr [] sample_operands)) \<noteq> None"
proof
  show "fst (deleteOwnedOperands (denying_client (clusterOwnedLists ! 0)) (sample_rr [] sample_operands)) \<noteq> None"
    by code_simp
  have "rr_Cluster (sample_rr [] sample_operands) = sample_operands" by (simp add: sample_rr_def)
  then show "set (cl_Objs (rr_Cluster (snd (deleteOwnedOperands (denying_client (clusterOwnedLists ! 0))
      (sample_rr [] sample_operands))))) \<subseteq> set (cl_Objs sample_operands)"
    using deleteOwnedOperands_safe [OF denying_client_lawful sample_operands_facts(1) prod.collapse [symmetric]]
    by simp
qed

end
