(* ===== verification/Notebook_RBAC.thy ===== *)
theory Notebook_RBAC
  imports Owned_GC
begin

text \<open>
  \<^verbatim>\<open>notebook_rbac.go\<close>: the ClusterRole \<^verbatim>\<open>ray\<close> that workbenches bind to notebooks, its
  creation, update and deletion; and the permissions of the module's own service account, which the
  markers of \<^verbatim>\<open>ray_controller.go\<close> declare. The theorems: the role grants nothing the module
  does not hold (Kubernetes would refuse it otherwise), the markers cover every call the modelled code
  makes and do not cover the deletion of CRDs, applying yields exactly the desired role without
  owners, and deleting leaves none.
\<close>

section \<open>The module's permissions\<close>

definition mk_rule :: "string list \<Rightarrow> string list \<Rightarrow> string list \<Rightarrow> policy_rule" where
  "mk_rule gs rs vs = \<lparr>APIGroups = gs, Resources = rs, Verbs = vs\<rparr>"

definition crud :: "string list" where
  "crud = [''get'', ''list'', ''watch'', ''create'', ''update'', ''patch'', ''delete'']"

definition readonly :: "string list" where
  "readonly = [''get'', ''list'', ''watch'']"

definition rbac_markers :: "policy_rule list" where
  "rbac_markers =
     [mk_rule [''components.platform.opendatahub.io''] [''rays''] crud,
      mk_rule [''components.platform.opendatahub.io''] [''rays/status''] [''get'', ''update'', ''patch''],
      mk_rule [''components.platform.opendatahub.io''] [''rays/finalizers''] [''update''],
      mk_rule [''apps''] [''deployments''] crud,
      mk_rule [''''] [''services'', ''configmaps'', ''serviceaccounts'', ''persistentvolumeclaims''] crud,
      mk_rule [''''] [''namespaces''] readonly,
      mk_rule [''''] [''events''] crud,
      mk_rule [''events.k8s.io''] [''events''] [''create'', ''patch''],
      mk_rule [''''] [''pods'', ''pods/status'', ''pods/proxy'', ''pods/resize'', ''secrets'', ''services/proxy'',
                      ''services/status''] (crud @ [''deletecollection'']),
      mk_rule [''authentication.k8s.io''] [''tokenreviews''] [''create''],
      mk_rule [''authorization.k8s.io''] [''subjectaccessreviews''] [''create''],
      mk_rule [''batch''] [''jobs''] crud,
      mk_rule [''cert-manager.io''] [''certificates'', ''issuers''] crud,
      mk_rule [''cert-manager.io''] [''certificates/status''] [''get'', ''update'', ''patch''],
      mk_rule [''discovery.k8s.io''] [''endpointslices''] readonly,
      mk_rule [''extensions''] [''ingresses''] crud,
      mk_rule [''gateway.networking.k8s.io''] [''gateways'', ''httproutes'', ''referencegrants''] crud,
      mk_rule [''networking.k8s.io''] [''ingresses'', ''ingressclasses'', ''networkpolicies''] crud,
      mk_rule [''operator.openshift.io''] [''kubeapiservers'', ''kubeapiservers/status''] readonly,
      mk_rule [''config.openshift.io''] [''apiservers''] readonly,
      mk_rule [''route.openshift.io''] [''routes''] crud,
      mk_rule [''ray.io''] [''rayclusters'', ''rayjobs'', ''rayservices'', ''raycronjobs''] (crud @ [''deletecollection'']),
      mk_rule [''ray.io''] [''rayclusters/finalizers'', ''rayjobs/finalizers'', ''rayservices/finalizers'',
                            ''raycronjobs/finalizers''] [''get'', ''update''],
      mk_rule [''ray.io''] [''rayclusters/status'', ''rayservices/status'', ''raycronjobs/status'']
        [''get'', ''list'', ''update'', ''patch''],
      mk_rule [''ray.io''] [''rayjobs/status''] [''get'', ''list'', ''update'', ''patch'', ''create'', ''delete''],
      mk_rule [''rbac.authorization.k8s.io''] [''clusterroles'', ''clusterrolebindings'', ''roles'', ''rolebindings''] crud,
      mk_rule [''admissionregistration.k8s.io''] [''mutatingwebhookconfigurations'', ''validatingwebhookconfigurations''] crud,
      mk_rule [''apiextensions.k8s.io''] [''customresourcedefinitions'']
        [''get'', ''list'', ''watch'', ''create'', ''update'', ''patch''],
      mk_rule [''security.openshift.io''] [''securitycontextconstraints''] crud,
      mk_rule [''coordination.k8s.io''] [''leases''] crud]"

text \<open>One permission: a group, a resource and a verb; a rule grants all combinations of its lists.\<close>

definition grants :: "policy_rule list \<Rightarrow> string \<Rightarrow> string \<Rightarrow> string \<Rightarrow> bool" where
  "grants rules g res verb =
     list_ex (\<lambda>r. g \<in> set (APIGroups r) \<and> res \<in> set (Resources r) \<and> verb \<in> set (Verbs r)) rules"

section \<open>The role\<close>

definition notebookClusterRoleName :: string where
  "notebookClusterRoleName = ''ray''"

definition ClusterRoleGVK :: gvk where
  "ClusterRoleGVK = \<lparr>Group = ''rbac.authorization.k8s.io'', Version = ''v1'', Kind = ''ClusterRole''\<rparr>"

definition notebookClusterRole :: kobj where
  "notebookClusterRole =
     \<lparr>obj_GVK = ClusterRoleGVK, obj_Namespace = [], obj_Name = notebookClusterRoleName,
      obj_Labels = [(''app.kubernetes.io/managed-by'', ''ray-module-operator''),
                    (DefaultPartOfLabelKey, ComponentName)],
      obj_OwnerRefs = [], obj_Data = [],
      obj_Rules =
        [mk_rule [''ray.io''] [''rayjobs''] [''get'', ''list'', ''create'', ''patch'', ''delete''],
         mk_rule [''ray.io''] [''rayjobs/status''] [''get'', ''list''],
         mk_rule [''ray.io''] [''rayclusters''] [''get'', ''list''],
         mk_rule [''ray.io''] [''rayclusters/status''] [''get'', ''list''],
         mk_rule [''''] [''secrets''] [''create'']],
      obj_Body = []\<rparr>"

definition applyNotebookClusterRole :: "'w client \<Rightarrow> 'w action" where
  "applyNotebookClusterRole cli r =
     (let desired = notebookClusterRole;
          existing = \<lparr>obj_GVK = ClusterRoleGVK, obj_Namespace = [], obj_Name = notebookClusterRoleName,
                      obj_Labels = [], obj_OwnerRefs = [], obj_Data = [], obj_Rules = [], obj_Body = []\<rparr>
      in case cli_createOrUpdate cli existing
                (\<lambda>x. x\<lparr>obj_Labels := obj_Labels desired, obj_Rules := obj_Rules desired, obj_OwnerRefs := []\<rparr>)
                (rr_Cluster r) of
           (Some err, w) \<Rightarrow> (Some (EWrap (''apply notebook ClusterRole '' @ quote notebookClusterRoleName) (EKube err)), r\<lparr>rr_Cluster := w\<rparr>)
         | (None, w) \<Rightarrow> (None, r\<lparr>rr_Cluster := w\<rparr>))"

definition deleteNotebookClusterRole :: "'w client \<Rightarrow> 'w action" where
  "deleteNotebookClusterRole cli r =
     (case cli_get cli ClusterRoleGVK notebookClusterRoleName [] (rr_Cluster r) of
        (Inl err, w) \<Rightarrow>
          (if err = NotFound then (None, r\<lparr>rr_Cluster := w\<rparr>)
           else (Some (EWrap (''get notebook ClusterRole '' @ quote notebookClusterRoleName) (EKube err)), r\<lparr>rr_Cluster := w\<rparr>))
      | (Inr cr0, w) \<Rightarrow>
          (case (if obj_OwnerRefs cr0 \<noteq> []
                 then (let cr = cr0\<lparr>obj_OwnerRefs := []\<rparr>
                       in case cli_update cli cr w of
                            (Some err, w1) \<Rightarrow>
                              (if err \<noteq> NotFound
                               then (Some (EWrap (''clear ownerRefs on notebook ClusterRole '' @ quote notebookClusterRoleName) (EKube err)), cr, w1)
                               else (None, cr, w1))
                          | (None, w1) \<Rightarrow> (None, cr, w1))
                 else (None, cr0, w)) of
             (Some e, cr, w1) \<Rightarrow> (Some e, r\<lparr>rr_Cluster := w1\<rparr>)
           | (None, cr, w1) \<Rightarrow>
               (case cli_delete cli cr w1 of
                  (Some err, w2) \<Rightarrow>
                    (if err \<noteq> NotFound
                     then (Some (EWrap (''delete notebook ClusterRole '' @ quote notebookClusterRoleName) (EKube err)), r\<lparr>rr_Cluster := w2\<rparr>)
                     else (None, r\<lparr>rr_Cluster := w2\<rparr>))
                | (None, w2) \<Rightarrow> (None, r\<lparr>rr_Cluster := w2\<rparr>))))"

definition notebookClusterRoleAction :: "'w client \<Rightarrow> 'w action" where
  "notebookClusterRoleAction cli r =
     (if removed r then deleteNotebookClusterRole cli r else applyNotebookClusterRole cli r)"

section \<open>Lemmas\<close>

abbreviation role_key :: "gvk \<times> string \<times> string" where
  "role_key \<equiv> (ClusterRoleGVK, [], ''ray'')"

definition others :: "kobj list \<Rightarrow> kobj set" where
  "others xs = {x \<in> set xs. obj_key x \<noteq> role_key}"

lemma applyNotebook_cluster_only:
  "snd (applyNotebookClusterRole cli r) = r\<lparr>rr_Cluster := rr_Cluster (snd (applyNotebookClusterRole cli r))\<rparr>"
  by (simp add: applyNotebookClusterRole_def Let_def split: prod.split option.split)

lemma deleteNotebook_cluster_only:
  "snd (deleteNotebookClusterRole cli r) = r\<lparr>rr_Cluster := rr_Cluster (snd (deleteNotebookClusterRole cli r))\<rparr>"
  unfolding deleteNotebookClusterRole_def Let_def
  by (simp split: prod.split option.split sum.split)

lemma notebookAction_cluster_only:
  "snd (notebookClusterRoleAction cli r) = r\<lparr>rr_Cluster := rr_Cluster (snd (notebookClusterRoleAction cli r))\<rparr>"
  using applyNotebook_cluster_only [of cli r] deleteNotebook_cluster_only [of cli r]
  by (auto simp only: notebookClusterRoleAction_def split: if_split)

interpretation notebook_role: status_action "notebookClusterRoleAction cli" for cli
proof
  fix r
  show "cr_frame (rr_Instance r) (rr_Instance (snd (notebookClusterRoleAction cli r)))"
    by (subst notebookAction_cluster_only) simp
qed

text \<open>The cases of the deletion.\<close>

lemma deleteNotebook_cases:
  assumes "deleteNotebookClusterRole cli r = (e, r')"
  obtains
    (absent) w where "cli_get cli ClusterRoleGVK ''ray'' [] (rr_Cluster r) = (Inl NotFound, w)"
      and "e = None" and "rr_Cluster r' = w"
  | (unread) err w where "cli_get cli ClusterRoleGVK ''ray'' [] (rr_Cluster r) = (Inl err, w)"
      and "e \<noteq> None" and "rr_Cluster r' = w"
  | (pinned) cr err w w1 where "cli_get cli ClusterRoleGVK ''ray'' [] (rr_Cluster r) = (Inr cr, w)"
      and "cli_update cli (cr\<lparr>obj_OwnerRefs := []\<rparr>) w = (Some err, w1)"
      and "e \<noteq> None" and "rr_Cluster r' = w1"
  | (deleted) cr w w1 err w2 where "cli_get cli ClusterRoleGVK ''ray'' [] (rr_Cluster r) = (Inr cr, w)"
      and "(obj_OwnerRefs cr = [] \<and> w1 = w) \<or> (\<exists>u. cli_update cli (cr\<lparr>obj_OwnerRefs := []\<rparr>) w = (u, w1))"
      and "cli_delete cli (cr\<lparr>obj_OwnerRefs := []\<rparr>) w1 = (err, w2)"
      and "e = None \<longleftrightarrow> err = None \<or> err = Some NotFound" and "rr_Cluster r' = w2"
proof -
  have id: "obj_OwnerRefs cr = [] \<Longrightarrow> cr\<lparr>obj_OwnerRefs := []\<rparr> = cr" for cr :: kobj by simp
  obtain res w where g: "cli_get cli ClusterRoleGVK ''ray'' [] (rr_Cluster r) = (res, w)"
    by (cases "cli_get cli ClusterRoleGVK ''ray'' [] (rr_Cluster r)")
  note def = deleteNotebookClusterRole_def notebookClusterRoleName_def Let_def
  show thesis
  proof (cases res)
    case (Inl err)
    with assms g show thesis by (cases "err = NotFound") (auto simp: def intro: absent unread)
  next
    case (Inr cr)
    let ?cr = "cr\<lparr>obj_OwnerRefs := []\<rparr>"
    obtain u w1 where u: "(if obj_OwnerRefs cr \<noteq> [] then cli_update cli ?cr w else (None, w)) = (u, w1)"
      by fastforce
    obtain err w2 where d: "cli_delete cli ?cr w1 = (err, w2)" by (cases "cli_delete cli ?cr w1")
    show thesis
    proof (cases "u = None \<or> u = Some NotFound")
      case True
      have "e = None \<longleftrightarrow> err = None \<or> err = Some NotFound" and "rr_Cluster r' = w2"
        using assms g Inr u d True by (auto simp: def id split: if_splits option.splits)
      with deleted [of cr w w1 err w2] g Inr u d show thesis by (auto split: if_splits)
    next
      case False
      then have "obj_OwnerRefs cr \<noteq> []" using u by (auto split: if_splits)
      moreover from this have "e \<noteq> None" and "rr_Cluster r' = w1"
        using assms g Inr u False by (auto simp: def split: if_splits option.splits)
      ultimately show thesis using pinned [of cr w _ w1] g Inr u False by auto
    qed
  qed
qed

text \<open>The resource name of a kind: lower case, plural.\<close>

definition lower :: "char \<Rightarrow> char" where
  "lower c = (let n = of_char c :: nat in if 65 \<le> n \<and> n \<le> 90 then char_of (n + 32) else c)"

definition resource_of :: "gvk \<Rightarrow> string" where
  "resource_of g = map lower (Kind g) @ ''s''"

lemma others_delete:
  assumes "delete_lawful cli view" and "cli_delete cli x w = (err, w')" and "obj_key x = role_key"
  shows "others (view w') = others (view w)"
    and "err = None \<or> err = Some NotFound \<Longrightarrow> \<forall>y \<in> set (view w'). obj_key y \<noteq> role_key"
proof -
  have "set (view w') = (if err = None \<or> err = Some NotFound
      then {y \<in> set (view w). obj_key y \<noteq> obj_key x} else set (view w))"
    using assms(1,2) unfolding delete_lawful_def by blast
  then show "others (view w') = others (view w)"
    and "err = None \<or> err = Some NotFound \<Longrightarrow> \<forall>y \<in> set (view w'). obj_key y \<noteq> role_key"
    unfolding assms(3) others_def by (auto split: if_splits)
qed

lemma others_update:
  assumes "update_lawful cli view" and "cli_update cli x w = (err, w')" and "obj_key x = role_key"
  shows "others (view w') = others (view w)"
proof -
  have "set (view w') = (if err = None \<and> obj_key x \<in> obj_key ` set (view w)
      then insert x {y \<in> set (view w). obj_key y \<noteq> obj_key x} else set (view w))"
    using assms(1,2) unfolding update_lawful_def by blast
  then show ?thesis using assms(3) unfolding others_def by (auto split: if_splits)
qed

lemma get_role:
  assumes "get_lawful cli view" and "cli_get cli ClusterRoleGVK ''ray'' [] w = (res, w')"
  shows "view w' = view w" and "res = Inr x \<Longrightarrow> obj_key x = role_key"
    and "res = Inl NotFound \<Longrightarrow> \<forall>y \<in> set (view w). obj_key y \<noteq> role_key"
  using assms unfolding get_lawful_def by fastforce+

lemma deleteNotebook_effect:
  assumes "get_lawful cli view" and "update_lawful cli view" and "delete_lawful cli view"
    and "deleteNotebookClusterRole cli r = (e, r')"
  shows "(e = None \<longrightarrow> (\<forall>x \<in> set (view (rr_Cluster r')). obj_key x \<noteq> role_key))
     \<and> others (view (rr_Cluster r')) = others (view (rr_Cluster r))"
  using assms(4)
proof (cases rule: deleteNotebook_cases)
  case (absent w)
  with get_role [OF assms(1) absent(1)] show ?thesis by auto
next
  case (unread err w)
  with get_role [OF assms(1) unread(1)] show ?thesis by auto
next
  case (pinned cr err w w1)
  have "obj_key (cr\<lparr>obj_OwnerRefs := []\<rparr>) = role_key"
    using get_role(2) [OF assms(1) pinned(1)] by (simp add: obj_key_def)
  with others_update [OF assms(2) pinned(2)] get_role(1) [OF assms(1) pinned(1)] pinned show ?thesis by auto
next
  case (deleted cr w w1 err w2)
  have k: "obj_key (cr\<lparr>obj_OwnerRefs := []\<rparr>) = role_key"
    using get_role(2) [OF assms(1) deleted(1)] by (simp add: obj_key_def)
  have "others (view w1) = others (view w)"
    using deleted(2) others_update [OF assms(2) _ k] by auto
  with others_delete [OF assms(3) deleted(3) k] get_role(1) [OF assms(1) deleted(1)] deleted(4,5)
  show ?thesis by auto
qed

text \<open>Keys stay distinct, also on the paths that fail.\<close>

lemma update_keys:
  assumes "update_lawful cli view" and "cli_update cli x w = (err, w')" and "distinct_keys (view w)"
  shows "distinct_keys (view w')"
proof -
  have "set (view w') = (if err = None \<and> obj_key x \<in> obj_key ` set (view w)
      then insert x {y \<in> set (view w). obj_key y \<noteq> obj_key x} else set (view w))"
    using assms(1,2) unfolding update_lawful_def by blast
  with assms(3) show ?thesis by (auto simp: distinct_keys_def inj_on_def split: if_splits)
qed

lemma delete_keys:
  assumes "delete_lawful cli view" and "cli_delete cli x w = (err, w')" and "distinct_keys (view w)"
  shows "distinct_keys (view w')"
proof -
  have "set (view w') = (if err = None \<or> err = Some NotFound
      then {y \<in> set (view w). obj_key y \<noteq> obj_key x} else set (view w))"
    using assms(1,2) unfolding delete_lawful_def by blast
  then have "set (view w') \<subseteq> set (view w)" by auto
  with assms(3) show ?thesis by (auto simp: distinct_keys_def intro: inj_on_subset)
qed

lemma deleteNotebook_keys:
  assumes "get_lawful cli view" and "update_lawful cli view" and "delete_lawful cli view"
    and "deleteNotebookClusterRole cli r = (e, r')" and "distinct_keys (view (rr_Cluster r))"
  shows "distinct_keys (view (rr_Cluster r'))"
  using assms(4)
proof (cases rule: deleteNotebook_cases)
  case (absent w)
  then show ?thesis using get_role(1) [OF assms(1) absent(1)] assms(5) by simp
next
  case (unread err w)
  then show ?thesis using get_role(1) [OF assms(1) unread(1)] assms(5) by simp
next
  case (pinned cr err w w1)
  then show ?thesis using get_role(1) [OF assms(1) pinned(1)] update_keys [OF assms(2) pinned(2)] assms(5) by simp
next
  case (deleted cr w w1 err w2)
  have "distinct_keys (view w)" using get_role(1) [OF assms(1) deleted(1)] assms(5) by simp
  then have "distinct_keys (view w1)" using deleted(2) update_keys [OF assms(2)] by auto
  with delete_keys [OF assms(3) deleted(3)] deleted(5) show ?thesis by simp
qed

section \<open>Properties\<close>

text \<open>
  C34. No privilege escalation: every permission the notebook role grants is one the module's own
  service account holds, so that the API server accepts the role; on secrets the role grants creation
  and nothing else, and it grants nothing outside the core group and \<^verbatim>\<open>ray.io\<close>.
\<close>

theorem notebook_role_no_escalation:
  assumes "grants (obj_Rules notebookClusterRole) g res verb"
  shows "grants rbac_markers g res verb \<and> (res = ''secrets'' \<longrightarrow> g = '''' \<and> verb = ''create'')
         \<and> g \<in> {'''', ''ray.io''}"
proof -
  have "list_all (\<lambda>rule. list_all (\<lambda>g. list_all (\<lambda>res. list_all (\<lambda>verb.
      grants rbac_markers g res verb \<and> (res = ''secrets'' \<longrightarrow> g = '''' \<and> verb = ''create'') \<and> g \<in> {'''', ''ray.io''})
      (Verbs rule)) (Resources rule)) (APIGroups rule)) (obj_Rules notebookClusterRole)"
    by code_simp
  with assms show ?thesis unfolding grants_def [of "obj_Rules _"] list_all_iff list_ex_iff by metis
qed

text \<open>
  The markers cover what the operand deletion does: listing and deleting every kind it is written
  for; and they do not cover the deletion of CRDs, which therefore survive whatever the code asks.
\<close>

theorem gc_calls_permitted:
  assumes "g \<in> set (namespacedOwnedLists @ clusterOwnedLists)"
  shows "grants rbac_markers (Group g) (resource_of g) ''list''
     \<and> grants rbac_markers (Group g) (resource_of g) ''delete''
     \<and> \<not> grants rbac_markers ''apiextensions.k8s.io'' ''customresourcedefinitions'' ''delete''"
proof -
  have "list_all (\<lambda>g. grants rbac_markers (Group g) (resource_of g) ''list''
      \<and> grants rbac_markers (Group g) (resource_of g) ''delete'') (namespacedOwnedLists @ clusterOwnedLists)"
    and "\<not> grants rbac_markers ''apiextensions.k8s.io'' ''customresourcedefinitions'' ''delete''"
    by code_simp+
  with assms show ?thesis unfolding list_all_iff by blast
qed

text \<open>
  C33. A successful apply leaves exactly the desired role: the object of that name has the desired
  rules and labels and no owner reference, whatever it had before, and no other object changes.
\<close>

theorem applyNotebookClusterRole_desired:
  assumes "createOrUpdate_lawful cli view" and "applyNotebookClusterRole cli r = (None, r')"
  shows "\<exists>role. {x \<in> set (view (rr_Cluster r')). obj_key x = role_key} = {role}
     \<and> obj_Rules role = obj_Rules notebookClusterRole \<and> obj_Labels role = obj_Labels notebookClusterRole
     \<and> obj_OwnerRefs role = []
     \<and> {x \<in> set (view (rr_Cluster r')). obj_key x \<noteq> role_key}
         = {x \<in> set (view (rr_Cluster r)). obj_key x \<noteq> role_key}"
proof -
  let ?f = "\<lambda>x. x\<lparr>obj_Labels := obj_Labels notebookClusterRole, obj_Rules := obj_Rules notebookClusterRole,
                 obj_OwnerRefs := []\<rparr>"
  let ?x = "\<lparr>obj_GVK = ClusterRoleGVK, obj_Namespace = [], obj_Name = notebookClusterRoleName,
             obj_Labels = [], obj_OwnerRefs = [], obj_Data = [], obj_Rules = [], obj_Body = []\<rparr>"
  have "cli_createOrUpdate cli ?x ?f (rr_Cluster r) = (None, rr_Cluster r')"
    using assms(2) by (auto simp: applyNotebookClusterRole_def Let_def split: prod.splits option.splits)
  moreover have k: "obj_key ?x = role_key" by (simp add: obj_key_def notebookClusterRoleName_def)
  moreover have "obj_key (?f y) = obj_key y" for y by (simp add: obj_key_def)
  ultimately obtain old where "obj_key old = role_key"
    and "set (view (rr_Cluster r')) = insert (?f old) {y \<in> set (view (rr_Cluster r)). obj_key y \<noteq> role_key}"
    using assms(1) [unfolded createOrUpdate_lawful_def, rule_format, of ?f ?x "rr_Cluster r" "rr_Cluster r'"]
    by auto
  moreover from this have "obj_key (?f old) = role_key" by (simp add: obj_key_def)
  ultimately show ?thesis by (intro exI [of _ "?f old"] conjI) (auto simp: obj_key_def)
qed

text \<open>
  Deleting the role: success leaves no live role of that name, an error never does more than
  the calls before it did, and on every path all other objects are as they were.
\<close>

theorem deleteNotebookClusterRole_gone:
  assumes "get_lawful cli view" and "update_lawful cli view" and "delete_lawful cli view"
    and "deleteNotebookClusterRole cli r = (e, r')"
  shows "(e = None \<longrightarrow> (\<forall>x \<in> set (view (rr_Cluster r')). obj_key x \<noteq> role_key))
     \<and> {x \<in> set (view (rr_Cluster r')). obj_key x \<noteq> role_key}
         = {x \<in> set (view (rr_Cluster r)). obj_key x \<noteq> role_key}"
  using deleteNotebook_effect [OF assms] unfolding others_def .

section \<open>Witnesses\<close>

definition sample_role_cluster :: cluster where
  "sample_role_cluster =
     sample_operands\<lparr>cl_Objs := notebookClusterRole\<lparr>obj_OwnerRefs := [''u1''], obj_Rules := []\<rparr> # cl_Objs sample_operands\<rparr>"

theorem notebook_role_no_escalation_witness:
  "grants rbac_markers ''ray.io'' ''rayjobs'' ''patch'' \<and> grants rbac_markers '''' ''secrets'' ''create''"
proof -
  have "grants (obj_Rules notebookClusterRole) ''ray.io'' ''rayjobs'' ''patch''"
    and "grants (obj_Rules notebookClusterRole) '''' ''secrets'' ''create''" by code_simp+
  with notebook_role_no_escalation show ?thesis by blast
qed

theorem gc_calls_permitted_witness:
  "grants rbac_markers (Group (clusterOwnedLists ! 0)) (resource_of (clusterOwnedLists ! 0)) ''delete''"
proof -
  have "clusterOwnedLists ! 0 \<in> set (namespacedOwnedLists @ clusterOwnedLists)" by code_simp
  with gc_calls_permitted show ?thesis by blast
qed

theorem applyNotebookClusterRole_desired_witness:
  "\<exists>role. {x \<in> set (cl_Objs (rr_Cluster (snd (applyNotebookClusterRole mem_client (sample_rr [] sample_role_cluster))))).
       obj_key x = role_key} = {role} \<and> obj_OwnerRefs role = []"
proof -
  have "fst (applyNotebookClusterRole mem_client (sample_rr [] sample_role_cluster)) = None" by code_simp
  then have "applyNotebookClusterRole mem_client (sample_rr [] sample_role_cluster)
      = (None, snd (applyNotebookClusterRole mem_client (sample_rr [] sample_role_cluster)))"
    by (metis prod.collapse)
  from applyNotebookClusterRole_desired [OF mem_client_lawful(5) this] show ?thesis by blast
qed

theorem deleteNotebookClusterRole_gone_witness:
  "list_all (\<lambda>x. obj_key x \<noteq> role_key)
     (cl_Objs (rr_Cluster (snd (deleteNotebookClusterRole mem_client (sample_rr [] sample_role_cluster)))))"
proof -
  have "fst (deleteNotebookClusterRole mem_client (sample_rr [] sample_role_cluster)) = None" by code_simp
  with deleteNotebookClusterRole_gone [OF mem_client_lawful(3,4,2) prod.collapse [symmetric]]
  show ?thesis unfolding list_all_iff by blast
qed

end
