(* ===== verification/Ray_Controller.thy ===== *)
theory Ray_Controller
  imports Overlay_Namespace Releases Status_Actions Render Notebook_RBAC
begin

text \<open>
  \<^verbatim>\<open>ray_controller.go\<close>: the predicate on deletions, the wait for the applications namespace,
  the actions that belong to no other component, and the pipeline that \<^verbatim>\<open>SetupWithManager\<close>
  registers, in its order. The actions of the other theories come in here; the framework's own
  actions (deploy, deployment status, garbage collection) are parameters. The lemmas follow a
  reconcile through the pipeline: what reaches the deployment for a managed and for a removed
  component, what a pass may write, what is left after a removal or a deletion, and what a step of
  the stored resource's life can change. The properties that rest on them are in \<open>Spec2Isabelle\<close>;
  the one here is about the wait for the namespace.
\<close>

definition deletionTimestampSetPredicate :: "ray option \<Rightarrow> ray option \<Rightarrow> bool" where
  "deletionTimestampSetPredicate objectOld objectNew =
     (case (objectOld, objectNew) of
        (Some old, Some new) \<Rightarrow> meta_DeletionTimestamp old = None \<and> meta_DeletionTimestamp new \<noteq> None
      | _ \<Rightarrow> False)"

definition namespaceFn :: "'w getter" where
  "namespaceFn r = Inr (ApplicationsNamespace (Spec (rr_Instance r)))"

definition waitForNamespace :: "'w framework \<Rightarrow> 'w client \<Rightarrow> 'w rr \<Rightarrow> bool \<times> 'w rr" where
  "waitForNamespace fw cli r =
     (if apps_ns r \<noteq> [] then (False, r)
      else case fw_removeFinalizer fw (rr_Instance r) FinalizerName of
             (changed, ray) \<Rightarrow>
               (let r1 = r\<lparr>rr_Instance := ray\<rparr>
                in if changed
                   then (case cli_updateRay cli ray (rr_Cluster r1) of
                           (Some err, w) \<Rightarrow>
                             (if err \<noteq> Conflict \<and> err \<noteq> NotFound then (True, r1\<lparr>rr_Cluster := w\<rparr>)
                              else (True, r1\<lparr>rr_Cluster := w\<rparr>))
                         | (None, w) \<Rightarrow> (True, r1\<lparr>rr_Cluster := w\<rparr>))
                   else (True, r1)))"

definition managementStateAction :: "'w action" where
  "managementStateAction r0 =
     (let r = (if rr_Extensions r0 = None then r0\<lparr>rr_Extensions := Some []\<rparr> else r0)
      in case ManagementState (Spec (rr_Instance r)) of
           Removed \<Rightarrow> (None, (ext_put ExtKeyRemoved (EBool True) r)\<lparr>rr_Generated := True\<rparr>)
         | _ \<Rightarrow> (None, ext_put ExtKeyRemoved (EBool False) r))"

definition manifestInitAction :: "'w action" where
  "manifestInitAction r =
     (if removed r then (None, r\<lparr>rr_Manifests := [], rr_Resources := []\<rparr>)
      else (None, r\<lparr>rr_Manifests :=
              [\<lparr>mi_Path = ManifestPath, mi_ContextDir = ManifestOverlay, mi_SourcePath = []\<rparr>]\<rparr>))"

definition deploymentStatusAction :: "'w framework \<Rightarrow> 'w getter \<Rightarrow> 'w action" where
  "deploymentStatusAction fw nsFn r =
     (if removed r
      then (None, r\<lparr>rr_Instance := fw_markTrue fw ConditionDeploymentsAvailable ''RemovedComponent''
                      ''Component has been removed'' (rr_Instance r)\<rparr>)
      else fw_deployments fw nsFn r)"

text \<open>The options of the collectors that take labelled objects too.\<close>

definition collect_all_options :: "gc_option list" where
  "collect_all_options =
     [WithDeletePropagationPolicy ''Background'', WithOnlyCollectOwned False, WithObjectPredicate (\<lambda>x. Inr True)]"

definition reconcileGCAction :: "'w framework \<Rightarrow> 'w client \<Rightarrow> 'w getter \<Rightarrow> 'w action" where
  "reconcileGCAction fw cli nsFn r =
     (if removed r
      then (case deleteOwnedOperands cli r of
              (Some e, r1) \<Rightarrow> (Some e, r1)
            | (None, r1) \<Rightarrow> fw_gc fw nsFn collect_all_options r1)
      else fw_gc fw nsFn [WithDeletePropagationPolicy ''Background''] r)"

definition deletionCleanupAction :: "'w framework \<Rightarrow> 'w client \<Rightarrow> 'w getter \<Rightarrow> 'w action" where
  "deletionCleanupAction fw cli nsFn r =
     (case nsFn r of
        Inl e \<Rightarrow> (Some e, r)
      | Inr ns \<Rightarrow>
          (if ns = [] then (None, r)
           else case deleteNotebookClusterRole cli r of
                  (Some e, r1) \<Rightarrow> (Some e, r1)
                | (None, r1) \<Rightarrow>
                    (case fw_gc fw nsFn collect_all_options (r1\<lparr>rr_Generated := True\<rparr>) of
                       (Some e, r2) \<Rightarrow> (Some e, r2)
                     | (None, r2) \<Rightarrow> deleteOwnedOperands cli r2)))"

section \<open>The pipeline\<close>

text \<open>The chain of \<^verbatim>\<open>WithAction\<close> calls: up to the deployment, and from it on.\<close>

definition before_deploy ::
  "'w framework \<Rightarrow> 'w client \<Rightarrow> env \<Rightarrow> (string \<Rightarrow> nat) \<Rightarrow> string \<Rightarrow> 'w action list" where
  "before_deploy fw cli env letter manifestsBasePath =
     [managementStateAction,
      releasesAction env manifestsBasePath,
      manifestInitAction,
      applyImageParamsAction env letter manifestsBasePath,
      RenderKustomize fw manifestsBasePath namespaceFn,
      certManagerRequirementAction fw,
      filterPlatformResources fw,
      notebookClusterRoleAction cli]"

definition from_deploy :: "'w framework \<Rightarrow> 'w client \<Rightarrow> string \<Rightarrow> 'w action list" where
  "from_deploy fw cli manifestsBasePath =
     [fw_deploy fw [WithFieldOwner FieldOwner, WithPartOfLabelDefault ComponentName, WithApplyOrder],
      deploymentStatusAction fw namespaceFn,
      distributionAction fw cli manifestsBasePath,
      platformReleaseAction fw cli,
      degradedAction fw,
      observedGenerationAction,
      reconcileGCAction fw cli namespaceFn]"

text \<open>
  What the builder is given: the instance name, when an update event of the resource counts, the
  conditions that make up readiness, the watch on ConfigMaps, the options, the actions and the action
  behind the finalizer.
\<close>

record 'w reconciler =
  rec_InstanceName :: string
  rec_UpdateEvent :: "ray option \<Rightarrow> ray option \<Rightarrow> bool"
  rec_Conditions :: "string list"
  rec_DynamicOwnership :: bool
  rec_EventMapper :: "kobj \<Rightarrow> 'w \<Rightarrow> string list \<times> 'w"
  rec_WatchPredicate :: "kobj \<Rightarrow> bool"
  rec_ReleaseName :: string
  rec_FinalizerName :: string
  rec_PreApplyFn :: "'w rr \<Rightarrow> bool \<times> 'w rr"
  rec_PreApplyFailedReason :: string
  rec_Actions :: "'w action list"
  rec_Finalizer :: "'w action"

text \<open>\<open>defaultPredicate\<close> and \<open>provisioned\<close> are the framework's default predicate and condition type.\<close>

definition SetupWithManager ::
  "'w framework \<Rightarrow> 'w client \<Rightarrow> (ray option \<Rightarrow> ray option \<Rightarrow> bool) \<Rightarrow> string \<Rightarrow> env \<Rightarrow> (string \<Rightarrow> nat)
     \<Rightarrow> string \<Rightarrow> 'w reconciler" where
  "SetupWithManager fw cli defaultPredicate provisioned env letter manifestsBasePath =
     \<lparr>rec_InstanceName = InstanceName,
      rec_UpdateEvent = (\<lambda>old new. defaultPredicate old new \<or> deletionTimestampSetPredicate old new),
      rec_Conditions = [provisioned, ConditionDeploymentsAvailable],
      rec_DynamicOwnership = True,
      rec_EventMapper = platformConfigMapper cli,
      rec_WatchPredicate = platformConfigPredicate,
      rec_ReleaseName = ''opendatahub'',
      rec_FinalizerName = FinalizerName,
      rec_PreApplyFn = waitForNamespace fw cli,
      rec_PreApplyFailedReason = ''ApplicationsNamespaceNotProjected'',
      rec_Actions = before_deploy fw cli env letter manifestsBasePath @ from_deploy fw cli manifestsBasePath,
      rec_Finalizer = deletionCleanupAction fw cli namespaceFn\<rparr>"

text \<open>
  A pass: the framework's executor runs the registered actions, which depend on neither the default
  predicate nor the name of the framework's condition.
\<close>

definition ray_reconcile ::
  "'w framework \<Rightarrow> 'w client \<Rightarrow> env \<Rightarrow> (string \<Rightarrow> nat) \<Rightarrow> string \<Rightarrow> 'w action" where
  "ray_reconcile fw cli env letter manifestsBasePath =
     fw_runActions fw (rec_Actions (SetupWithManager fw cli (\<lambda>old new. False) [] env letter manifestsBasePath))"

section \<open>Lemmas\<close>

lemma managementState_facts:
  "fst (managementStateAction r) = None"
  "removed (snd (managementStateAction r)) \<longleftrightarrow> ManagementState (Spec (rr_Instance r)) = Removed"
  "rr_Instance (snd (managementStateAction r)) = rr_Instance r"
  "rr_Resources (snd (managementStateAction r)) = rr_Resources r"
  "rr_Files (snd (managementStateAction r)) = rr_Files r"
  "ManagementState (Spec (rr_Instance r)) = Removed \<Longrightarrow> rr_Generated (snd (managementStateAction r))"
  by (auto simp: managementStateAction_def Let_def split: mstate.splits)

lemma manifestInit_facts:
  "fst (manifestInitAction r) = None"
  "removed (snd (manifestInitAction r)) = removed r"
  "rr_Instance (snd (manifestInitAction r)) = rr_Instance r"
  "rr_Files (snd (manifestInitAction r)) = rr_Files r"
  "rr_Generated (snd (manifestInitAction r)) = rr_Generated r"
  "removed r \<Longrightarrow> rr_Manifests (snd (manifestInitAction r)) = [] \<and> rr_Resources (snd (manifestInitAction r)) = []"
  "\<not> removed r \<Longrightarrow> rr_Resources (snd (manifestInitAction r)) = rr_Resources r"
  by (auto simp: manifestInitAction_def)

lemma releases_facts:
  "fst (releasesAction env base r) = None"
  "removed (snd (releasesAction env base r)) = removed r"
  "rr_Resources (snd (releasesAction env base r)) = rr_Resources r"
  "rr_Files (snd (releasesAction env base r)) = rr_Files r"
  "rr_Generated (snd (releasesAction env base r)) = rr_Generated r"
  by (auto simp: releasesAction_def)

lemma removed_ext: "rr_Extensions r' = rr_Extensions r \<Longrightarrow> removed r' = removed r"
  by (simp add: removed_def ext_get_def)

interpretation management: status_action managementStateAction
  by unfold_locales (simp add: managementState_facts)

interpretation manifest_init: status_action manifestInitAction
  by unfold_locales (simp add: manifestInit_facts)

text \<open>The actions that rest on the framework's meet the contract when the framework does.\<close>

lemma framework_status_actions:
  assumes "actions_lawful fw" and "conditions_lawful fw"
  shows "status_action (fw_deploy fw os)" and "status_action (deploymentStatusAction fw nsFn)"
    and "status_action (reconcileGCAction fw cli nsFn)"
proof -
  have a: "cr_frame (rr_Instance r) (rr_Instance (snd (fw_deploy fw os r)))"
    "cr_frame (rr_Instance r) (rr_Instance (snd (fw_deployments fw nsFn r)))"
    "cr_frame (rr_Instance r) (rr_Instance (snd (fw_gc fw nsFn gs r)))" for r gs
    using assms(1) unfolding actions_lawful_def by blast+
  show "status_action (fw_deploy fw os)" by unfold_locales (rule a)
  show "status_action (deploymentStatusAction fw nsFn)"
    using assms(2) a(2) by unfold_locales (simp add: deploymentStatusAction_def conditions_lawful_def)
  show "status_action (reconcileGCAction fw cli nsFn)"
  proof
    fix r
    obtain e r1 where d: "deleteOwnedOperands cli r = (e, r1)" by (cases "deleteOwnedOperands cli r")
    have "cr_frame (rr_Instance r) (rr_Instance r1)" using owned_gc.status_only [of r cli] d by simp
    then have "cr_frame (rr_Instance r) (rr_Instance (snd (fw_gc fw nsFn gs r1)))" for gs
      using a(3) cr_frame_trans by blast
    with \<open>cr_frame (rr_Instance r) (rr_Instance r1)\<close> a(3) d
    show "cr_frame (rr_Instance r) (rr_Instance (snd (reconcileGCAction fw cli nsFn r)))"
      by (auto simp: reconcileGCAction_def split: option.splits)
  qed
qed

lemma pipeline_status_actions:
  assumes "actions_lawful fw" and "conditions_lawful fw"
    and "a \<in> set (before_deploy fw cli env letter base @ from_deploy fw cli base)"
  shows "status_action a"
  using assms(3) framework_status_actions [OF assms(1,2)] degraded_status_action [OF assms(2)]
    management.status_action_axioms releases.status_action_axioms manifest_init.status_action_axioms
    image_params.status_action_axioms render.status_action_axioms cert_manager.status_action_axioms
    platform_filter.status_action_axioms notebook_role.status_action_axioms distribution.status_action_axioms
    platform_release.status_action_axioms observed.status_action_axioms
  by (auto simp: before_deploy_def from_deploy_def)

lemma reconcile_split:
  assumes "runs_in_order fw"
  shows "ray_reconcile fw cli env letter base r =
     (case seq_actions (before_deploy fw cli env letter base) r of
        (Some e, r1) \<Rightarrow> (Some e, r1)
      | (None, r1) \<Rightarrow> seq_actions (from_deploy fw cli base) r1)"
  using assms by (simp add: ray_reconcile_def SetupWithManager_def runs_in_order_def seq_actions_append)

lemma seq_actions_step: "fst (a r) = None \<Longrightarrow> seq_actions (a # as) r = seq_actions as (snd (a r))"
  by (cases "a r") simp

lemma filterPlatform_frame:
  "rr_Files (snd (filterPlatformResources fw r)) = rr_Files r"
  "rr_Generated (snd (filterPlatformResources fw r)) = rr_Generated r"
  by (auto simp: filterPlatformResources_def Let_def split: option.splits prod.splits)

lemma notebook_frame:
  "rr_Resources (snd (notebookClusterRoleAction cli r)) = rr_Resources r"
  "rr_Manifests (snd (notebookClusterRoleAction cli r)) = rr_Manifests r"
  "rr_Files (snd (notebookClusterRoleAction cli r)) = rr_Files r"
  "rr_Generated (snd (notebookClusterRoleAction cli r)) = rr_Generated r"
  "rr_SCC (snd (notebookClusterRoleAction cli r)) = rr_SCC r"
  "rr_Extensions (snd (notebookClusterRoleAction cli r)) = rr_Extensions r"
  by (subst notebookAction_cluster_only; simp)+

lemma before_deploy_frames:
  "rr_Resources (snd (applyImageParamsAction env letter base r)) = rr_Resources r"
  "rr_Resources (snd (certManagerRequirementAction fw r)) = rr_Resources r"
  by (cases rule: applyImageParams_cases [of r env letter base])
    (simp_all add: certManagerRequirementAction_def split: prod.splits)

text \<open>A removed component on its way to the deployment.\<close>

definition empty_plan :: "files \<Rightarrow> 'w rr \<Rightarrow> bool" where
  "empty_plan fs r =
     (removed r \<and> rr_Manifests r = [] \<and> rr_Resources r = [] \<and> rr_Files r = fs \<and> rr_Generated r)"

lemma before_deploy_removed:
  assumes "ManagementState (Spec (rr_Instance r)) = Removed"
  shows "empty_plan (rr_Files r) (snd (seq_actions (before_deploy fw cli env letter base) r))"
proof -
  define r3 where "r3 = snd (manifestInitAction (snd (releasesAction env base (snd (managementStateAction r)))))"
  have "seq_actions (before_deploy fw cli env letter base) r =
      seq_actions (drop 3 (before_deploy fw cli env letter base)) r3"
    unfolding before_deploy_def r3_def
    by (simp only: seq_actions_step managementState_facts(1) releases_facts(1) manifestInit_facts(1)) simp
  moreover have "empty_plan (rr_Files r) r3"
    using assms by (simp add: empty_plan_def r3_def manifestInit_facts releases_facts managementState_facts)
  moreover have "empty_plan fs (snd (a x))"
    if "a \<in> set (drop 3 (before_deploy fw cli env letter base))" and "empty_plan fs x" for a x fs
    using that removed_ext [of "snd (filterPlatformResources fw x)" x]
      removed_ext [of "snd (notebookClusterRoleAction cli x)" x]
    by (auto simp: before_deploy_def empty_plan_def image_params.removed_noop cert_manager.removed_noop
        RenderKustomize_def filterPlatform_result filterPlatform_frame notebook_frame)
  ultimately show ?thesis using seq_actions_invariant by metis
qed

text \<open>A managed one: every object of the plan is labelled and in the namespace.\<close>

definition good_plan :: "string \<Rightarrow> 'w rr \<Rightarrow> bool" where
  "good_plan ns r = (apps_ns r = ns \<and> list_all (operand_ok ns) (rr_Resources r))"

lemma manifestInit_resources: "set (rr_Resources (snd (manifestInitAction r))) \<subseteq> set (rr_Resources r)"
  by (simp add: manifestInitAction_def)

lemma render_good: "good_plan ns r \<Longrightarrow> good_plan ns (snd (RenderKustomize fw base namespaceFn r))"
  using RenderKustomize_result [OF prod.collapse [symmetric], of fw base namespaceFn r] operand_pass_ok
  by (auto simp: good_plan_def namespaceFn_def list_all_iff)

lemmas before_deploy_specs =
  management.keeps_spec releases.keeps_spec manifest_init.keeps_spec image_params.keeps_spec
  render.keeps_spec cert_manager.keeps_spec platform_filter.keeps_spec notebook_role.keeps_spec

lemma before_deploy_good:
  assumes "a \<in> set (before_deploy fw cli env letter base)" and "good_plan ns r"
  shows "good_plan ns (snd (a r))"
proof (cases "a = RenderKustomize fw base namespaceFn")
  case True
  with assms(2) show ?thesis by (simp add: render_good)
next
  case False
  have "apps_ns (snd (a r)) = apps_ns r"
    using assms(1) by (auto simp: before_deploy_def before_deploy_specs)
  moreover have "set (rr_Resources (snd (a r))) \<subseteq> set (rr_Resources r)"
    using assms(1) False manifestInit_resources [of r]
    by (auto simp: before_deploy_def managementState_facts releases_facts before_deploy_frames
        filterPlatform_result notebook_frame split: if_splits)
  ultimately show ?thesis using assms(2) by (auto simp: good_plan_def list_all_iff)
qed

text \<open>After a successful run up to the deployment the filter has had its say.\<close>

lemma before_deploy_scc:
  assumes "seq_actions (before_deploy fw cli env letter base) r = (None, r1)"
  shows "rr_SCC r1 = Some True \<or> (\<forall>x \<in> set (rr_Resources r1). \<not> is_scc x)"
proof -
  have "before_deploy fw cli env letter base = take 6 (before_deploy fw cli env letter base)
      @ [filterPlatformResources fw, notebookClusterRoleAction cli]"
    by (simp add: before_deploy_def)
  with assms obtain r6 where
    "seq_actions [filterPlatformResources fw, notebookClusterRoleAction cli] r6 = (None, r1)"
    using seq_actions_appendD [of "take 6 (before_deploy fw cli env letter base)"] by metis
  then have "snd (notebookClusterRoleAction cli (snd (filterPlatformResources fw r6))) = r1"
    by (auto simp: seq_actions_step [OF filterPlatform_result(1)] split: prod.splits option.splits)
  then show ?thesis
    using notebook_frame [of cli "snd (filterPlatformResources fw r6)"] filterPlatform_result [of fw r6] by auto
qed

text \<open>The garbage collection of a removed component.\<close>

lemma owned_then_gc:
  assumes "list_lawful cli view" and "delete_lawful cli view" and "distinct_keys (view (rr_Cluster r))"
    and "gc_lawful fw view" and "deleteOwnedOperands cli r = (None, r1)"
  shows "\<forall>x \<in> set (view (rr_Cluster (snd (fw_gc fw f os r1)))). \<not> operand_target (rr_Instance r) x"
proof -
  have "clears (operand_target (rr_Instance r)) (view (rr_Cluster r)) (view (rr_Cluster r1))"
    using deleteOwnedOperands_effect [OF assms(1-3,5)] by simp
  moreover have "set (view (rr_Cluster (snd (fw_gc fw f os r1)))) \<subseteq> set (view (rr_Cluster r1))"
    using assms(4) unfolding gc_lawful_def by blast
  ultimately show ?thesis unfolding clears_def by blast
qed

text \<open>
  The clean-up of a deleted one: what is gone when it succeeds, and that keys stay distinct in any
  case, so that it can be tried again.
\<close>

lemma gc_lawfulD:
  assumes "gc_lawful fw view"
  shows "rr_Instance (snd (fw_gc fw f os r)) = rr_Instance r"
    and "set (view (rr_Cluster (snd (fw_gc fw f os r)))) \<subseteq> set (view (rr_Cluster r))"
  using assms unfolding gc_lawful_def by blast+

lemma gc_keys:
  assumes "gc_lawful fw view" and "distinct_keys (view (rr_Cluster r))"
  shows "distinct_keys (view (rr_Cluster (snd (fw_gc fw f os r))))"
  using assms(2) gc_lawfulD(2) [OF assms(1)] unfolding distinct_keys_def by (rule inj_on_subset)

lemma deleteNotebook_instance: "rr_Instance (snd (deleteNotebookClusterRole cli r)) = rr_Instance r"
  by (subst deleteNotebook_cluster_only) simp

lemma deletionCleanup_stages:
  assumes "apps_ns r \<noteq> []" and "deletionCleanupAction fw cli namespaceFn r = (e, r')"
  obtains (role) e1 where "deleteNotebookClusterRole cli r = (Some e1, r')" and "e = Some e1"
  | (gc) r1 e1 where "deleteNotebookClusterRole cli r = (None, r1)"
      and "fw_gc fw namespaceFn collect_all_options (r1\<lparr>rr_Generated := True\<rparr>) = (Some e1, r')" and "e = Some e1"
  | (owned) r1 r2 where "deleteNotebookClusterRole cli r = (None, r1)"
      and "fw_gc fw namespaceFn collect_all_options (r1\<lparr>rr_Generated := True\<rparr>) = (None, r2)"
      and "deleteOwnedOperands cli r2 = (e, r')"
  using assms by (auto simp: deletionCleanupAction_def namespaceFn_def split: prod.splits option.splits)

lemma deletionCleanup_effect:
  assumes "get_lawful cli view" and "update_lawful cli view" and "delete_lawful cli view"
    and "list_lawful cli view" and "gc_lawful fw view" and "distinct_keys (view (rr_Cluster r))"
    and "apps_ns r \<noteq> []" and "deletionCleanupAction fw cli namespaceFn r = (e, r')"
  shows "distinct_keys (view (rr_Cluster r'))"
    and "e = None \<Longrightarrow> \<forall>x \<in> set (view (rr_Cluster r')). obj_key x \<noteq> role_key \<and> \<not> operand_target (rr_Instance r) x"
proof -
  have "distinct_keys (view (rr_Cluster r'))
    \<and> (e = None \<longrightarrow> (\<forall>x \<in> set (view (rr_Cluster r')). obj_key x \<noteq> role_key \<and> \<not> operand_target (rr_Instance r) x))"
    using assms(7,8)
  proof (cases rule: deletionCleanup_stages)
    case (role e1)
    then show ?thesis using deleteNotebook_keys [OF assms(1-3) role(1) assms(6)] by simp
  next
    case (gc r1 e1)
    have "distinct_keys (view (rr_Cluster (r1\<lparr>rr_Generated := True\<rparr>)))"
      using deleteNotebook_keys [OF assms(1-3) gc(1) assms(6)] by simp
    from gc_keys [OF assms(5) this, of namespaceFn collect_all_options] gc(2,3) show ?thesis by simp
  next
    case (owned r1 r2)
    let ?r1 = "r1\<lparr>rr_Generated := True\<rparr>"
    have k: "distinct_keys (view (rr_Cluster ?r1))"
      using deleteNotebook_keys [OF assms(1-3) owned(1) assms(6)] by simp
    have k2: "distinct_keys (view (rr_Cluster r2))"
      using gc_keys [OF assms(5) k, of namespaceFn collect_all_options] owned(2) by simp
    have gone: "\<forall>x \<in> set (view (rr_Cluster r1)). obj_key x \<noteq> role_key"
      using deleteNotebook_effect [OF assms(1-3) owned(1)] by simp
    have i: "rr_Instance r2 = rr_Instance r" "set (view (rr_Cluster r2)) \<subseteq> set (view (rr_Cluster r1))"
      using gc_lawfulD [OF assms(5), of namespaceFn collect_all_options ?r1] owned(1,2)
        deleteNotebook_instance [of cli r] by simp_all
    from deleteOwnedOperands_effect [OF assms(4,3) k2 owned(3)] i gone show ?thesis
      using spares_keys [OF _ k2] by (auto simp: clears_def)
  qed
  then show "distinct_keys (view (rr_Cluster r'))"
    and "e = None \<Longrightarrow> \<forall>x \<in> set (view (rr_Cluster r')). obj_key x \<noteq> role_key \<and> \<not> operand_target (rr_Instance r) x"
    by blast+
qed

lemma reconcileGC_effect:
  assumes "delete_lawful cli view" and "list_lawful cli view" and "gc_lawful fw view"
    and "distinct_keys (view (rr_Cluster r))" and "removed r"
    and "reconcileGCAction fw cli namespaceFn r = (e, r')"
  shows "distinct_keys (view (rr_Cluster r'))"
    and "e = None \<Longrightarrow> \<forall>x \<in> set (view (rr_Cluster r')). \<not> operand_target (rr_Instance r) x"
proof -
  obtain e1 r1 where d: "deleteOwnedOperands cli r = (e1, r1)" by (cases "deleteOwnedOperands cli r")
  have k1: "distinct_keys (view (rr_Cluster r1))"
    using deleteOwnedOperands_effect [OF assms(2,1,4) d] spares_keys assms(4) by blast
  show "distinct_keys (view (rr_Cluster r'))"
    using assms(5,6) d k1 gc_keys [OF assms(3) k1, of namespaceFn collect_all_options]
    by (cases e1) (simp_all add: reconcileGCAction_def)
  assume "e = None"
  then have "e1 = None" "r' = snd (fw_gc fw namespaceFn collect_all_options r1)"
    using assms(5,6) d by (cases e1; simp add: reconcileGCAction_def)+
  with owned_then_gc [OF assms(2,1,4,3)] d
  show "\<forall>x \<in> set (view (rr_Cluster r')). \<not> operand_target (rr_Instance r) x" by simp
qed

section \<open>The life of the stored resource\<close>

text \<open>
  What can become of the stored custom resource: its users may replace it by anything the two
  admission rules accept, a pass of the pipeline writes back the instance it worked on, and so does
  the wait for the namespace.
\<close>

inductive stored_step ::
  "'w framework \<Rightarrow> 'w client \<Rightarrow> env \<Rightarrow> (string \<Rightarrow> nat) \<Rightarrow> string \<Rightarrow> ray \<Rightarrow> ray \<Rightarrow> bool"
  for fw cli env letter base where
  user_update: "cel_name_rule new \<Longrightarrow> cel_namespace_rule old new \<Longrightarrow> stored_step fw cli env letter base old new"
| reconcile: "rr_Instance r = ray \<Longrightarrow> stored_step fw cli env letter base ray
     (rr_Instance (snd (ray_reconcile fw cli env letter base r)))"
| wait: "rr_Instance r = ray \<Longrightarrow> stored_step fw cli env letter base ray
     (rr_Instance (snd (waitForNamespace fw cli r)))"

lemma actions_frame:
  assumes "actions_lawful fw" and "conditions_lawful fw"
    and "set as \<subseteq> set (before_deploy fw cli env letter base @ from_deploy fw cli base)"
  shows "cr_frame (rr_Instance r) (rr_Instance (snd (seq_actions as r)))"
proof -
  have "cr_frame (rr_Instance r) (rr_Instance (snd (a x)))"
    if "a \<in> set as" and "cr_frame (rr_Instance r) (rr_Instance x)" for a x
    using that(2) status_action.status_only [OF pipeline_status_actions [OF assms(1,2) subsetD [OF assms(3) that(1)]]]
    by (rule cr_frame_trans)
  then show ?thesis
    by (rule seq_actions_invariant [where P = "\<lambda>x. cr_frame (rr_Instance r) (rr_Instance x)"]) auto
qed

lemma pipeline_frame:
  assumes "runs_in_order fw" and "actions_lawful fw" and "conditions_lawful fw"
  shows "cr_frame (rr_Instance r) (rr_Instance (snd (ray_reconcile fw cli env letter base r)))"
  using actions_frame [OF assms(2,3) subset_refl] assms(1)
  by (simp add: ray_reconcile_def SetupWithManager_def runs_in_order_def)

lemma reconcileGC_instance:
  assumes "gc_lawful fw view"
  shows "rr_Instance (snd (reconcileGCAction fw cli nsFn r)) = rr_Instance r"
proof -
  obtain w where "snd (deleteOwnedOperands cli r) = r\<lparr>rr_Cluster := w\<rparr>"
    using deleteOwnedOperands_frame [of cli r] by blast
  then show ?thesis
    by (cases "deleteOwnedOperands cli r")
      (auto simp: reconcileGCAction_def gc_lawfulD [OF assms] split: option.splits)
qed

lemma pipeline_observed:
  assumes "runs_in_order fw" and "gc_lawful fw view"
    and "ray_reconcile fw cli env letter base r = (None, r')"
  shows "ObservedGeneration (Status (rr_Instance r')) = meta_Generation (rr_Instance r')"
proof -
  obtain r1 where "seq_actions (from_deploy fw cli base) r1 = (None, r')"
    using assms(3) by (auto simp: reconcile_split [OF assms(1)] split: prod.splits option.splits)
  moreover have "from_deploy fw cli base
      = take 5 (from_deploy fw cli base) @ [observedGenerationAction, reconcileGCAction fw cli namespaceFn]"
    by (simp add: from_deploy_def)
  ultimately obtain r5 where "seq_actions [observedGenerationAction, reconcileGCAction fw cli namespaceFn] r5 = (None, r')"
    using seq_actions_appendD [of "take 5 (from_deploy fw cli base)"] by metis
  then have "reconcileGCAction fw cli namespaceFn (snd (observedGenerationAction r5)) = (None, r')"
    by (auto simp: observedGenerationAction_def split: prod.splits option.splits)
  with reconcileGC_instance [OF assms(2), of cli namespaceFn "snd (observedGenerationAction r5)"] show ?thesis
    by (simp add: observedGenerationAction_def)
qed

lemma wait_result:
  assumes "finalizer_lawful fw" and "waitForNamespace fw cli r = (held, r')"
  shows "held \<longleftrightarrow> apps_ns r = []" and "\<not> held \<Longrightarrow> r' = r"
    and "rr_Cluster r' = rr_Cluster r \<or> rr_Cluster r' = snd (cli_updateRay cli (rr_Instance r') (rr_Cluster r))"
    and "rr_Instance r' = (rr_Instance r)\<lparr>meta_Finalizers := meta_Finalizers (rr_Instance r')\<rparr>"
    and "held \<Longrightarrow> meta_Finalizers (rr_Instance r') = filter (\<lambda>f. f \<noteq> FinalizerName) (meta_Finalizers (rr_Instance r))"
  using assms unfolding finalizer_lawful_def waitForNamespace_def Let_def
  by (auto split: prod.splits option.splits if_splits)

lemma wait_spec:
  assumes "finalizer_lawful fw"
  shows "Spec (rr_Instance (snd (waitForNamespace fw cli r))) = Spec (rr_Instance r)"
    and "meta_Name (rr_Instance (snd (waitForNamespace fw cli r))) = meta_Name (rr_Instance r)"
  using assms unfolding finalizer_lawful_def waitForNamespace_def Let_def
  by (auto split: prod.split option.split)

lemma stored_step_keeps:
  assumes "runs_in_order fw" and "actions_lawful fw" and "conditions_lawful fw" and "finalizer_lawful fw"
    and "stored_step fw cli env letter base old new"
  shows "cel_namespace_rule old new \<and> (cel_name_rule old \<longrightarrow> cel_name_rule new)"
  using assms(5)
proof cases
  case (reconcile r)
  with cr_frameD [OF pipeline_frame [OF assms(1-3), of r cli env letter base]] show ?thesis
    by (simp add: cel_namespace_rule_def cel_name_rule_def)
next
  case (wait r)
  with wait_spec [OF assms(4), of cli r] show ?thesis by (simp add: cel_namespace_rule_def cel_name_rule_def)
qed simp

section \<open>A concrete pipeline\<close>

definition sample_pipeline :: "cluster framework" where
  "sample_pipeline =
     sample_framework\<lparr>fw_render := (\<lambda>p ns fs. Inr sample_rendered),
       fw_restMapping := (\<lambda>g k v w. (Some (EExt ''no match''), w))\<rparr>"

lemma sample_pipeline_lawful:
  "runs_in_order sample_pipeline" "actions_lawful sample_pipeline" "conditions_lawful sample_pipeline"
  "finalizer_lawful sample_pipeline" "gc_lawful sample_pipeline cl_Objs"
  by (auto simp: runs_in_order_def actions_lawful_def conditions_lawful_def finalizer_lawful_def gc_lawful_def
      sample_pipeline_def sample_framework_def put_condition_def SetConditions_def)

abbreviation sample_before :: "cluster action list" where
  "sample_before \<equiv> before_deploy sample_pipeline mem_client sample_env (\<lambda>s. 0) ''/opt/manifests''"

abbreviation sample_reconcile :: "cluster action" where
  "sample_reconcile \<equiv> ray_reconcile sample_pipeline mem_client sample_env (\<lambda>s. 0) ''/opt/manifests''"

definition sample_managed :: "cluster rr" where
  "sample_managed = sample_rr sample_tree sample_operands"

text \<open>A removed component, with a stale object in the request.\<close>

definition sample_removed :: "cluster rr" where
  "sample_removed =
     sample_managed\<lparr>rr_Instance := sample_ray\<lparr>Spec := \<lparr>ManagementState = Removed, ApplicationsNamespace = ''odh''\<rparr>\<rparr>,
       rr_Resources := sample_rendered, rr_Extensions := Some [(''ray.removed'', EBool True)]\<rparr>"

definition sample_waiting :: "cluster rr" where
  "sample_waiting =
     sample_managed\<lparr>rr_Instance := sample_ray\<lparr>Spec := \<lparr>ManagementState = Managed, ApplicationsNamespace = []\<rparr>,
       meta_Finalizers := [''foreground'', ''platform.opendatahub.io/finalizer'']\<rparr>\<rparr>"

lemma sample_requests:
  "ManagementState (Spec (rr_Instance sample_removed)) = Removed" "removed sample_removed"
  "rr_Resources sample_managed = []" "rr_Resources sample_removed \<noteq> []"
  "inj_on obj_key (set (cl_Objs (rr_Cluster sample_managed)))"
  "inj_on obj_key (set (cl_Objs (rr_Cluster sample_removed)))"
  "apps_ns sample_removed \<noteq> []"
  using sample_operands_facts(1)
  by (simp_all add: sample_removed_def sample_managed_def sample_rr_def sample_rendered_def removed_def ext_get_def
      ExtKeyRemoved_def)

section \<open>Properties\<close>

text \<open>
  The wait for the namespace: the pass is held back exactly while the namespace is empty; the
  module's finalizer is then taken off the instance and all others stay, whatever the update of the
  stored resource answers; otherwise the request is untouched.
\<close>

theorem waitForNamespace_holds_back:
  assumes "finalizer_lawful fw" and "waitForNamespace fw cli r = (held, r')"
  shows "(held \<longleftrightarrow> apps_ns r = []) \<and> (\<not> held \<longrightarrow> r' = r)
     \<and> (held \<longrightarrow> meta_Finalizers (rr_Instance r')
                 = filter (\<lambda>f. f \<noteq> ''platform.opendatahub.io/finalizer'') (meta_Finalizers (rr_Instance r)))
     \<and> Spec (rr_Instance r') = Spec (rr_Instance r)"
  using wait_result [OF assms] wait_spec(1) [OF assms(1), of cli r] assms(2) by (auto simp: FinalizerName_def)

section \<open>Witnesses\<close>

theorem waitForNamespace_holds_back_witness:
  "fst (waitForNamespace sample_pipeline mem_client sample_waiting)
   \<and> meta_Finalizers (rr_Instance (snd (waitForNamespace sample_pipeline mem_client sample_waiting))) = [''foreground'']"
proof -
  have "apps_ns sample_waiting = []" and "filter (\<lambda>f. f \<noteq> ''platform.opendatahub.io/finalizer'')
      (meta_Finalizers (rr_Instance sample_waiting)) = [''foreground'']" by code_simp+
  with waitForNamespace_holds_back [OF sample_pipeline_lawful(4) prod.collapse [symmetric],
      of mem_client sample_waiting] show ?thesis by metis
qed

end
