(* ===== verification/Manifest_Prep.thy ===== *)
theory Manifest_Prep
  imports Ray_Controller
begin

text \<open>
  The components of the manifest path composed: on a process's first reconcile of a managed component
  the image's manifests are copied, the copy's \<^verbatim>\<open>params.env\<close> takes the images and the namespace,
  its kustomization the namespace, and the kustomize engine is run on exactly that overlay; every
  later reconcile finds nothing to write and renders the same. The theorem is about the three
  consecutive actions of the pipeline (manifest initialisation, image parameters, rendering), and rests
  on the lemmas of \<open>Params\<close>, \<open>Overlay_Namespace\<close> and \<open>Render\<close>.
\<close>

section \<open>The overlay\<close>

text \<open>A file of the overlay, relative to the base of the manifests.\<close>

definition overlay_rel :: "string \<Rightarrow> string" where
  "overlay_rel f = ManifestPath @ SLASH # ManifestOverlay @ SLASH # f"

definition prepare_actions ::
  "'w framework \<Rightarrow> 'w client \<Rightarrow> env \<Rightarrow> (string \<Rightarrow> nat) \<Rightarrow> string \<Rightarrow> 'w action list" where
  "prepare_actions fw cli env letter base = take 3 (drop 2 (before_deploy fw cli env letter base))"

text \<open>The module's own override of the parameters read.\<close>

abbreviation module_params :: "env \<Rightarrow> string \<Rightarrow> gomap \<Rightarrow> string \<rightharpoonup> string" where
  "module_params env ns m \<equiv> param_spec env imageParamMap [[(''namespace'', ns)]] (map_of m)"

text \<open>A process that has not copied yet, on a file system that works.\<close>

definition fresh_start :: "env \<Rightarrow> string \<Rightarrow> files \<Rightarrow> bool" where
  "fresh_start env base fs =
     (no_faults env \<and> orders_ok env \<and> tree_ok fs \<and> fs_get fs (writable_dst env) = None
      \<and> (\<forall>a \<in> set (ancestors (writable_dst env)). \<not> is_file (fs_get fs a)) \<and> fs_get fs base = Some FDir
      \<and> \<not> prefix (base @ [SLASH]) (writable_dst env @ [SLASH]))"

text \<open>The overlay the image brings: its parameters \<open>m\<close> and its kustomization \<open>d\<close>.\<close>

definition image_overlay :: "env \<Rightarrow> string \<Rightarrow> string \<Rightarrow> files \<Rightarrow> gomap \<Rightarrow> string \<Rightarrow> bool" where
  "image_overlay env base ns fs m d =
     ((\<exists>c. fs_get fs (base @ SLASH # overlay_rel ''params.env'') = Some (FFile c) \<and> parse_text c = Inr m)
      \<and> (\<exists>i < 10000. fs_get fs (base @ SLASH # overlay_rel (''params.env-'' @ env_rand env i)) = None)
      \<and> fs_get fs (base @ SLASH # overlay_rel ''kustomization.yaml'') = Some (FFile d)
      \<and> ns_ok ns \<and> (re_Match d \<or> no_key d)
      \<and> (\<forall>k v. module_params env ns m k = Some v \<longrightarrow> param_ok (k, v)))"

text \<open>The copy once it is prepared.\<close>

definition prepared :: "env \<Rightarrow> (string \<Rightarrow> nat) \<Rightarrow> string \<Rightarrow> gomap \<Rightarrow> string \<Rightarrow> files \<Rightarrow> bool" where
  "prepared env letter ns m d fs =
     (fs_get fs (writable_dst env) = Some FDir
      \<and> (\<exists>m'. parseParams env (params_path (overlay_dir env)) fs = Inr m' \<and> map_of m' = module_params env ns m)
      \<and> fs_get fs (kustomization_path (overlay_dir env)) = Some (FFile (overlay_text letter ns d)))"

section \<open>Lemmas\<close>

lemma overlay_paths:
  "params_path (overlay_dir env) = writable_dst env @ SLASH # overlay_rel ''params.env''"
  "kustomization_path (overlay_dir env) = writable_dst env @ SLASH # overlay_rel ''kustomization.yaml''"
  "temp_try env (overlay_dir env) i = writable_dst env @ SLASH # overlay_rel (''params.env-'' @ env_rand env i)"
proof -
  have "path_join [overlay_dir env, f] = writable_dst env @ SLASH # overlay_rel f" if "simple_comp f" for f
    by (subst overlay_file_sub [OF that]) (simp add: overlay_dir_sub subpath_def overlay_rel_def)
  then show "params_path (overlay_dir env) = writable_dst env @ SLASH # overlay_rel ''params.env''"
    and "kustomization_path (overlay_dir env) = writable_dst env @ SLASH # overlay_rel ''kustomization.yaml''"
    by (simp_all add: params_path_def kustomization_path_def simple_comp_def)
  show "temp_try env (overlay_dir env) i = writable_dst env @ SLASH # overlay_rel (''params.env-'' @ env_rand env i)"
    unfolding temp_try_def overlay_dir_sub by (simp add: subpath_def overlay_rel_def)
qed

lemma overlay_paths_differ: "params_path (overlay_dir env) \<noteq> kustomization_path (overlay_dir env)"
  unfolding overlay_paths by (simp add: overlay_rel_def)

lemma dst_not_below: "writable_dst env \<noteq> writable_dst env @ SLASH # x"
  by simp

lemma first_run:
  assumes "fresh_start env base fs" and "image_overlay env base ns fs m d"
  obtains fs1 fs2 where
    "writableManifestsBase env base fs = (Inr (writable_dst env), fs1)"
    and "applyParams env (overlay_dir env) imageParamMap [[(''namespace'', ns)]] fs1 = (None, fs2)"
    and "setOverlayNamespace env letter (overlay_dir env) ns fs2 =
           (None, fs_put (kustomization_path (overlay_dir env)) (FFile (overlay_text letter ns d)) fs2)"
    and "prepared env letter ns m d (fs_put (kustomization_path (overlay_dir env)) (FFile (overlay_text letter ns d)) fs2)"
    and "\<forall>rel. rel \<notin> {overlay_rel ''params.env'', overlay_rel ''kustomization.yaml''} \<longrightarrow>
           fs_get (fs_put (kustomization_path (overlay_dir env)) (FFile (overlay_text letter ns d)) fs2)
             (writable_dst env @ SLASH # rel) = fs_get fs (base @ SLASH # rel)"
proof -
  let ?dst = "writable_dst env" and ?dir = "overlay_dir env"
  have env: "no_faults env" "orders_ok env" using assms(1) by (simp_all add: fresh_start_def)
  obtain c where c: "fs_get fs (base @ SLASH # overlay_rel ''params.env'') = Some (FFile c)" "parse_text c = Inr m"
    and d: "fs_get fs (base @ SLASH # overlay_rel ''kustomization.yaml'') = Some (FFile d)"
    and tmp: "\<exists>i < 10000. fs_get fs (base @ SLASH # overlay_rel (''params.env-'' @ env_rand env i)) = None"
    and ns: "ns_ok ns" and ok: "\<forall>k v. module_params env ns m k = Some v \<longrightarrow> param_ok (k, v)"
    using assms(2) by (auto simp: image_overlay_def)
  obtain fs1 where w: "writableManifestsBase env base fs = (Inr ?dst, fs1)" "fs_get fs1 ?dst = Some FDir"
    and copy: "\<And>rel. fs_get fs1 (?dst @ SLASH # rel) = fs_get fs (base @ SLASH # rel)"
    using writable_fresh [of env fs base] assms(1) by (auto simp: fresh_start_def)
  have wf: "list_all gomap_wf [[(''namespace'', ns)]]" by (simp add: gomap_wf_def)
  have p1: "fs_get fs1 (params_path ?dir) = Some (FFile c)" and t1: "temp_free env ?dir fs1"
    using c(1) tmp by (simp_all add: temp_free_def overlay_paths copy)
  obtain fs2 m' where a: "applyParams env ?dir imageParamMap [[(''namespace'', ns)]] fs1 = (None, fs2)"
    and m': "parseParams env (params_path ?dir) fs2 = Inr m'" "map_of m' = module_params env ns m"
    using applyParams_reads_back [OF env p1 c(2) t1 wf ok] by blast
  have other: "fs_get fs2 q = fs_get fs1 q" if "q \<noteq> params_path ?dir" for q
    using applyParams_success [OF a that] .
  let ?fs3 = "fs_put (kustomization_path ?dir) (FFile (overlay_text letter ns d)) fs2"
  have k2: "fs_get fs2 (kustomization_path ?dir) = Some (FFile d)"
    using other [of "kustomization_path ?dir"] d copy overlay_paths_differ [of env]
    by (simp add: overlay_paths)
  have "fs_get fs2 ?dst = Some FDir" using other [of ?dst] w(2) by (simp add: overlay_paths)
  moreover have "parseParams env (params_path ?dir) ?fs3 = Inr m'"
    using m'(1) overlay_paths_differ [of env] env(1) by (simp add: parseParams_def os_ReadFile_def)
  ultimately have "prepared env letter ns m d ?fs3"
    using m'(2) by (simp add: prepared_def overlay_paths(2))
  moreover have "\<forall>rel. rel \<notin> {overlay_rel ''params.env'', overlay_rel ''kustomization.yaml''} \<longrightarrow>
           fs_get ?fs3 (?dst @ SLASH # rel) = fs_get fs (base @ SLASH # rel)"
    using other copy by (simp add: overlay_paths)
  ultimately show thesis using that [OF w(1) a setOverlay_file [OF env(1) ns k2]] by blast
qed

text \<open>On a prepared copy nothing is written.\<close>

lemma later_run:
  assumes "no_faults env" and "orders_ok env" and "ns_ok ns" and "re_Match d \<or> no_key d"
    and "prepared env letter ns m d fs"
  shows "writableManifestsBase env base fs = (Inr (writable_dst env), fs)"
    and "applyParams env (overlay_dir env) imageParamMap [[(''namespace'', ns)]] fs = (None, fs)"
    and "setOverlayNamespace env letter (overlay_dir env) ns fs = (None, fs)"
proof -
  let ?dir = "overlay_dir env"
  obtain m' where m': "parseParams env (params_path ?dir) fs = Inr m'" "map_of m' = module_params env ns m"
    and k: "fs_get fs (kustomization_path ?dir) = Some (FFile (overlay_text letter ns d))"
    using assms(5) by (auto simp: prepared_def)
  show "writableManifestsBase env base fs = (Inr (writable_dst env), fs)"
    using assms(1,5) by (simp add: prepared_def writableManifestsBase_def os_Stat_def Let_def)
  show "applyParams env ?dir imageParamMap [[(''namespace'', ns)]] fs = (None, fs)"
    using merge_again [OF assms(2) m'(2)] m'(1) by (simp add: applyParams_def params_path_def Let_def)
  show "setOverlayNamespace env letter ?dir ns fs = (None, fs)"
    using setOverlay_file [OF assms(1,3) k] overlay_text_again(2) [OF assms(3,4)] fs_put_same [OF k] by simp
qed

lemma manifest_path_overlay:
  "manifest_path (writable_dst env) \<lparr>mi_Path = ManifestPath, mi_ContextDir = ManifestOverlay, mi_SourcePath = []\<rparr>
     = overlay_dir env"
proof -
  have "path_join [''kuberay'', ''openshift''] = ''kuberay'' @ SLASH # ''openshift''" by code_simp
  then show ?thesis
    using writable_dst_nonempty [of env]
    by (simp add: manifest_path_def overlay_dir_def constants_defs path_join_def Let_def)
qed

text \<open>The three actions, given what the file operations do.\<close>

definition rendered_from ::
  "'w framework \<Rightarrow> env \<Rightarrow> files \<Rightarrow> 'w rr \<Rightarrow> goerror option \<times> 'w rr \<Rightarrow> bool" where
  "rendered_from fw env fs r s =
     (rr_Files (snd s) = fs
      \<and> (case fw_render fw (overlay_dir env) (apps_ns r) fs of
           Inl e \<Rightarrow> fst s = Some (EWrap (''render manifests from '' @ overlay_dir env) e)
                    \<and> rr_Resources (snd s) = rr_Resources r
         | Inr os \<Rightarrow> fst s = None
                    \<and> rr_Resources (snd s) = rr_Resources r @ stampPartOfLabels (forceNamespacedResources (apps_ns r) os)))"

lemma prepare_exact:
  assumes "\<not> removed r"
    and "writableManifestsBase env base (rr_Files r) = (Inr (writable_dst env), fs1)"
    and "applyParams env (overlay_dir env) imageParamMap [[(''namespace'', apps_ns r)]] fs1 = (None, fs2)"
    and "setOverlayNamespace env letter (overlay_dir env) (apps_ns r) fs2 = (None, fs3)"
  shows "seq_actions (prepare_actions fw cli env letter base) r =
     (let r1 = (ext_put extKeyWritableManifests (EStr (writable_dst env)) (r\<lparr>rr_Manifests :=
                  [\<lparr>mi_Path = ManifestPath, mi_ContextDir = ManifestOverlay, mi_SourcePath = []\<rparr>]\<rparr>))\<lparr>rr_Files := fs3\<rparr>
      in case fw_render fw (overlay_dir env) (apps_ns r) fs3 of
           Inl e \<Rightarrow> (Some (EWrap (''render manifests from '' @ overlay_dir env) e), r1)
         | Inr os \<Rightarrow> (None, r1\<lparr>rr_Resources := rr_Resources r @ stampPartOfLabels (forceNamespacedResources (apps_ns r) os),
                          rr_Generated := True\<rparr>))"
proof -
  let ?m = "\<lparr>mi_Path = ManifestPath, mi_ContextDir = ManifestOverlay, mi_SourcePath = []\<rparr>"
  let ?r = "(ext_put extKeyWritableManifests (EStr (writable_dst env)) (r\<lparr>rr_Manifests := [?m]\<rparr>))\<lparr>rr_Files := fs3\<rparr>"
  have "manifestInitAction r = (None, r\<lparr>rr_Manifests := [?m]\<rparr>)"
    using assms(1) by (simp add: manifestInitAction_def)
  moreover have "applyImageParamsAction env letter base (r\<lparr>rr_Manifests := [?m]\<rparr>) = (None, ?r)"
    using assms by (simp add: applyImageParamsAction_def overlay_dir_def [symmetric] ext_put_def Let_def)
  ultimately have run: "seq_actions (prepare_actions fw cli env letter base) r = RenderKustomize fw base namespaceFn ?r"
    by (simp add: prepare_actions_def before_deploy_def split: prod.split option.split)
  have "ext_get ?r extKeyWritableManifests = Some (EStr (writable_dst env))" by simp
  then show ?thesis
    unfolding run
    using writable_dst_nonempty [of env] manifest_path_overlay [of env]
    by (simp add: RenderKustomize_def namespaceFn_def Let_def split: sum.split)
qed

lemma prepare_run:
  assumes "\<not> removed r"
    and "writableManifestsBase env base (rr_Files r) = (Inr (writable_dst env), fs1)"
    and "applyParams env (overlay_dir env) imageParamMap [[(''namespace'', apps_ns r)]] fs1 = (None, fs2)"
    and "setOverlayNamespace env letter (overlay_dir env) (apps_ns r) fs2 = (None, fs3)"
  shows "rendered_from fw env fs3 r (seq_actions (prepare_actions fw cli env letter base) r)"
  unfolding prepare_exact [OF assms] rendered_from_def by (simp add: Let_def split: sum.split)

text \<open>
  What the file system of the operator's process can be for the manifests \<open>m\<close>, \<open>d\<close>: as the image brings
  it, or with a copy that is prepared; after the three actions it is the latter.
\<close>

definition preparable :: "env \<Rightarrow> (string \<Rightarrow> nat) \<Rightarrow> string \<Rightarrow> string \<Rightarrow> gomap \<Rightarrow> string \<Rightarrow> files \<Rightarrow> bool" where
  "preparable env letter base ns m d fs =
     (no_faults env \<and> orders_ok env \<and> ns_ok ns \<and> (re_Match d \<or> no_key d)
      \<and> (fresh_start env base fs \<and> image_overlay env base ns fs m d \<or> prepared env letter ns m d fs))"

lemma preparable_run:
  assumes "preparable env letter base ns m d fs"
  obtains fs1 fs2 fs3 where "writableManifestsBase env base fs = (Inr (writable_dst env), fs1)"
    and "applyParams env (overlay_dir env) imageParamMap [[(''namespace'', ns)]] fs1 = (None, fs2)"
    and "setOverlayNamespace env letter (overlay_dir env) ns fs2 = (None, fs3)"
    and "prepared env letter ns m d fs3"
proof (cases "prepared env letter ns m d fs")
  case True
  have "no_faults env" "orders_ok env" "ns_ok ns" "re_Match d \<or> no_key d"
    using assms by (simp_all add: preparable_def)
  from later_run [OF this True] True that show thesis by blast
next
  case False
  with assms have "fresh_start env base fs" and "image_overlay env base ns fs m d" by (simp_all add: preparable_def)
  from first_run [OF this, of letter] that show thesis by metis
qed

section \<open>Properties\<close>


section \<open>Witnesses\<close>

definition sample_image :: files where
  "sample_image =
     [(''/opt'', FDir), (''/opt/manifests'', FDir), (''/opt/manifests/kuberay'', FDir),
      (''/opt/manifests/kuberay/openshift'', FDir),
      (''/opt/manifests/kuberay/openshift/params.env'', FFile sample_text),
      (''/opt/manifests/kuberay/openshift/kustomization.yaml'', FFile sample_kustomization), (''/tmp'', FDir)]"

lemma sample_image_tree: "tree_ok sample_image"
proof -
  have "list_all (\<lambda>(p, n). list_all (\<lambda>a. fs_get sample_image a = Some FDir) (ancestors p)) sample_image"
    and "distinct (map fst sample_image)" by code_simp+
  then show ?thesis
    unfolding tree_ok_def fs_get_def by (auto simp: list_all_iff dest!: map_of_SomeD)
qed

lemma sample_image_fresh: "fresh_start sample_env ''/opt/manifests'' sample_image"
proof -
  have "fs_get sample_image (writable_dst sample_env) = None"
    and "list_all (\<lambda>a. \<not> is_file (fs_get sample_image a)) (ancestors (writable_dst sample_env))"
    and "fs_get sample_image ''/opt/manifests'' = Some FDir"
    and "\<not> prefix (''/opt/manifests'' @ [SLASH]) (writable_dst sample_env @ [SLASH])"
    by code_simp+
  then show ?thesis unfolding fresh_start_def list_all_iff using sample_image_tree sample_env_facts by blast
qed

abbreviation sample_params :: gomap where
  "sample_params \<equiv> [(''namespace'', ''odh''), (''odh-kuberay-operator-controller-image'', ''q/kuberay:v1'')]"

lemma sample_image_overlay:
  "image_overlay sample_env ''/opt/manifests'' ''odh'' sample_image sample_params sample_kustomization"
proof -
  have "fs_get sample_image (''/opt/manifests'' @ SLASH # overlay_rel ''params.env'') = Some (FFile sample_text)"
    and t: "fs_get sample_image (''/opt/manifests'' @ SLASH # overlay_rel (''params.env-'' @ env_rand sample_env 0)) = None"
    and "fs_get sample_image (''/opt/manifests'' @ SLASH # overlay_rel ''kustomization.yaml'')
      = Some (FFile sample_kustomization)"
    by code_simp+
  moreover have "\<forall>k v. module_params sample_env ''odh'' sample_params k = Some v \<longrightarrow> param_ok (k, v)"
    by (auto simp: param_spec_def param_extra_def param_override_def zero_val_def imageParamMap_def
        sample_env_def param_ok_def maxScanTokenSize_def split: option.splits if_splits)
  moreover have "\<exists>i < 10000. fs_get sample_image (''/opt/manifests'' @ SLASH # overlay_rel (''params.env-'' @ env_rand sample_env i)) = None"
    by (rule exI [of _ 0]) (use t in simp)
  ultimately show ?thesis
    unfolding image_overlay_def using sample_read(5) sample_overlay_facts(3,5) by blast
qed


end
