(* ===== verification/Convergence.thy ===== *)
theory Convergence
  imports Ray_Controller
begin

text \<open>
  What happens to a pass that fails: the controller runtime hands the request out again. \<open>requeue\<close> is
  that loop, a partial function, since nothing in it says that the errors end. It stands for code of
  the controller runtime, and between two repetitions nothing else writes to the cluster (the interleaved
  steps of others are in \<open>Life_Cycle\<close>). Under the
  hypothesis that the API server and the framework fail finitely often (\<open>errors_bounded\<close>: every failed
  call costs some of a budget the world has), the loop returns, after at most as many repetitions as the
  budget, and leaves what a successful pass leaves. The proofs are in a small Hoare logic for actions,
  with one postcondition for success and one for failure; the contract of an action that may be repeated
  is the locale \<open>retried_action\<close>, interpreted on the clean-up behind the finalizer and on the whole
  pass of a removed component.
\<close>

section \<open>The loop\<close>

text \<open>
  The request of the next attempt is a new one: the instance as it was left, the file system, the
  cached answer of the REST mapper and the cluster carry over.
\<close>

definition next_request :: "'w rr \<Rightarrow> 'w rr" where
  "next_request r = r\<lparr>rr_Extensions := None, rr_Manifests := [], rr_Resources := [], rr_Generated := False\<rparr>"

partial_function (option) requeue :: "'w action \<Rightarrow> nat \<Rightarrow> 'w rr \<Rightarrow> (nat \<times> 'w rr) option" where
  [code]: "requeue act n r =
     (case act r of (e, r') \<Rightarrow>
        (case e of None \<Rightarrow> Some (n, r') | Some err \<Rightarrow> requeue act (Suc n) (next_request r')))"

section \<open>Triples\<close>

text \<open>
  \<open>charged b I act J K\<close>: from a request with \<open>I\<close>, the action ends with \<open>J\<close> or fails with \<open>K\<close>; it
  never adds to the budget, and a failure has cost some of it.
\<close>

definition pays :: "('w \<Rightarrow> nat) \<Rightarrow> bool \<Rightarrow> 'w \<Rightarrow> 'w \<Rightarrow> bool" where
  "pays b failed w w' = (b w' \<le> b w \<and> (failed \<longrightarrow> b w' < b w))"

definition charged ::
  "('w \<Rightarrow> nat) \<Rightarrow> ('w rr \<Rightarrow> bool) \<Rightarrow> 'w action \<Rightarrow> ('w rr \<Rightarrow> bool) \<Rightarrow> ('w rr \<Rightarrow> bool) \<Rightarrow> bool" where
  "charged b I act J K =
     (\<forall>r e r'. I r \<longrightarrow> act r = (e, r') \<longrightarrow>
        pays b (e \<noteq> None) (rr_Cluster r) (rr_Cluster r') \<and> (if e = None then J r' else K r'))"

locale retried_action =
  fixes ok :: bool
    and act :: "'w rr \<Rightarrow> goerror option \<times> 'w rr"
    and b :: "'w \<Rightarrow> nat"
    and inv :: "'w rr \<Rightarrow> bool"
    and good :: "'w rr \<Rightarrow> bool"
  assumes attempt: "ok \<Longrightarrow> charged b inv act good (\<lambda>r. inv (next_request r))"
begin

lemma requeue_ends:
  assumes ok and "inv r"
  shows "\<exists>m r'. requeue act n r = Some (m, r') \<and> n \<le> m \<and> m \<le> n + b (rr_Cluster r) \<and> good r'"
  using assms(2)
proof (induction "b (rr_Cluster r)" arbitrary: r n rule: less_induct)
  case less
  obtain e r1 where a: "act r = (e, r1)" by (cases "act r")
  have c: "pays b (e \<noteq> None) (rr_Cluster r) (rr_Cluster r1)"
    "if e = None then good r1 else inv (next_request r1)"
    using attempt [OF assms(1)] less.prems a unfolding charged_def by blast+
  show ?case
  proof (cases e)
    case None
    with c a show ?thesis by (simp add: requeue.simps)
  next
    case (Some err)
    have "b (rr_Cluster (next_request r1)) < b (rr_Cluster r)" and "inv (next_request r1)"
      using c Some by (simp_all add: pays_def next_request_def)
    from less.hyps [OF this, of "Suc n"] obtain m r' where
      "requeue act (Suc n) (next_request r1) = Some (m, r')" "Suc n \<le> m"
      "m \<le> Suc n + b (rr_Cluster (next_request r1))" "good r'"
      by blast
    with \<open>b (rr_Cluster (next_request r1)) < b (rr_Cluster r)\<close> show ?thesis
      using a Some by (subst requeue.simps) auto
  qed
qed

end

section \<open>Rules\<close>

lemma pays_refl [simp]: "pays b False w w"
  by (simp add: pays_def)

lemma pays_trans: "pays b False w w1 \<Longrightarrow> pays b f w1 w2 \<Longrightarrow> pays b f w w2"
  by (auto simp: pays_def)

lemma pays_weaken: "pays b f w w' \<Longrightarrow> (g \<Longrightarrow> f) \<Longrightarrow> pays b g w w'"
  by (auto simp: pays_def)

lemma chargedD:
  assumes "charged b I act J K" and "I r" and "act r = (e, r')"
  shows "pays b (e \<noteq> None) (rr_Cluster r) (rr_Cluster r')" and "e = None \<Longrightarrow> J r'" and "e \<noteq> None \<Longrightarrow> K r'"
  using assms unfolding charged_def by (metis (full_types))+

lemma charged_conseq:
  assumes "charged b I act J K" and "\<And>r. I' r \<Longrightarrow> I r" and "\<And>r. J r \<Longrightarrow> J' r" and "\<And>r. K r \<Longrightarrow> K' r"
  shows "charged b I' act J' K'"
  using assms unfolding charged_def by (metis (full_types))

text \<open>An action that does not fail.\<close>

lemma charged_total:
  assumes "\<And>r. I r \<Longrightarrow> fst (act r) = None \<and> pays b False (rr_Cluster r) (rr_Cluster (snd (act r))) \<and> J (snd (act r))"
  shows "charged b I act J K"
  unfolding charged_def
proof (intro allI impI)
  fix r e r' assume "I r" and "act r = (e, r')"
  with assms [of r] show "pays b (e \<noteq> None) (rr_Cluster r) (rr_Cluster r') \<and> (if e = None then J r' else K r')"
    by simp
qed

lemma charged_seq:
  assumes "charged b I a J K" and "charged b J (seq_actions as) L K"
  shows "charged b I (seq_actions (a # as)) L K"
  unfolding charged_def
proof (intro allI impI)
  fix r e r' assume i: "I r" and run: "seq_actions (a # as) r = (e, r')"
  obtain e1 r1 where a: "a r = (e1, r1)" by (cases "a r")
  note one = chargedD [OF assms(1) i a]
  show "pays b (e \<noteq> None) (rr_Cluster r) (rr_Cluster r') \<and> (if e = None then L r' else K r')"
  proof (cases e1)
    case None
    have "seq_actions as r1 = (e, r')" using run a None by simp
    from chargedD [OF assms(2) one(2) [OF None] this] one(1) None show ?thesis
      by (auto intro: pays_trans)
  qed (use one run a in auto)
qed

lemma charged_seq_Nil: "(\<And>r. I r \<Longrightarrow> J r) \<Longrightarrow> charged b I (seq_actions []) J K"
  by (simp add: charged_def)

lemma charged_seq_one: "charged b I a J K \<Longrightarrow> charged b I (seq_actions [a]) J K"
  by (rule charged_seq [OF _ charged_seq_Nil])

section \<open>Finitely many errors\<close>

text \<open>
  Every call of the client and of the framework that fails takes from the budget; what the code takes
  for the absence of an object is not a failure. Taking the items out of a typed list does not fail: it
  makes no call.
\<close>

definition get_failed :: "kerror + 'a \<Rightarrow> bool" where
  "get_failed res = (case res of Inl err \<Rightarrow> err \<noteq> NotFound | Inr x \<Rightarrow> False)"

definition list_failed :: "kerror + 'a \<Rightarrow> bool" where
  "list_failed res = (case res of Inl err \<Rightarrow> err \<notin> {NotFound, NoMatch, NotRegistered} | Inr x \<Rightarrow> False)"

definition write_failed :: "kerror option \<Rightarrow> bool" where
  "write_failed res = (res \<noteq> None \<and> res \<noteq> Some NotFound)"

lemmas failed_defs = get_failed_def list_failed_def write_failed_def

definition errors_bounded :: "'w framework \<Rightarrow> 'w client \<Rightarrow> ('w \<Rightarrow> nat) \<Rightarrow> bool" where
  "errors_bounded fw cli b =
     ((\<forall>g n ns w res w'. cli_get cli g n ns w = (res, w') \<longrightarrow> pays b (get_failed res) w w')
      \<and> (\<forall>g ns w res w'. cli_list cli g ns w = (res, w') \<longrightarrow>
           pays b (list_failed res) w w')
      \<and> (\<forall>items err. cli_extractList cli items \<noteq> Inl err)
      \<and> (\<forall>x w res w'. cli_update cli x w = (res, w') \<longrightarrow> pays b (write_failed res) w w')
      \<and> (\<forall>x w res w'. cli_delete cli x w = (res, w') \<longrightarrow> pays b (write_failed res) w w')
      \<and> (\<forall>f os r e r'. fw_gc fw f os r = (e, r') \<longrightarrow> pays b (e \<noteq> None) (rr_Cluster r) (rr_Cluster r'))
      \<and> (\<forall>os r e r'. fw_deploy fw os r = (e, r') \<longrightarrow> pays b (e \<noteq> None) (rr_Cluster r) (rr_Cluster r'))
      \<and> (\<forall>g v k w e w'. fw_restMapping fw g v k w = (e, w') \<longrightarrow> pays b False w w'))"

lemma errors_boundedD:
  assumes "errors_bounded fw cli b"
  shows "cli_get cli g n ns w = (gres, w') \<Longrightarrow> pays b (get_failed gres) w w'"
    and "cli_list cli g lns w = (lres, w') \<Longrightarrow>
      pays b (list_failed lres) w w'"
    and "cli_update cli x w = (res, w') \<Longrightarrow> pays b (write_failed res) w w'"
    and "cli_delete cli x w = (res, w') \<Longrightarrow> pays b (write_failed res) w w'"
    and "fw_gc fw f os r = (e, r') \<Longrightarrow> pays b (e \<noteq> None) (rr_Cluster r) (rr_Cluster r')"
    and "fw_deploy fw ds r = (e, r') \<Longrightarrow> pays b (e \<noteq> None) (rr_Cluster r) (rr_Cluster r')"
    and "fw_restMapping fw v1 v2 v3 w = (e, w') \<Longrightarrow> pays b False w w'"
    and "\<exists>objs. cli_extractList cli items = Inr objs"
  using assms unfolding errors_bounded_def by (elim conjE, metis sum.exhaust)+

lemma delete_items_pays:
  assumes "errors_bounded fw cli b" and "delete_items cli uid items w = (e, w')"
  shows "pays b (e \<noteq> None) w w'"
  using assms(2)
proof (induction items arbitrary: w)
  case (Cons item items)
  show ?case
  proof (cases "\<exists>x. item = Some x \<and> (ownedByUID x uid \<or> labeledOperand x)")
    case True
    then obtain x where x: "item = Some x" "ownedByUID x uid \<or> labeledOperand x" by blast
    obtain err w1 where d: "cli_delete cli x w = (err, w1)" by (cases "cli_delete cli x w")
    note paid = errors_boundedD(4) [OF assms(1) d]
    show ?thesis
    proof (cases "err = None \<or> err = Some NotFound")
      case ok: True
      then have "delete_items cli uid items w1 = (e, w')" using Cons.prems x d by auto
      with Cons.IH paid ok show ?thesis by (auto simp: failed_defs intro: pays_trans)
    next
      case False
      then have "w' = w1" using Cons.prems x d by (auto split: option.splits if_splits)
      with paid False show ?thesis by (auto simp: pays_def failed_defs)
    qed
  next
    case False
    then have "delete_items cli uid items w = (e, w')" using Cons.prems by (cases item) auto
    then show ?thesis by (rule Cons.IH)
  qed
qed simp

lemma delete_list_pays:
  assumes "errors_bounded fw cli b" and "deleteOwnedFromList cli uid g ns w = (e, w')"
  shows "pays b (e \<noteq> None) w w'"
proof -
  obtain res w1 where l: "cli_list cli g ns w = (res, w1)" by (cases "cli_list cli g ns w")
  note paid = errors_boundedD(2) [OF assms(1) l]
  show ?thesis
  proof (cases res)
    case (Inl err)
    then show ?thesis using paid assms(2) l
      by (cases "err \<in> {NotFound, NoMatch, NotRegistered}") (auto simp: deleteOwnedFromList_def failed_defs)
  next
    case (Inr items)
    obtain objs where "cli_extractList cli items = Inr objs" using errors_boundedD(8) [OF assms(1)] by blast
    with Inr have "delete_items cli uid objs w1 = (e, w')" using assms(2) l by (simp add: deleteOwnedFromList_def)
    from delete_items_pays [OF assms(1) this] paid Inr show ?thesis by (auto simp: failed_defs intro: pays_trans)
  qed
qed

lemma delete_lists_pays:
  assumes "errors_bounded fw cli b" and "delete_lists cli uid ns gs w = (e, w')"
  shows "pays b (e \<noteq> None) w w'"
  using assms(2)
proof (induction gs arbitrary: w)
  case (Cons g gs)
  obtain e1 w1 where d: "deleteOwnedFromList cli uid g ns w = (e1, w1)"
    by (cases "deleteOwnedFromList cli uid g ns w")
  note paid = delete_list_pays [OF assms(1) d]
  show ?case
  proof (cases e1)
    case None
    then have "delete_lists cli uid ns gs w1 = (e, w')" using Cons.prems d by simp
    with Cons.IH paid None show ?thesis by (auto simp: failed_defs intro: pays_trans)
  qed (use paid d Cons.prems in auto)
qed simp

lemma deleteOwnedOperands_pays:
  assumes "errors_bounded fw cli b" and "deleteOwnedOperands cli r = (e, r')"
  shows "pays b (e \<noteq> None) (rr_Cluster r) (rr_Cluster r')"
proof (cases "meta_UID (rr_Instance r) = []")
  case True
  then show ?thesis using assms(2) by (auto simp: deleteOwnedOperands_def)
next
  case False
  let ?u = "meta_UID (rr_Instance r)"
  obtain e1 w1 where one: "(if apps_ns r \<noteq> [] then delete_lists cli ?u (Some (apps_ns r)) namespacedOwnedLists (rr_Cluster r)
      else (None, rr_Cluster r)) = (e1, w1)" by fastforce
  then have p1: "pays b (e1 \<noteq> None) (rr_Cluster r) w1"
    using delete_lists_pays [OF assms(1)] by (auto split: if_splits)
  obtain e2 w2 where two: "delete_lists cli ?u None clusterOwnedLists w1 = (e2, w2)"
    by (cases "delete_lists cli ?u None clusterOwnedLists w1")
  note p2 = delete_lists_pays [OF assms(1) two]
  show ?thesis
  proof (cases e1)
    case None
    then have "e = e2" "rr_Cluster r' = w2"
      using assms(2) False one two by (auto simp: deleteOwnedOperands_def Let_def)
    with p1 p2 None show ?thesis by (auto simp: failed_defs intro: pays_trans)
  next
    case (Some x)
    then have "rr_Cluster r' = w1" "e \<noteq> None" using assms(2) False one by (auto simp: deleteOwnedOperands_def Let_def)
    with p1 Some show ?thesis by simp
  qed
qed

lemma deleteNotebook_pays:
  assumes "errors_bounded fw cli b" and "deleteNotebookClusterRole cli r = (e, r')"
  shows "pays b (e \<noteq> None) (rr_Cluster r) (rr_Cluster r')"
proof -
  have id: "obj_OwnerRefs cr = [] \<Longrightarrow> cr\<lparr>obj_OwnerRefs := []\<rparr> = cr" for cr :: kobj by simp
  note def = deleteNotebookClusterRole_def Let_def
  obtain res w where g: "cli_get cli ClusterRoleGVK notebookClusterRoleName [] (rr_Cluster r) = (res, w)"
    by (cases "cli_get cli ClusterRoleGVK notebookClusterRoleName [] (rr_Cluster r)")
  note pg = errors_boundedD(1) [OF assms(1) g]
  show ?thesis
  proof (cases res)
    case (Inl err)
    then show ?thesis using pg assms(2) g by (auto simp: def failed_defs split: if_splits)
  next
    case (Inr cr)
    let ?cr = "cr\<lparr>obj_OwnerRefs := []\<rparr>"
    obtain u w1 where u: "(if obj_OwnerRefs cr \<noteq> [] then cli_update cli ?cr w else (None, w)) = (u, w1)" by fastforce
    then have pu: "pays b (write_failed u) w w1"
      using errors_boundedD(3) [OF assms(1)] by (auto simp: failed_defs split: if_splits)
    obtain err w2 where d: "cli_delete cli ?cr w1 = (err, w2)" by (cases "cli_delete cli ?cr w1")
    note pd = errors_boundedD(4) [OF assms(1) d]
    have gw: "pays b False (rr_Cluster r) w" using pg Inr by (auto simp: failed_defs elim: pays_weaken)
    show ?thesis
    proof (cases "u = None \<or> u = Some NotFound")
      case True
      have "e \<noteq> None \<longleftrightarrow> err \<noteq> None \<and> err \<noteq> Some NotFound" and "rr_Cluster r' = w2"
        using assms(2) g Inr u d True by (auto simp: def id split: if_splits option.splits)
      moreover have "pays b False w w1" using pu by (auto simp: failed_defs elim: pays_weaken)
      ultimately show ?thesis using pays_trans [OF gw pays_trans [OF _ pd]] by (simp add: failed_defs)
    next
      case False
      then have "obj_OwnerRefs cr \<noteq> []" using u by (auto split: if_splits)
      then have "rr_Cluster r' = w1" and "e \<noteq> None"
        using assms(2) g Inr u False by (auto simp: def split: if_splits option.splits)
      with pays_trans [OF gw pu] False show ?thesis by (simp add: failed_defs)
    qed
  qed
qed

section \<open>The clean-up behind the finalizer\<close>

text \<open>
  What holds before every attempt for the resource \<open>ray\<close>, and what is to hold in the end: no notebook
  role and no operand of a listed kind.
\<close>

definition retry_inv :: "('w \<Rightarrow> kobj list) \<Rightarrow> ray \<Rightarrow> 'w rr \<Rightarrow> bool" where
  "retry_inv view ray r = (cr_frame ray (rr_Instance r) \<and> distinct_keys (view (rr_Cluster r)))"

definition cleared :: "('w \<Rightarrow> kobj list) \<Rightarrow> ray \<Rightarrow> 'w rr \<Rightarrow> bool" where
  "cleared view ray r =
     (\<forall>x \<in> set (view (rr_Cluster r)). obj_key x \<noteq> role_key \<and> \<not> operand_target ray x)"

definition client_lawful :: "'w client \<Rightarrow> ('w \<Rightarrow> kobj list) \<Rightarrow> bool" where
  "client_lawful cli view =
     (get_lawful cli view \<and> update_lawful cli view \<and> delete_lawful cli view \<and> list_lawful cli view)"

lemma client_lawfulD:
  assumes "client_lawful cli view"
  shows "get_lawful cli view" "update_lawful cli view" "delete_lawful cli view" "list_lawful cli view"
  using assms by (simp_all add: client_lawful_def)

lemma retry_inv_next [simp]: "retry_inv view ray (next_request r) = retry_inv view ray r"
  by (simp add: retry_inv_def next_request_def)

lemma operand_target_frame: "cr_frame ray ray' \<Longrightarrow> operand_target ray' = operand_target ray"
  by (simp add: operand_target_def fun_eq_iff cr_frameD)

lemma deletionCleanup_pays:
  assumes "errors_bounded fw cli b" and "apps_ns r \<noteq> []" and "deletionCleanupAction fw cli namespaceFn r = (e, r')"
  shows "pays b (e \<noteq> None) (rr_Cluster r) (rr_Cluster r')"
  using assms(2,3)
proof (cases rule: deletionCleanup_stages)
  case (role e1)
  then show ?thesis using deleteNotebook_pays [OF assms(1) role(1)] by simp
next
  case (gc r1 e1)
  have "pays b False (rr_Cluster r) (rr_Cluster r1)" using deleteNotebook_pays [OF assms(1) gc(1)] by simp
  with errors_boundedD(5) [OF assms(1) gc(2)] gc(3) show ?thesis by (auto intro: pays_trans)
next
  case (owned r1 r2)
  have "pays b False (rr_Cluster r) (rr_Cluster r1)" using deleteNotebook_pays [OF assms(1) owned(1)] by simp
  moreover have "pays b False (rr_Cluster r1) (rr_Cluster r2)"
    using errors_boundedD(5) [OF assms(1) owned(2)] by simp
  ultimately show ?thesis using deleteOwnedOperands_pays [OF assms(1) owned(3)] by (blast intro: pays_trans)
qed

lemma deletionCleanup_instance:
  assumes "gc_lawful fw view" and "apps_ns r \<noteq> []" and "deletionCleanupAction fw cli namespaceFn r = (e, r')"
  shows "rr_Instance r' = rr_Instance r"
proof -
  have d: "rr_Instance (snd (deleteOwnedOperands cli x)) = rr_Instance x" for x
    using deleteOwnedOperands_frame [of cli x] by auto
  note g = gc_lawfulD(1) [OF assms(1), of namespaceFn collect_all_options]
  show ?thesis
    using assms(2,3)
  proof (cases rule: deletionCleanup_stages)
    case (role e1)
    then show ?thesis using deleteNotebook_instance [of cli r] by simp
  next
    case (gc r1 e1)
    then show ?thesis using deleteNotebook_instance [of cli r] g [of "r1\<lparr>rr_Generated := True\<rparr>"] by simp
  next
    case (owned r1 r2)
    then show ?thesis using deleteNotebook_instance [of cli r] g [of "r1\<lparr>rr_Generated := True\<rparr>"] d [of r2] by simp
  qed
qed

lemma deletionCleanup_charged:
  assumes "client_lawful cli view" and "gc_lawful fw view" and "errors_bounded fw cli b"
    and "ApplicationsNamespace (Spec ray) \<noteq> []"
  shows "charged b (retry_inv view ray) (deletionCleanupAction fw cli namespaceFn) (cleared view ray)
     (\<lambda>r. retry_inv view ray (next_request r))"
  unfolding charged_def
proof (intro allI impI)
  fix r e r'
  assume i: "retry_inv view ray r" and run: "deletionCleanupAction fw cli namespaceFn r = (e, r')"
  have f: "cr_frame ray (rr_Instance r)" and k: "distinct_keys (view (rr_Cluster r))"
    using i by (simp_all add: retry_inv_def)
  have ns: "apps_ns r \<noteq> []" using assms(4) cr_frameD(1) [OF f] by simp
  note eff = deletionCleanup_effect [OF client_lawfulD [OF assms(1)] assms(2) k ns run]
  have "retry_inv view ray r'"
    using f eff(1) deletionCleanup_instance [OF assms(2) ns run] by (simp add: retry_inv_def)
  with deletionCleanup_pays [OF assms(3) ns run] eff(2) operand_target_frame [OF f]
  show "pays b (e \<noteq> None) (rr_Cluster r) (rr_Cluster r')
      \<and> (if e = None then cleared view ray r' else retry_inv view ray (next_request r'))"
    by (auto simp: cleared_def)
qed

interpretation deletion:
  retried_action
    "client_lawful cli view \<and> gc_lawful fw view \<and> errors_bounded fw cli b \<and> ApplicationsNamespace (Spec ray) \<noteq> []"
    "deletionCleanupAction fw cli namespaceFn" b "retry_inv view ray" "cleared view ray"
  for cli view fw b ray
  by unfold_locales (blast intro: deletionCleanup_charged)

section \<open>The pass of a removed component\<close>

text \<open>
  What a pass of a removed component does to the cluster besides the deletions: the deploy action
  gets an empty plan, and applies nothing; asking the REST mapper changes nothing.
\<close>

definition deploy_lawful :: "'w framework \<Rightarrow> ('w \<Rightarrow> kobj list) \<Rightarrow> bool" where
  "deploy_lawful fw view =
     ((\<forall>os r. rr_Resources r = [] \<longrightarrow> view (rr_Cluster (snd (fw_deploy fw os r))) = view (rr_Cluster r))
      \<and> (\<forall>g v k w. view (snd (fw_restMapping fw g v k w)) = view w))"

text \<open>The states between the actions: marked removed, with an empty plan, and later without the role.\<close>

definition removing :: "('w \<Rightarrow> kobj list) \<Rightarrow> ray \<Rightarrow> 'w rr \<Rightarrow> bool" where
  "removing view ray r =
     (retry_inv view ray r \<and> removed r \<and> rr_Manifests r = [] \<and> rr_Resources r = [])"

definition role_gone :: "('w \<Rightarrow> kobj list) \<Rightarrow> ray \<Rightarrow> 'w rr \<Rightarrow> bool" where
  "role_gone view ray r =
     (retry_inv view ray r \<and> removed r \<and> (\<forall>x \<in> set (view (rr_Cluster r)). obj_key x \<noteq> role_key))"

lemma retry_inv_cluster:
  assumes "retry_inv view ray r" and "cr_frame (rr_Instance r) (rr_Instance r')"
    and "view (rr_Cluster r') = view (rr_Cluster r)"
  shows "retry_inv view ray r'"
  using assms cr_frame_trans by (auto simp: retry_inv_def)

text \<open>An action that the code skips for a removed component, and one that only writes the status.\<close>

lemma skipped_charged:
  assumes "\<And>r. I r \<Longrightarrow> act r = (None, r)"
  shows "charged b I act I K"
  by (rule charged_total) (simp add: assms)

lemma status_charged:
  assumes "status_action act" and "\<And>r. fst (act r) = None" and "\<And>r. rr_Cluster (snd (act r)) = rr_Cluster r"
    and "\<And>r. rr_Extensions (snd (act r)) = rr_Extensions r"
  shows "charged b (role_gone view ray) act (role_gone view ray) K"
proof (rule charged_total)
  fix r assume i: "role_gone view ray r"
  have "retry_inv view ray (snd (act r))"
    using i assms(3) by (auto simp: role_gone_def intro: retry_inv_cluster status_action.status_only [OF assms(1)])
  moreover have "removed (snd (act r))" using i removed_ext [OF assms(4)] by (simp add: role_gone_def)
  ultimately show "fst (act r) = None \<and> pays b False (rr_Cluster r) (rr_Cluster (snd (act r)))
      \<and> role_gone view ray (snd (act r))"
    using i assms(2,3) by (simp add: role_gone_def)
qed

lemma first_actions_charged:
  assumes "ManagementState (Spec ray) = Removed"
  shows "charged b (retry_inv view ray) managementStateAction (\<lambda>r. retry_inv view ray r \<and> removed r) K"
    and "charged b (\<lambda>r. retry_inv view ray r \<and> removed r) (releasesAction env base)
           (\<lambda>r. retry_inv view ray r \<and> removed r) K"
    and "charged b (\<lambda>r. retry_inv view ray r \<and> removed r) manifestInitAction (removing view ray) K"
proof -
  have c: "rr_Cluster (snd (managementStateAction r)) = rr_Cluster r"
    "rr_Cluster (snd (releasesAction env base r)) = rr_Cluster r"
    "rr_Cluster (snd (manifestInitAction r)) = rr_Cluster r" for r :: "'w rr"
    by (auto simp: managementStateAction_def releasesAction_def manifestInitAction_def Let_def split: mstate.splits)
  have spec: "retry_inv view ray r \<Longrightarrow> Spec (rr_Instance r) = Spec ray" for r
    by (auto simp: retry_inv_def dest: cr_frameD(1))
  show "charged b (retry_inv view ray) managementStateAction (\<lambda>r. retry_inv view ray r \<and> removed r) K"
    by (rule charged_total)
      (auto simp: c managementState_facts spec assms intro: retry_inv_cluster management.status_only)
  show "charged b (\<lambda>r. retry_inv view ray r \<and> removed r) (releasesAction env base)
      (\<lambda>r. retry_inv view ray r \<and> removed r) K"
    by (rule charged_total) (auto simp: c releases_facts intro: retry_inv_cluster releases.status_only)
  show "charged b (\<lambda>r. retry_inv view ray r \<and> removed r) manifestInitAction (removing view ray) K"
    by (rule charged_total)
      (auto simp: c removing_def manifestInit_facts intro: retry_inv_cluster manifest_init.status_only)
qed

lemma filter_charged:
  assumes "errors_bounded fw cli b" and "deploy_lawful fw view"
  shows "charged b (removing view ray) (filterPlatformResources fw) (removing view ray) K"
proof (rule charged_total)
  fix r assume i: "removing view ray r"
  obtain e w where m: "fw_restMapping fw (Group sccGVK) (Kind sccGVK) (Version sccGVK) (rr_Cluster r) = (e, w)"
    by (metis surj_pair)
  have "rr_Cluster (snd (filterPlatformResources fw r)) \<in> {rr_Cluster r, w}"
    using m by (auto simp: filterPlatformResources_def Let_def split: option.splits prod.splits)
  moreover have "pays b False (rr_Cluster r) w" using errors_boundedD(7) [OF assms(1) m] .
  moreover have "view w = view (rr_Cluster r)" using assms(2) m unfolding deploy_lawful_def by (metis snd_conv)
  ultimately have c: "pays b False (rr_Cluster r) (rr_Cluster (snd (filterPlatformResources fw r)))"
    "view (rr_Cluster (snd (filterPlatformResources fw r))) = view (rr_Cluster r)" by auto
  have "retry_inv view ray (snd (filterPlatformResources fw r))"
    using i c(2) by (auto simp: removing_def intro: retry_inv_cluster platform_filter.status_only)
  with c(1) i show "fst (filterPlatformResources fw r) = None
      \<and> pays b False (rr_Cluster r) (rr_Cluster (snd (filterPlatformResources fw r)))
      \<and> removing view ray (snd (filterPlatformResources fw r))"
    by (simp add: removing_def filterPlatform_result removed_ext [OF filterPlatform_result(3)])
qed

lemma role_charged:
  assumes "client_lawful cli view" and "errors_bounded fw cli b"
  shows "charged b (removing view ray) (notebookClusterRoleAction cli)
     (\<lambda>r. role_gone view ray r \<and> rr_Resources r = []) (\<lambda>r. retry_inv view ray (next_request r))"
  unfolding charged_def
proof (intro allI impI)
  fix r e r'
  assume i: "removing view ray r" and run: "notebookClusterRoleAction cli r = (e, r')"
  have d: "deleteNotebookClusterRole cli r = (e, r')"
    using i run by (simp add: removing_def notebookClusterRoleAction_def)
  have "distinct_keys (view (rr_Cluster r'))"
    using deleteNotebook_keys [OF client_lawfulD(1-3) [OF assms(1)] d] i by (simp add: removing_def retry_inv_def)
  moreover have "rr_Instance r' = rr_Instance r" using deleteNotebook_instance [of cli r] d by simp
  ultimately have inv: "retry_inv view ray r'" using i by (simp add: removing_def retry_inv_def)
  have "rr_Extensions r' = rr_Extensions r" "rr_Resources r' = rr_Resources r"
    using notebook_frame(1,6) [of cli r] run by simp_all
  with i have "removed r'" "rr_Resources r' = []"
    using removed_ext [of r' r] by (simp_all add: removing_def)
  with inv deleteNotebook_pays [OF assms(2) d] deleteNotebook_effect [OF client_lawfulD(1-3) [OF assms(1)] d]
  show "pays b (e \<noteq> None) (rr_Cluster r) (rr_Cluster r')
      \<and> (if e = None then role_gone view ray r' \<and> rr_Resources r' = [] else retry_inv view ray (next_request r'))"
    by (cases e) (simp_all add: role_gone_def)
qed

lemma deploy_charged:
  assumes "actions_lawful fw" and "deploy_lawful fw view" and "errors_bounded fw cli b"
  shows "charged b (\<lambda>r. role_gone view ray r \<and> rr_Resources r = []) (fw_deploy fw os)
     (role_gone view ray) (\<lambda>r. retry_inv view ray (next_request r))"
  unfolding charged_def
proof (intro allI impI)
  fix r e r'
  assume i: "role_gone view ray r \<and> rr_Resources r = []" and run: "fw_deploy fw os r = (e, r')"
  have "r' = snd (fw_deploy fw os r)" using run by simp
  then have a: "cr_frame (rr_Instance r) (rr_Instance r')" "rr_Extensions r' = rr_Extensions r"
    using assms(1) unfolding actions_lawful_def by blast+
  have v: "view (rr_Cluster r') = view (rr_Cluster r)"
    using assms(2) i run unfolding deploy_lawful_def by (metis snd_conv)
  have "role_gone view ray r'"
    using i v removed_ext [OF a(2)] by (auto simp: role_gone_def intro: retry_inv_cluster [OF _ a(1) v])
  with errors_boundedD(6) [OF assms(3) run]
  show "pays b (e \<noteq> None) (rr_Cluster r) (rr_Cluster r')
      \<and> (if e = None then role_gone view ray r' else retry_inv view ray (next_request r'))"
    by (simp add: role_gone_def)
qed

lemma distribution_cluster:
  assumes "get_lawful cli view" and "errors_bounded fw cli b" and "distributionAction fw cli p r = (e, r')"
  shows "view (rr_Cluster r') = view (rr_Cluster r)"
    and "pays b (e \<noteq> None) (rr_Cluster r) (rr_Cluster r')"
proof -
  obtain res w where g: "cli_get cli ConfigMapGVK PlatformConfigMapName (apps_ns r) (rr_Cluster r) = (res, w)"
    by (metis surj_pair)
  have v: "view w = view (rr_Cluster r)" using assms(1) g unfolding get_lawful_def by blast
  note paid = errors_boundedD(1) [OF assms(2) g]
  have "rr_Cluster r' \<in> {rr_Cluster r, w}" and "e \<noteq> None \<Longrightarrow> get_failed res \<and> rr_Cluster r' = w"
    using assms(3) g
    by (auto simp: distributionAction_def readPlatformDistribution_def failed_defs Let_def
        split: if_splits sum.splits option.splits)
  with v paid show "view (rr_Cluster r') = view (rr_Cluster r)"
    and "pays b (e \<noteq> None) (rr_Cluster r) (rr_Cluster r')" by (auto simp: pays_def)
qed

lemma distribution_charged:
  assumes "client_lawful cli view" and "errors_bounded fw cli b"
  shows "charged b (role_gone view ray) (distributionAction fw cli p) (role_gone view ray)
     (\<lambda>r. retry_inv view ray (next_request r))"
  unfolding charged_def
proof (intro allI impI)
  fix r e r' assume i: "role_gone view ray r" and run: "distributionAction fw cli p r = (e, r')"
  note d = distribution_cluster [OF client_lawfulD(1) [OF assms(1)] assms(2) run]
  have x: "rr_Extensions r' = rr_Extensions r"
    using status_plan_frames(1) [of r fw cli p] run by (simp add: plan_frame_def)
  have f: "cr_frame (rr_Instance r) (rr_Instance r')" using distribution.status_only [of r fw cli p] run by simp
  have "role_gone view ray r'"
    using i d(1) removed_ext [OF x] by (auto simp: role_gone_def intro: retry_inv_cluster [OF _ f d(1)])
  with d(2) show "pays b (e \<noteq> None) (rr_Cluster r) (rr_Cluster r')
      \<and> (if e = None then role_gone view ray r' else retry_inv view ray (next_request r'))"
    by (simp add: role_gone_def)
qed

lemma gc_charged:
  assumes "client_lawful cli view" and "actions_lawful fw" and "gc_lawful fw view" and "errors_bounded fw cli b"
  shows "charged b (role_gone view ray) (reconcileGCAction fw cli namespaceFn) (cleared view ray)
     (\<lambda>r. retry_inv view ray (next_request r))"
  unfolding charged_def
proof (intro allI impI)
  fix r e r' assume i: "role_gone view ray r" and run: "reconcileGCAction fw cli namespaceFn r = (e, r')"
  have f: "cr_frame ray (rr_Instance r)" and k: "distinct_keys (view (rr_Cluster r))" and rm: "removed r"
    using i by (simp_all add: role_gone_def retry_inv_def)
  obtain e1 r1 where d: "deleteOwnedOperands cli r = (e1, r1)" by (cases "deleteOwnedOperands cli r")
  have sub: "set (view (rr_Cluster r1)) \<subseteq> set (view (rr_Cluster r))"
    using deleteOwnedOperands_effect [OF client_lawfulD(4,3) [OF assms(1)] k d] by (simp add: spares_def)
  have i1: "rr_Instance r1 = rr_Instance r" using deleteOwnedOperands_frame [of cli r] d by auto
  note p1 = deleteOwnedOperands_pays [OF assms(4) d]
  obtain e2 r2 where g: "fw_gc fw namespaceFn collect_all_options r1 = (e2, r2)"
    by (cases "fw_gc fw namespaceFn collect_all_options r1")
  note g1 = gc_lawfulD [OF assms(3), of namespaceFn collect_all_options r1]
  note p2 = errors_boundedD(5) [OF assms(4) g]
  have r': "(e, r') = (if e1 = None then (e2, r2) else (e1, r1))"
    using run rm d g by (cases e1) (auto simp: reconcileGCAction_def)
  have "pays b (e \<noteq> None) (rr_Cluster r) (rr_Cluster r')"
    using r' p1 p2 by (auto simp: pays_def split: if_splits)
  moreover have "rr_Instance r' = rr_Instance r" "set (view (rr_Cluster r')) \<subseteq> set (view (rr_Cluster r))"
    using r' i1 g1 g sub by (auto split: if_splits)
  moreover note eff = reconcileGC_effect [OF client_lawfulD(3,4) [OF assms(1)] assms(3) k rm run]
  ultimately show "pays b (e \<noteq> None) (rr_Cluster r) (rr_Cluster r')
      \<and> (if e = None then cleared view ray r' else retry_inv view ray (next_request r'))"
    using i f operand_target_frame [OF f]
    by (auto simp: cleared_def role_gone_def retry_inv_def next_request_def)
qed

lemma removal_status_charged:
  assumes "conditions_lawful fw"
  shows "charged b (role_gone view ray) (deploymentStatusAction fw nsFn) (role_gone view ray) K"
    and "charged b (role_gone view ray) (platformReleaseAction fw cli) (role_gone view ray) K"
    and "charged b (role_gone view ray) (degradedAction fw) (role_gone view ray) K"
    and "charged b (role_gone view ray) observedGenerationAction (role_gone view ray) K"
proof -
  have "role_gone view ray (r\<lparr>rr_Instance := fw_markTrue fw t rs m (rr_Instance r)\<rparr>)"
    if "role_gone view ray r" for r t rs m
    using that assms cr_frame_trans by (auto simp: role_gone_def retry_inv_def conditions_lawful_def)
  then show "charged b (role_gone view ray) (deploymentStatusAction fw nsFn) (role_gone view ray) K"
    by (intro charged_total) (auto simp: deploymentStatusAction_def role_gone_def)
  show "charged b (role_gone view ray) (platformReleaseAction fw cli) (role_gone view ray) K"
    by (rule skipped_charged) (simp add: role_gone_def platform_release.removed_noop)
  show "charged b (role_gone view ray) (degradedAction fw) (role_gone view ray) K"
    by (rule status_charged [OF degraded_status_action [OF assms]]) (simp_all add: degradedAction_def)
  show "charged b (role_gone view ray) observedGenerationAction (role_gone view ray) K"
    by (rule status_charged [OF observed.status_action_axioms]) (simp_all add: observedGenerationAction_def)
qed

lemma skipped_actions_charged:
  "charged b (removing view ray) (applyImageParamsAction env letter base) (removing view ray) K"
  "charged b (removing view ray) (RenderKustomize fw base nsFn) (removing view ray) K"
  "charged b (removing view ray) (certManagerRequirementAction fw) (removing view ray) K"
  by (rule skipped_charged,
      simp add: removing_def image_params.removed_noop cert_manager.removed_noop RenderKustomize_def)+

definition framework_lawful :: "'w framework \<Rightarrow> ('w \<Rightarrow> kobj list) \<Rightarrow> bool" where
  "framework_lawful fw view =
     (runs_in_order fw \<and> actions_lawful fw \<and> conditions_lawful fw \<and> gc_lawful fw view \<and> deploy_lawful fw view)"

text \<open>The whole pass, action by action.\<close>

lemma removal_charged:
  assumes "client_lawful cli view" and "framework_lawful fw view" and "errors_bounded fw cli b"
    and "ManagementState (Spec ray) = Removed"
  shows "charged b (retry_inv view ray) (ray_reconcile fw cli env letter base) (cleared view ray)
     (\<lambda>r. retry_inv view ray (next_request r))"
proof -
  have fw: "runs_in_order fw" "actions_lawful fw" "conditions_lawful fw" "gc_lawful fw view" "deploy_lawful fw view"
    using assms(2) by (simp_all add: framework_lawful_def)
  have "ray_reconcile fw cli env letter base
      = seq_actions (before_deploy fw cli env letter base @ from_deploy fw cli base)"
    using fw(1) by (simp add: ray_reconcile_def SetupWithManager_def runs_in_order_def)
  then show ?thesis
    unfolding before_deploy_def from_deploy_def append_Cons append_Nil
    by (simp only:) (rule charged_seq charged_seq_one first_actions_charged [OF assms(4)] skipped_actions_charged
        filter_charged [OF assms(3) fw(5)] role_charged [OF assms(1,3)] deploy_charged [OF fw(2,5) assms(3)]
        distribution_charged [OF assms(1,3)] removal_status_charged [OF fw(3)]
        gc_charged [OF assms(1) fw(2,4) assms(3)])+
qed

interpretation removal:
  retried_action
    "client_lawful cli view \<and> framework_lawful fw view \<and> errors_bounded fw cli b \<and> ManagementState (Spec ray) = Removed"
    "ray_reconcile fw cli env letter base" b "retry_inv view ray" "cleared view ray"
  for cli view fw b ray env letter base
  by unfold_locales (blast intro: removal_charged)

section \<open>A client that fails\<close>

text \<open>The cluster in memory behind a connection that loses its first \<open>n\<close> calls.\<close>

type_synonym flaky = "cluster \<times> nat"

definition lose :: "'a \<Rightarrow> (cluster \<Rightarrow> 'a \<times> cluster) \<Rightarrow> flaky \<Rightarrow> 'a \<times> flaky" where
  "lose err call w =
     (case w of (c, n) \<Rightarrow>
        (if n = 0 then (case call c of (res, c') \<Rightarrow> (res, (c', 0))) else (err, (c, n - 1))))"

definition flaky_client :: "flaky client" where
  "flaky_client =
     \<lparr>cli_getRay = (\<lambda>n. lose (Inl (OtherKube ''timeout'')) (cli_getRay mem_client n)),
      cli_updateRay = (\<lambda>r. lose (Some (OtherKube ''timeout'')) (cli_updateRay mem_client r)),
      cli_get = (\<lambda>g n ns. lose (Inl (OtherKube ''timeout'')) (cli_get mem_client g n ns)),
      cli_list = (\<lambda>g ns. lose (Inl (OtherKube ''timeout'')) (cli_list mem_client g ns)),
      cli_extractList = cli_extractList mem_client,
      cli_update = (\<lambda>x. lose (Some (OtherKube ''timeout'')) (cli_update mem_client x)),
      cli_delete = (\<lambda>x. lose (Some (OtherKube ''timeout'')) (cli_delete mem_client x)),
      cli_createOrUpdate = (\<lambda>x f. lose (Some (OtherKube ''timeout'')) (cli_createOrUpdate mem_client x f))\<rparr>"

abbreviation flaky_view :: "flaky \<Rightarrow> kobj list" where
  "flaky_view \<equiv> \<lambda>w. cl_Objs (fst w)"

lemma lose_cases:
  assumes "lose err call w = (res, w')"
  obtains (lost) n where "w = (fst w, Suc n)" and "res = err" and "w' = (fst w, n)"
  | (answered) "w = (fst w, 0)" and "call (fst w) = (res, fst w')" and "snd w' = 0"
proof (cases "snd w")
  case 0
  with assms that(2) show thesis by (cases w) (auto simp: lose_def split: prod.splits)
next
  case (Suc n)
  with assms that(1) show thesis by (cases w) (auto simp: lose_def)
qed

lemma lose_pays:
  assumes "lose err call w = (res, w')" and "\<And>c res c'. call c = (res, c') \<Longrightarrow> \<not> failed res"
  shows "pays snd (failed res) w w'"
  using assms(1)
proof (cases rule: lose_cases)
  case (lost n)
  then show ?thesis by (metis pays_def snd_conv lessI less_imp_le)
next
  case answered
  then show ?thesis using assms(2) by (metis pays_def snd_conv order_refl)
qed

lemma flaky_lawful: "client_lawful flaky_client flaky_view"
proof -
  have "get_lawful flaky_client flaky_view"
    unfolding get_lawful_def
  proof (intro allI impI)
    fix g n ns w res w' assume "cli_get flaky_client g n ns w = (res, w')"
    then have "lose (Inl (OtherKube ''timeout'')) (cli_get mem_client g n ns) w = (res, w')"
      by (simp add: flaky_client_def)
    then show "flaky_view w' = flaky_view w \<and> (case res of
         Inr x \<Rightarrow> obj_key x = (g, ns, n) \<and> (x \<in> set (flaky_view w) \<or> obj_key x \<notin> obj_key ` set (flaky_view w))
       | Inl err \<Rightarrow> err = NotFound \<longrightarrow> (\<forall>x \<in> set (flaky_view w). obj_key x \<noteq> (g, ns, n)))"
      by (cases rule: lose_cases)
        (simp, use mem_client_lawful(3) in \<open>unfold get_lawful_def, blast\<close>)
  qed
  moreover have "list_lawful flaky_client flaky_view"
    unfolding list_lawful_def
  proof (rule conjI; (intro allI impI)?)
    show "extract_lawful flaky_client" by (simp add: extract_lawful_def flaky_client_def mem_client_def)
  next
    fix g ns w res w' assume "cli_list flaky_client g ns w = (res, w')"
    then have "lose (Inl (OtherKube ''timeout'')) (cli_list mem_client g ns) w = (res, w')"
      by (simp add: flaky_client_def)
    then show "flaky_view w' = flaky_view w \<and> (case res of
         Inr items \<Rightarrow> {x \<in> set (flaky_view w). in_scope g ns x} \<subseteq> set items
               \<and> (\<forall>x \<in> set items. in_scope g ns x
                      \<and> (x \<in> set (flaky_view w) \<or> obj_key x \<notin> obj_key ` set (flaky_view w)))
       | Inl err \<Rightarrow> err \<in> {NotFound, NoMatch, NotRegistered} \<longrightarrow> (\<forall>x \<in> set (flaky_view w). \<not> in_scope g ns x))"
      by (cases rule: lose_cases)
        (simp, use mem_client_lawful(1) in \<open>unfold list_lawful_def, blast\<close>)
  qed
  moreover have "update_lawful flaky_client flaky_view"
    unfolding update_lawful_def
  proof (intro allI impI)
    fix x w err w' assume "cli_update flaky_client x w = (err, w')"
    then have "lose (Some (OtherKube ''timeout'')) (cli_update mem_client x) w = (err, w')"
      by (simp add: flaky_client_def)
    then show "set (flaky_view w') = (if err = None \<and> obj_key x \<in> obj_key ` set (flaky_view w)
        then insert x {y \<in> set (flaky_view w). obj_key y \<noteq> obj_key x} else set (flaky_view w))"
      by (cases rule: lose_cases)
        (simp, use mem_client_lawful(4) in \<open>unfold update_lawful_def, blast\<close>)
  qed
  moreover have "delete_lawful flaky_client flaky_view"
    unfolding delete_lawful_def
  proof (intro allI impI)
    fix x w err w' assume "cli_delete flaky_client x w = (err, w')"
    then have "lose (Some (OtherKube ''timeout'')) (cli_delete mem_client x) w = (err, w')"
      by (simp add: flaky_client_def)
    then show "set (flaky_view w') = (if err = None \<or> err = Some NotFound
        then {y \<in> set (flaky_view w). obj_key y \<noteq> obj_key x} else set (flaky_view w))"
      by (cases rule: lose_cases)
        (simp, use mem_client_lawful(2) in \<open>unfold delete_lawful_def, blast\<close>)
  qed
  ultimately show ?thesis by (simp add: client_lawful_def)
qed

lemma mem_client_never_fails:
  "cli_get mem_client g n ns c = (gres, c') \<Longrightarrow> \<not> get_failed gres"
  "cli_list mem_client g lns c = (lres, c') \<Longrightarrow> \<not> list_failed lres"
  "cli_update mem_client x c = (res, c') \<Longrightarrow> \<not> write_failed res"
  "cli_delete mem_client x c = (res, c') \<Longrightarrow> \<not> write_failed res"
  by (auto simp: mem_client_def failed_defs split: if_splits option.splits)

lemma flaky_bounded: "errors_bounded sample_framework flaky_client snd"
  unfolding errors_bounded_def
proof (intro conjI allI impI)
  show "pays snd (get_failed res) w w'" if "cli_get flaky_client g n ns w = (res, w')" for g n ns w res w'
    using that by (intro lose_pays mem_client_never_fails(1)) (simp_all add: flaky_client_def)
  show "pays snd (list_failed res) w w'" if "cli_list flaky_client g ns w = (res, w')" for g ns w res w'
    using that by (intro lose_pays mem_client_never_fails(2)) (simp_all add: flaky_client_def)
  show "pays snd (write_failed res) w w'" if "cli_update flaky_client x w = (res, w')" for x w res w'
    using that by (intro lose_pays mem_client_never_fails(3)) (simp_all add: flaky_client_def)
  show "pays snd (write_failed res) w w'" if "cli_delete flaky_client x w = (res, w')" for x w res w'
    using that by (intro lose_pays mem_client_never_fails(4)) (simp_all add: flaky_client_def)
qed (auto simp: sample_framework_def flaky_client_def mem_client_def)

lemma sample_framework_all: "framework_lawful sample_framework v"
  by (simp add: framework_lawful_def deploy_lawful_def) (simp add: sample_framework_def)

text \<open>
  A removed component whose role and operands are still there, three calls before the connection
  holds.
\<close>

definition sample_lossy :: "flaky rr" where
  "sample_lossy =
     (sample_rr [] (sample_operands\<lparr>cl_Objs := notebookClusterRole # cl_Objs sample_operands\<rparr>, 3))
       \<lparr>rr_Instance := sample_ray\<lparr>Spec := \<lparr>ManagementState = Removed, ApplicationsNamespace = ''odh''\<rparr>\<rparr>\<rparr>"

lemma sample_lossy_facts:
  "ManagementState (Spec (rr_Instance sample_lossy)) = Removed" "apps_ns sample_lossy \<noteq> []"
  "inj_on obj_key (set (flaky_view (rr_Cluster sample_lossy)))" "snd (rr_Cluster sample_lossy) = 3"
  "notebookClusterRole \<in> set (flaky_view (rr_Cluster sample_lossy))"
  by (simp_all add: sample_lossy_def sample_rr_def sample_operands_def Let_def obj_key_def notebookClusterRole_def
      ClusterRoleGVK_def notebookClusterRoleName_def namespacedOwnedLists_def clusterOwnedLists_def)

section \<open>Properties\<close>

text \<open>
  C4. Removal converges: the pass of a removed component, repeated as long as it fails, ends after at
  most as many repetitions as there are errors to come, and leaves neither the notebook role nor an
  operand of a listed kind, whichever calls fail on the way.
\<close>

theorem removal_converges:
  assumes "client_lawful cli view" and "framework_lawful fw view" and "errors_bounded fw cli b"
    and "inj_on obj_key (set (view (rr_Cluster r)))" and "ManagementState (Spec (rr_Instance r)) = Removed"
  shows "\<exists>m r'. requeue (ray_reconcile fw cli env letter base) 0 r = Some (m, r') \<and> m \<le> b (rr_Cluster r)
     \<and> (\<forall>x \<in> set (view (rr_Cluster r')). obj_key x \<noteq> role_key \<and> \<not> operand_target (rr_Instance r) x)"
proof -
  have "retry_inv view (rr_Instance r) r" using assms(4) by (simp add: retry_inv_def distinct_keys_def)
  from removal.requeue_ends [OF conjI [OF assms(1) conjI [OF assms(2) conjI [OF assms(3,5)]]] this, of env letter base 0]
  show ?thesis by (simp add: cleared_def)
qed

text \<open>
  C8. Deletion terminates: the clean-up behind the finalizer, repeated as long as it fails and with no
  other writer in between, returns after at most as many repetitions as there are calls to fail, so that the
  finalizer comes off; with a namespace, the notebook role and the live operands of the seven listed kinds are then
  gone (of the other kinds, that is what the framework's collector does), and without one it
  returns at the first attempt and changes nothing.
\<close>

theorem deletion_terminates:
  assumes "client_lawful cli view" and "gc_lawful fw view" and "errors_bounded fw cli b"
    and "inj_on obj_key (set (view (rr_Cluster r)))"
    and "act = rec_Finalizer (SetupWithManager fw cli dp pv env letter base)"
  shows "\<exists>m r'. requeue act 0 r = Some (m, r') \<and> m \<le> b (rr_Cluster r)
     \<and> (apps_ns r = [] \<longrightarrow> m = 0 \<and> r' = r)
     \<and> (apps_ns r \<noteq> [] \<longrightarrow>
          (\<forall>x \<in> set (view (rr_Cluster r')). obj_key x \<noteq> role_key \<and> \<not> operand_target (rr_Instance r) x))"
proof -
  have act: "act = deletionCleanupAction fw cli namespaceFn" using assms(5) by (simp add: SetupWithManager_def)
  have inv: "retry_inv view (rr_Instance r) r" using assms(4) by (simp add: retry_inv_def distinct_keys_def)
  show ?thesis
  proof (cases "apps_ns r = []")
    case True
    then show ?thesis by (simp add: act requeue.simps deletionCleanupAction_def namespaceFn_def)
  next
    case False
    from deletion.requeue_ends [OF conjI [OF assms(1) conjI [OF assms(2) conjI [OF assms(3) False]]] inv, of 0] False
    show ?thesis by (simp add: cleared_def act)
  qed
qed

section \<open>Witnesses\<close>

theorem removal_converges_witness:
  "notebookClusterRole \<in> set (flaky_view (rr_Cluster sample_lossy))
   \<and> (\<exists>m r'. requeue (ray_reconcile sample_framework flaky_client sample_env (\<lambda>s. 0) ''/opt/manifests'') 0 sample_lossy
        = Some (m, r') \<and> m \<le> 3
        \<and> list_all (\<lambda>x. obj_key x \<noteq> role_key \<and> \<not> operand_target (rr_Instance sample_lossy) x) (flaky_view (rr_Cluster r')))"
  using removal_converges [OF flaky_lawful sample_framework_all flaky_bounded sample_lossy_facts(3,1),
      of sample_env "\<lambda>s. 0" "''/opt/manifests''"] sample_lossy_facts(4,5)
  by (simp add: list_all_iff)

theorem deletion_terminates_witness:
  "\<exists>m r'. requeue (deletionCleanupAction sample_framework flaky_client namespaceFn) 0 sample_lossy = Some (m, r')
     \<and> m \<le> 3
     \<and> list_all (\<lambda>x. obj_key x \<noteq> role_key \<and> \<not> operand_target (rr_Instance sample_lossy) x) (flaky_view (rr_Cluster r'))"
proof -
  have "deletionCleanupAction sample_framework flaky_client namespaceFn = rec_Finalizer
      (SetupWithManager sample_framework flaky_client (\<lambda>old new. False) [] sample_env (\<lambda>s. 0) [])"
    by (simp add: SetupWithManager_def)
  from deletion_terminates [OF flaky_lawful sample_framework_lawful(3) flaky_bounded sample_lossy_facts(3) this]
    sample_lossy_facts(2,4)
  show ?thesis by (simp add: list_all_iff)
qed

text \<open>The same loop run: the three lost calls cost three repetitions, and what is left is not the module's.\<close>

lemma sample_lossy_run:
  "map_option (\<lambda>(m, r). (m, map obj_Name (flaky_view (rr_Cluster r))))
     (requeue (deletionCleanupAction sample_framework flaky_client namespaceFn) 0 sample_lossy)
   = Some (3, [''kuberay-operator'', ''odh-ray-config''])"
  by code_simp

end
