(* ===== verification/Installation.thy ===== *)
theory Installation
  imports Convergence Manifest_Prep
begin

text \<open>
  The counterpart of the removal in \<open>Convergence\<close>: the pass of a managed component, repeated as long
  as it fails. The file system works and the manifests of the image can be rendered; the calls to the
  API server and the framework's actions may fail, finitely often. The pass then ends, with the
  writable copy prepared, the notebook role as it is to be, and the generation observed. The proof
  follows the pipeline action by action in the same Hoare logic.
\<close>

section \<open>What is relied on\<close>

text \<open>The other calls that a managed pass makes cost some of the budget, too, when they fail.\<close>

definition install_bounded :: "'w framework \<Rightarrow> 'w client \<Rightarrow> ('w \<Rightarrow> nat) \<Rightarrow> bool" where
  "install_bounded fw cli b =
     (errors_bounded fw cli b
      \<and> (\<forall>x f w res w'. cli_createOrUpdate cli x f w = (res, w') \<longrightarrow> pays b (res \<noteq> None) w w')
      \<and> (\<forall>f r e r'. fw_deployments fw f r = (e, r') \<longrightarrow> pays b (e \<noteq> None) (rr_Cluster r) (rr_Cluster r'))
      \<and> (\<forall>g w res w'. fw_hasCRD fw g w = (res, w') \<longrightarrow> pays b (isl res) w w'))"

definition roles :: "kobj list \<Rightarrow> kobj set" where
  "roles v = {x \<in> set v. obj_key x = role_key}"

definition no_role :: "kobj \<Rightarrow> bool" where
  "no_role x = ((obj_GVK x, obj_Name x) \<noteq> (ClusterRoleGVK, ''ray''))"

text \<open>
  The framework's actions do not write the operator's files; the deployment touches the objects of its
  plan only, the report on deployments none, and the collector, unless told otherwise, none without an
  owner. The CRDs of cert-manager are installed.
\<close>

definition install_lawful :: "'w framework \<Rightarrow> ('w \<Rightarrow> kobj list) \<Rightarrow> bool" where
  "install_lawful fw view =
     ((\<forall>os r. rr_Files (snd (fw_deploy fw os r)) = rr_Files r)
      \<and> (\<forall>f r. rr_Files (snd (fw_deployments fw f r)) = rr_Files r)
      \<and> (\<forall>f os r. rr_Files (snd (fw_gc fw f os r)) = rr_Files r)
      \<and> (\<forall>os r. (\<forall>x \<in> set (rr_Resources r). no_role x) \<longrightarrow>
           roles (view (rr_Cluster (snd (fw_deploy fw os r)))) = roles (view (rr_Cluster r)))
      \<and> (\<forall>f r. roles (view (rr_Cluster (snd (fw_deployments fw f r)))) = roles (view (rr_Cluster r)))
      \<and> (\<forall>f r x. x \<in> roles (view (rr_Cluster r)) \<longrightarrow> obj_OwnerRefs x = [] \<longrightarrow>
           x \<in> roles (view (rr_Cluster (snd (fw_gc fw f [WithDeletePropagationPolicy ''Background''] r)))))
      \<and> (\<forall>g w. fst (fw_hasCRD fw g w) \<noteq> Inr False))"

text \<open>The prepared overlay renders, and not to the notebook role.\<close>

definition overlay_renders ::
  "'w framework \<Rightarrow> env \<Rightarrow> (string \<Rightarrow> nat) \<Rightarrow> string \<Rightarrow> gomap \<Rightarrow> string \<Rightarrow> bool" where
  "overlay_renders fw env letter ns m d =
     (\<forall>fs. prepared env letter ns m d fs \<longrightarrow>
        (\<exists>os. fw_render fw (overlay_dir env) ns fs = Inr os \<and> list_all no_role os))"

text \<open>The role as it is to be, and the only one of its key.\<close>

definition installed :: "kobj list \<Rightarrow> bool" where
  "installed v =
     (\<exists>x. roles v = {x} \<and> obj_Labels x = obj_Labels notebookClusterRole \<and> obj_Rules x = obj_Rules notebookClusterRole
        \<and> obj_OwnerRefs x = [])"

section \<open>The states between the actions\<close>

text \<open>\<open>F\<close> is what is known of the files: that they can be prepared, and later that they are.\<close>

definition starting :: "ray \<Rightarrow> (files \<Rightarrow> bool) \<Rightarrow> 'w rr \<Rightarrow> bool" where
  "starting ray F r = (cr_frame ray (rr_Instance r) \<and> F (rr_Files r) \<and> rr_Resources r = [])"

definition installing :: "ray \<Rightarrow> (files \<Rightarrow> bool) \<Rightarrow> 'w rr \<Rightarrow> bool" where
  "installing ray F r =
     (cr_frame ray (rr_Instance r) \<and> F (rr_Files r) \<and> \<not> removed r \<and> list_all no_role (rr_Resources r))"

definition role_ready :: "('w \<Rightarrow> kobj list) \<Rightarrow> ray \<Rightarrow> (files \<Rightarrow> bool) \<Rightarrow> 'w rr \<Rightarrow> bool" where
  "role_ready view ray F r =
     (cr_frame ray (rr_Instance r) \<and> F (rr_Files r) \<and> \<not> removed r \<and> installed (view (rr_Cluster r)))"

definition settled :: "('w \<Rightarrow> kobj list) \<Rightarrow> ray \<Rightarrow> (files \<Rightarrow> bool) \<Rightarrow> 'w rr \<Rightarrow> bool" where
  "settled view ray F r =
     (role_ready view ray F r \<and> ObservedGeneration (Status (rr_Instance r)) = meta_Generation ray)"

lemmas install_states = starting_def installing_def role_ready_def settled_def

lemma starting_next: "cr_frame ray (rr_Instance r) \<Longrightarrow> F (rr_Files r) \<Longrightarrow> starting ray F (next_request r)"
  by (simp add: starting_def next_request_def)

lemma charged_append:
  assumes "charged b I (seq_actions as) J K" and "charged b J (seq_actions bs) L K"
  shows "charged b I (seq_actions (as @ bs)) L K"
  unfolding charged_def
proof (intro allI impI)
  fix r e r' assume i: "I r" and run: "seq_actions (as @ bs) r = (e, r')"
  obtain e1 r1 where a: "seq_actions as r = (e1, r1)" by (cases "seq_actions as r")
  note one = chargedD [OF assms(1) i a]
  show "pays b (e \<noteq> None) (rr_Cluster r) (rr_Cluster r') \<and> (if e = None then L r' else K r')"
  proof (cases e1)
    case None
    have "seq_actions bs r1 = (e, r')" using run a None by (simp add: seq_actions_append)
    from chargedD [OF assms(2) one(2) [OF None] this] one(1) None show ?thesis by (auto intro: pays_trans)
  qed (use one run a in \<open>auto simp: seq_actions_append\<close>)
qed

section \<open>Up to the role\<close>

lemma begin_charged:
  assumes "ManagementState (Spec ray) \<noteq> Removed"
  shows "charged b (starting ray F) managementStateAction (\<lambda>r. starting ray F r \<and> \<not> removed r) K"
    and "charged b (\<lambda>r. starting ray F r \<and> \<not> removed r) (releasesAction env base)
           (\<lambda>r. starting ray F r \<and> \<not> removed r) K"
proof -
  have c: "rr_Cluster (snd (managementStateAction r)) = rr_Cluster r"
    "rr_Cluster (snd (releasesAction env base r)) = rr_Cluster r" for r :: "'w rr"
    by (auto simp: managementStateAction_def releasesAction_def Let_def split: mstate.splits)
  show "charged b (starting ray F) managementStateAction (\<lambda>r. starting ray F r \<and> \<not> removed r) K"
    using assms
    by (intro charged_total) (auto simp: starting_def c managementState_facts dest: cr_frameD(1))
  show "charged b (\<lambda>r. starting ray F r \<and> \<not> removed r) (releasesAction env base)
      (\<lambda>r. starting ray F r \<and> \<not> removed r) K"
    by (intro charged_total)
      (auto simp: starting_def c releases_facts intro: cr_frame_trans releases.status_only)
qed

lemma prepare_charged:
  fixes fw :: "'w framework"
  assumes "overlay_renders fw env letter (ApplicationsNamespace (Spec ray)) m d"
    and "\<And>fs. F fs \<Longrightarrow> preparable env letter base (ApplicationsNamespace (Spec ray)) m d fs"
  shows "charged b (\<lambda>r. starting ray F r \<and> \<not> removed r) (seq_actions (prepare_actions fw cli env letter base))
     (installing ray (prepared env letter (ApplicationsNamespace (Spec ray)) m d)) K"
proof (rule charged_total)
  fix r :: "'w rr" assume i: "starting ray F r \<and> \<not> removed r"
  let ?ns = "ApplicationsNamespace (Spec ray)"
  have ns: "apps_ns r = ?ns" using i by (auto simp: starting_def dest: cr_frameD(1))
  have "preparable env letter base ?ns m d (rr_Files r)" using i assms(2) by (simp add: starting_def)
  then obtain fs1 fs2 fs3 where f: "writableManifestsBase env base (rr_Files r) = (Inr (writable_dst env), fs1)"
    "applyParams env (overlay_dir env) imageParamMap [[(''namespace'', ?ns)]] fs1 = (None, fs2)"
    "setOverlayNamespace env letter (overlay_dir env) ?ns fs2 = (None, fs3)" "prepared env letter ?ns m d fs3"
    by (rule preparable_run)
  obtain os where os: "fw_render fw (overlay_dir env) ?ns fs3 = Inr os" "list_all no_role os"
    using assms(1) f(4) unfolding overlay_renders_def by blast
  have plan: "list_all no_role (stampPartOfLabels (forceNamespacedResources ?ns os))"
    using os(2) by (auto simp: list_all_iff no_role_def force_as_pass stampPartOfLabels_def
        rendered.one.identity rendered.two.identity)
  note run = prepare_exact [OF conjunct2 [OF i] f(1) f(2,3) [folded ns], of fw cli, unfolded ns os(1) Let_def sum.case]
  have "removed (snd (seq_actions (prepare_actions fw cli env letter base) r)) = removed r"
    unfolding run by (simp add: removed_def extKeyWritableManifests_def ExtKeyRemoved_def)
  then show "fst (seq_actions (prepare_actions fw cli env letter base) r) = None
      \<and> pays b False (rr_Cluster r) (rr_Cluster (snd (seq_actions (prepare_actions fw cli env letter base) r)))
      \<and> installing ray (prepared env letter ?ns m d) (snd (seq_actions (prepare_actions fw cli env letter base) r))"
    using i f(4) plan by (simp add: installing_def starting_def) (simp add: run)
qed

lemma install_boundedD:
  assumes "install_bounded fw cli b"
  shows "errors_bounded fw cli b"
    and "cli_createOrUpdate cli x f w = (res, w') \<Longrightarrow> pays b (res \<noteq> None) w w'"
    and "fw_deployments fw g r = (e, r') \<Longrightarrow> pays b (e \<noteq> None) (rr_Cluster r) (rr_Cluster r')"
    and "fw_hasCRD fw k w = (cres, w') \<Longrightarrow> pays b (isl cres) w w'"
  using assms unfolding install_bounded_def by (elim conjE, metis)+

lemma require_crds_pays:
  assumes "install_bounded fw cli b" and "\<forall>g w. fst (fw_hasCRD fw g w) \<noteq> Inr False"
    and "require_crds fw gs w = (e, w')"
  shows "pays b (e \<noteq> None) w w'"
  using assms(3)
proof (induction gs arbitrary: w)
  case (Cons g gs)
  obtain res w1 where h: "fw_hasCRD fw g w = (res, w1)" by (cases "fw_hasCRD fw g w")
  note paid = install_boundedD(4) [OF assms(1) h]
  show ?case
  proof (cases res)
    case (Inl err)
    then show ?thesis using Cons.prems h paid by auto
  next
    case (Inr available)
    then have "available" using assms(2) h by (metis fst_conv)
    then have "require_crds fw gs w1 = (e, w')" using Cons.prems h Inr by simp
    with Cons.IH paid Inr show ?thesis by (auto intro: pays_trans)
  qed
qed simp

lemma cert_charged:
  assumes "install_bounded fw cli b" and "install_lawful fw view" and "\<And>fs. F fs \<Longrightarrow> G fs"
  shows "charged b (installing ray F) (certManagerRequirementAction fw) (installing ray F)
     (\<lambda>r. starting ray G (next_request r))"
  unfolding charged_def
proof (intro allI impI)
  fix r e r' assume i: "installing ray F r" and run: "certManagerRequirementAction fw r = (e, r')"
  obtain e1 w where q: "require_crds fw (requiredCertManagerGVKs (rr_Resources r)) (rr_Cluster r) = (e1, w)"
    by (metis surj_pair)
  have "(e, r') = (e1, r\<lparr>rr_Cluster := w\<rparr>)"
    using run q i by (simp add: certManagerRequirementAction_def installing_def)
  moreover have "pays b (e1 \<noteq> None) (rr_Cluster r) w"
    using require_crds_pays [OF assms(1) _ q] assms(2) by (simp add: install_lawful_def)
  ultimately show "pays b (e \<noteq> None) (rr_Cluster r) (rr_Cluster r')
      \<and> (if e = None then installing ray F r' else starting ray G (next_request r'))"
    using i assms(3) by (auto simp: installing_def removed_def intro!: starting_next)
qed

lemma platform_charged:
  fixes fw :: "'w framework"
  assumes "install_bounded fw cli b"
  shows "charged b (installing ray F) (filterPlatformResources fw) (installing ray F) K"
proof (rule charged_total)
  fix r :: "'w rr" assume i: "installing ray F r"
  obtain e w where m: "fw_restMapping fw (Group sccGVK) (Kind sccGVK) (Version sccGVK) (rr_Cluster r) = (e, w)"
    by (metis surj_pair)
  have "rr_Cluster (snd (filterPlatformResources fw r)) \<in> {rr_Cluster r, w}"
    using m by (auto simp: filterPlatformResources_def Let_def split: option.splits prod.splits)
  moreover have "pays b False (rr_Cluster r) w"
    using errors_boundedD(7) [OF install_boundedD(1) [OF assms] m] .
  moreover have "removed (snd (filterPlatformResources fw r)) = removed r"
    by (rule removed_ext) (rule filterPlatform_result)
  ultimately show "fst (filterPlatformResources fw r) = None
      \<and> pays b False (rr_Cluster r) (rr_Cluster (snd (filterPlatformResources fw r)))
      \<and> installing ray F (snd (filterPlatformResources fw r))"
    using i by (auto simp: installing_def filterPlatform_result filterPlatform_frame list_all_iff)
qed

lemma apply_role_charged:
  assumes "install_bounded fw cli b" and "createOrUpdate_lawful cli view" and "\<And>fs. F fs \<Longrightarrow> G fs"
  shows "charged b (installing ray F) (notebookClusterRoleAction cli)
     (\<lambda>r. installing ray F r \<and> role_ready view ray F r) (\<lambda>r. starting ray G (next_request r))"
  unfolding charged_def
proof (intro allI impI)
  fix r e r' assume i: "installing ray F r" and run: "notebookClusterRoleAction cli r = (e, r')"
  let ?new = "\<lparr>obj_GVK = ClusterRoleGVK, obj_Namespace = [], obj_Name = notebookClusterRoleName,
      obj_Labels = [], obj_OwnerRefs = [], obj_Data = [], obj_Rules = [], obj_Body = []\<rparr>"
  let ?f = "\<lambda>x. x\<lparr>obj_Labels := obj_Labels notebookClusterRole, obj_Rules := obj_Rules notebookClusterRole,
      obj_OwnerRefs := []\<rparr>"
  obtain res w where c: "cli_createOrUpdate cli ?new ?f (rr_Cluster r) = (res, w)" by (metis surj_pair)
  have r': "r' = r\<lparr>rr_Cluster := w\<rparr>" "e \<noteq> None \<longleftrightarrow> res \<noteq> None"
    using run c i
    by (auto simp: notebookClusterRoleAction_def applyNotebookClusterRole_def Let_def installing_def split: option.splits)
  have "installed (view w)" if "res = None"
  proof -
    have k: "obj_key (?f y) = obj_key y" for y by (simp add: obj_key_def)
    have "cli_createOrUpdate cli ?new ?f (rr_Cluster r) = (None, w)" using c that by simp
    from assms(2) [unfolded createOrUpdate_lawful_def, rule_format, OF k this]
    obtain old where old: "old = ?new \<or> old \<in> set (view (rr_Cluster r)) \<and> obj_key old = obj_key ?new"
      and v: "set (view w) = insert (?f old) {y \<in> set (view (rr_Cluster r)). obj_key y \<noteq> obj_key ?new}"
      by blast
    have "obj_key (?f old) = role_key" "obj_key ?new = role_key"
      using old by (auto simp: obj_key_def notebookClusterRoleName_def)
    then have "roles (view w) = {?f old}" using v by (auto simp: roles_def)
    then show ?thesis by (auto simp: installed_def)
  qed
  with install_boundedD(2) [OF assms(1) c] r' i assms(3)
  show "pays b (e \<noteq> None) (rr_Cluster r) (rr_Cluster r')
      \<and> (if e = None then installing ray F r' \<and> role_ready view ray F r' else starting ray G (next_request r'))"
    by (auto simp: installing_def role_ready_def removed_def intro!: starting_next)
qed

section \<open>From the deployment on\<close>

text \<open>An action that leaves the role, the files and the extensions alone.\<close>

lemma after_role_charged:
  assumes "\<And>fs. F fs \<Longrightarrow> G fs"
    and "\<And>r e r'. I r \<Longrightarrow> act r = (e, r') \<Longrightarrow>
      pays b (e \<noteq> None) (rr_Cluster r) (rr_Cluster r') \<and> cr_frame (rr_Instance r) (rr_Instance r')
      \<and> rr_Files r' = rr_Files r \<and> rr_Extensions r' = rr_Extensions r
      \<and> roles (view (rr_Cluster r')) = roles (view (rr_Cluster r))"
    and "\<And>r. I r \<Longrightarrow> role_ready view ray F r"
  shows "charged b I act (role_ready view ray F) (\<lambda>r. starting ray G (next_request r))"
  unfolding charged_def
proof (intro allI impI)
  fix r e r' assume i: "I r" and run: "act r = (e, r')"
  note a = assms(2) [OF i run]
  have "role_ready view ray F r'"
    using a assms(3) [OF i] removed_ext [of r' r] cr_frame_trans [of ray "rr_Instance r" "rr_Instance r'"]
    by (auto simp: role_ready_def installed_def)
  with a assms(1) show "pays b (e \<noteq> None) (rr_Cluster r) (rr_Cluster r')
      \<and> (if e = None then role_ready view ray F r' else starting ray G (next_request r'))"
    by (auto simp: role_ready_def intro!: starting_next)
qed

lemma platformRelease_cluster:
  assumes "get_lawful cli view" and "errors_bounded fw cli b" and "platformReleaseAction fw cli r = (e, r')"
  shows "view (rr_Cluster r') = view (rr_Cluster r)" and "pays b (e \<noteq> None) (rr_Cluster r) (rr_Cluster r')"
proof -
  obtain res w where g: "cli_get cli ConfigMapGVK PlatformConfigMapName (apps_ns r) (rr_Cluster r) = (res, w)"
    by (metis surj_pair)
  have v: "view w = view (rr_Cluster r)" using assms(1) g unfolding get_lawful_def by blast
  note paid = errors_boundedD(1) [OF assms(2) g]
  have "rr_Cluster r' \<in> {rr_Cluster r, w}" and "e \<noteq> None \<Longrightarrow> get_failed res \<and> rr_Cluster r' = w"
    using assms(3) g
    by (auto simp: platformReleaseAction_def readPlatformVersion_def failed_defs Let_def
        split: if_splits sum.splits option.splits)
  with v paid show "view (rr_Cluster r') = view (rr_Cluster r)"
    and "pays b (e \<noteq> None) (rr_Cluster r) (rr_Cluster r')" by (auto simp: pays_def)
qed

lemma ready_charged:
  assumes "client_lawful cli view" and "framework_lawful fw view" and "install_lawful fw view"
    and "install_bounded fw cli b" and "\<And>fs. F fs \<Longrightarrow> G fs"
  shows "charged b (\<lambda>r. installing ray F r \<and> role_ready view ray F r) (fw_deploy fw os) (role_ready view ray F)
           (\<lambda>r. starting ray G (next_request r))"
    and "charged b (role_ready view ray F) (deploymentStatusAction fw nsFn) (role_ready view ray F)
           (\<lambda>r. starting ray G (next_request r))"
    and "charged b (role_ready view ray F) (distributionAction fw cli base) (role_ready view ray F)
           (\<lambda>r. starting ray G (next_request r))"
    and "charged b (role_ready view ray F) (platformReleaseAction fw cli) (role_ready view ray F)
           (\<lambda>r. starting ray G (next_request r))"
    and "charged b (role_ready view ray F) (degradedAction fw) (role_ready view ray F)
           (\<lambda>r. starting ray G (next_request r))"
proof -
  note eb = install_boundedD(1) [OF assms(4)] and gl = client_lawfulD(1) [OF assms(1)]
  have al: "actions_lawful fw" and cl: "conditions_lawful fw" using assms(2) by (simp_all add: framework_lawful_def)
  have il: "rr_Files (snd (fw_deploy fw os r)) = rr_Files r" "rr_Files (snd (fw_deployments fw f r)) = rr_Files r"
    "list_all no_role (rr_Resources r) \<Longrightarrow> roles (view (rr_Cluster (snd (fw_deploy fw os r)))) = roles (view (rr_Cluster r))"
    "roles (view (rr_Cluster (snd (fw_deployments fw f r)))) = roles (view (rr_Cluster r))" for os f r
    using assms(3) by (simp_all add: install_lawful_def list_all_iff)
  have fr: "cr_frame (rr_Instance r) (rr_Instance (snd (fw_deploy fw os r)))
      \<and> rr_Extensions (snd (fw_deploy fw os r)) = rr_Extensions r"
    "cr_frame (rr_Instance r) (rr_Instance (snd (fw_deployments fw f r)))
      \<and> rr_Extensions (snd (fw_deployments fw f r)) = rr_Extensions r" for os f r
    using al unfolding actions_lawful_def by blast+
  show "charged b (\<lambda>r. installing ray F r \<and> role_ready view ray F r) (fw_deploy fw os) (role_ready view ray F)
      (\<lambda>r. starting ray G (next_request r))"
    by (rule after_role_charged [OF assms(5)], assumption)
      (use errors_boundedD(6) [OF eb] il(1,3) fr(1) in \<open>auto simp: installing_def prod_eq_iff\<close>)
  show "charged b (role_ready view ray F) (deploymentStatusAction fw nsFn) (role_ready view ray F)
      (\<lambda>r. starting ray G (next_request r))"
    by (rule after_role_charged [OF assms(5)], assumption)
      (use install_boundedD(3) [OF assms(4)] il(2,4) fr(2) in
        \<open>auto simp: role_ready_def deploymentStatusAction_def prod_eq_iff\<close>)
  have "pays b (e \<noteq> None) (rr_Cluster r) (rr_Cluster r') \<and> cr_frame (rr_Instance r) (rr_Instance r')
      \<and> rr_Files r' = rr_Files r \<and> rr_Extensions r' = rr_Extensions r
      \<and> roles (view (rr_Cluster r')) = roles (view (rr_Cluster r))" if "distributionAction fw cli base r = (e, r')" for r e r'
    using distribution_cluster [OF gl eb that] status_plan_frames(1) [of r fw cli base] distribution.status_only [of r fw cli base] that
    by (simp add: plan_frame_def)
  then show "charged b (role_ready view ray F) (distributionAction fw cli base) (role_ready view ray F)
      (\<lambda>r. starting ray G (next_request r))"
    by (intro after_role_charged [OF assms(5)])
  have "pays b (e \<noteq> None) (rr_Cluster r) (rr_Cluster r') \<and> cr_frame (rr_Instance r) (rr_Instance r')
      \<and> rr_Files r' = rr_Files r \<and> rr_Extensions r' = rr_Extensions r
      \<and> roles (view (rr_Cluster r')) = roles (view (rr_Cluster r))" if "platformReleaseAction fw cli r = (e, r')" for r e r'
    using platformRelease_cluster [OF gl eb that] status_plan_frames(2) [of r fw cli] platform_release.status_only [of r fw cli] that
    by (simp add: plan_frame_def)
  then show "charged b (role_ready view ray F) (platformReleaseAction fw cli) (role_ready view ray F)
      (\<lambda>r. starting ray G (next_request r))"
    by (intro after_role_charged [OF assms(5)])
  show "charged b (role_ready view ray F) (degradedAction fw) (role_ready view ray F)
      (\<lambda>r. starting ray G (next_request r))"
    using cl by (intro after_role_charged [OF assms(5)]) (auto simp: degradedAction_def conditions_lawful_def)
qed

lemma observed_charged: "charged b (role_ready view ray F) observedGenerationAction (settled view ray F) K"
proof (rule charged_total)
  fix r assume i: "role_ready view ray F r"
  have "removed (snd (observedGenerationAction r)) = removed r"
    by (rule removed_ext) (simp add: observedGenerationAction_def)
  with i show "fst (observedGenerationAction r) = None
      \<and> pays b False (rr_Cluster r) (rr_Cluster (snd (observedGenerationAction r)))
      \<and> settled view ray F (snd (observedGenerationAction r))"
    using cr_frame_trans [OF _ observed.status_only, of ray r] cr_frameD(4) [of ray "rr_Instance r"]
    by (simp add: settled_def role_ready_def) (simp add: observedGenerationAction_def)
qed

lemma collect_charged:
  assumes "framework_lawful fw view" and "install_lawful fw view" and "errors_bounded fw cli b"
    and "\<And>fs. F fs \<Longrightarrow> G fs"
  shows "charged b (settled view ray F) (reconcileGCAction fw cli nsFn) (settled view ray F)
     (\<lambda>r. starting ray G (next_request r))"
  unfolding charged_def
proof (intro allI impI)
  fix r e r' assume i: "settled view ray F r" and run: "reconcileGCAction fw cli nsFn r = (e, r')"
  have gc: "fw_gc fw nsFn [WithDeletePropagationPolicy ''Background''] r = (e, r')"
    using run i by (simp add: settled_def role_ready_def reconcileGCAction_def)
  have fl: "actions_lawful fw" "gc_lawful fw view" using assms(1) by (simp_all add: framework_lawful_def)
  have inst: "rr_Instance r' = rr_Instance r" and sub: "set (view (rr_Cluster r')) \<subseteq> set (view (rr_Cluster r))"
    using gc_lawfulD [OF fl(2), of nsFn "[WithDeletePropagationPolicy ''Background'']" r] gc by simp_all
  have "rr_Extensions r' = rr_Extensions r" using fl(1) gc unfolding actions_lawful_def by (metis snd_conv)
  then have rm: "removed r' = removed r" by (rule removed_ext)
  have fs: "rr_Files r' = rr_Files r"
    using assms(2) gc unfolding install_lawful_def by (metis snd_conv)
  have kept: "x \<in> roles (view (rr_Cluster r')) " if "x \<in> roles (view (rr_Cluster r))" "obj_OwnerRefs x = []" for x
    using assms(2) gc that unfolding install_lawful_def by (metis snd_conv)
  have "roles (view (rr_Cluster r')) \<subseteq> roles (view (rr_Cluster r))" using sub by (auto simp: roles_def)
  then have "installed (view (rr_Cluster r'))"
    using i kept by (auto simp: settled_def role_ready_def installed_def)
  with errors_boundedD(5) [OF assms(3) gc] i inst rm fs assms(4)
  show "pays b (e \<noteq> None) (rr_Cluster r) (rr_Cluster r')
      \<and> (if e = None then settled view ray F r' else starting ray G (next_request r'))"
    by (auto simp: settled_def role_ready_def intro!: starting_next)
qed

section \<open>The whole pass\<close>

definition install_hypotheses ::
  "'w framework \<Rightarrow> 'w client \<Rightarrow> ('w \<Rightarrow> kobj list) \<Rightarrow> ('w \<Rightarrow> nat) \<Rightarrow> env \<Rightarrow> (string \<Rightarrow> nat) \<Rightarrow> string \<Rightarrow> gomap \<Rightarrow> string \<Rightarrow> bool" where
  "install_hypotheses fw cli view b env letter ns m d =
     (client_lawful cli view \<and> createOrUpdate_lawful cli view \<and> framework_lawful fw view \<and> install_lawful fw view
      \<and> install_bounded fw cli b \<and> overlay_renders fw env letter ns m d
      \<and> no_faults env \<and> orders_ok env \<and> ns_ok ns \<and> (re_Match d \<or> no_key d))"

lemma install_charged:
  assumes "install_hypotheses fw cli view b env letter (ApplicationsNamespace (Spec ray)) m d"
    and "ManagementState (Spec ray) \<noteq> Removed"
  shows "charged b (starting ray (preparable env letter base (ApplicationsNamespace (Spec ray)) m d))
     (ray_reconcile fw cli env letter base)
     (settled view ray (prepared env letter (ApplicationsNamespace (Spec ray)) m d))
     (\<lambda>r. starting ray (preparable env letter base (ApplicationsNamespace (Spec ray)) m d) (next_request r))"
proof -
  let ?P = "preparable env letter base (ApplicationsNamespace (Spec ray)) m d"
    and ?Q = "prepared env letter (ApplicationsNamespace (Spec ray)) m d"
  have h: "client_lawful cli view" "createOrUpdate_lawful cli view" "framework_lawful fw view" "install_lawful fw view"
    "install_bounded fw cli b" "overlay_renders fw env letter (ApplicationsNamespace (Spec ray)) m d"
    and P: "?Q fs \<Longrightarrow> ?P fs" for fs
    using assms(1) by (simp_all add: install_hypotheses_def preparable_def)
  have "ray_reconcile fw cli env letter base = seq_actions ([managementStateAction, releasesAction env base]
      @ prepare_actions fw cli env letter base
      @ [certManagerRequirementAction fw, filterPlatformResources fw, notebookClusterRoleAction cli]
      @ from_deploy fw cli base)"
    using h(3) by (simp add: ray_reconcile_def SetupWithManager_def framework_lawful_def runs_in_order_def
        prepare_actions_def before_deploy_def)
  moreover have "charged b (starting ray ?P) (seq_actions [managementStateAction, releasesAction env base])
      (\<lambda>r. starting ray ?P r \<and> \<not> removed r) (\<lambda>r. starting ray ?P (next_request r))"
    by (rule charged_seq charged_seq_one begin_charged [OF assms(2)])+
  moreover note prepare_charged [where F = ?P, OF h(6)]
  moreover have "charged b (installing ray ?Q)
      (seq_actions [certManagerRequirementAction fw, filterPlatformResources fw, notebookClusterRoleAction cli])
      (\<lambda>r. installing ray ?Q r \<and> role_ready view ray ?Q r) (\<lambda>r. starting ray ?P (next_request r))"
    by (rule charged_seq charged_seq_one cert_charged [OF h(5,4) P] platform_charged [OF h(5)]
        apply_role_charged [OF h(5,2) P] | assumption)+
  moreover have "charged b (\<lambda>r. installing ray ?Q r \<and> role_ready view ray ?Q r) (seq_actions (from_deploy fw cli base))
      (settled view ray ?Q) (\<lambda>r. starting ray ?P (next_request r))"
    unfolding from_deploy_def
    by (rule charged_seq charged_seq_one ready_charged [OF h(1,3,4,5) P] observed_charged
        collect_charged [OF h(3,4) install_boundedD(1) [OF h(5)] P] | assumption)+
  ultimately show ?thesis by (simp only:) (blast intro: charged_append)
qed

interpretation installation:
  retried_action
    "install_hypotheses fw cli view b env letter (ApplicationsNamespace (Spec ray)) m d \<and> ManagementState (Spec ray) \<noteq> Removed"
    "ray_reconcile fw cli env letter base" b
    "starting ray (preparable env letter base (ApplicationsNamespace (Spec ray)) m d)"
    "settled view ray (prepared env letter (ApplicationsNamespace (Spec ray)) m d)"
  for fw cli view b env letter ray m d base
  by unfold_locales (blast intro: install_charged)

section \<open>An installation\<close>

text \<open>A framework that renders two objects, behind a connection that loses its first calls.\<close>

definition sample_installer :: "flaky framework" where
  "sample_installer = sample_framework\<lparr>fw_render := (\<lambda>p ns fs. Inr sample_rendered)\<rparr>"

lemma sample_installer_fields:
  "fw_deploy sample_installer = fw_deploy sample_framework" "fw_gc sample_installer = fw_gc sample_framework"
  "fw_deployments sample_installer = fw_deployments sample_framework"
  "fw_restMapping sample_installer = fw_restMapping sample_framework"
  "fw_hasCRD sample_installer = fw_hasCRD sample_framework"
  "fw_markTrue sample_installer = fw_markTrue (sample_framework :: flaky framework)"
  "fw_markFalse sample_installer = fw_markFalse (sample_framework :: flaky framework)"
  "fw_runActions sample_installer = fw_runActions sample_framework"
  by (simp_all add: sample_installer_def)

lemma sample_installer_lawful: "framework_lawful sample_installer v" "install_lawful sample_installer v"
proof -
  have "runs_in_order sample_installer"
    using sample_framework_lawful(4) by (simp add: runs_in_order_def sample_installer_fields)
  moreover have "actions_lawful sample_installer"
    using sample_framework_lawful(2) by (simp only: actions_lawful_def sample_installer_fields)
  moreover have "conditions_lawful sample_installer"
    using sample_framework_conditions [where ?'a = flaky] by (simp add: conditions_lawful_def sample_installer_fields)
  moreover have "gc_lawful sample_installer v"
    using sample_framework_lawful(3) by (simp only: gc_lawful_def sample_installer_fields)
  moreover have "deploy_lawful sample_installer v"
    using sample_framework_all [of v] by (simp add: framework_lawful_def deploy_lawful_def sample_installer_fields)
  ultimately show "framework_lawful sample_installer v" by (simp add: framework_lawful_def)
  show "install_lawful sample_installer v"
    by (simp add: install_lawful_def sample_installer_fields) (simp add: sample_framework_def)
qed

lemma mem_createOrUpdate_succeeds: "fst (cli_createOrUpdate mem_client x f c) = None"
  by (simp add: mem_client_def split: option.splits)

lemma flaky_createOrUpdate: "createOrUpdate_lawful flaky_client flaky_view"
  unfolding createOrUpdate_lawful_def
proof (intro allI impI)
  fix x f w w' assume k: "\<forall>y. obj_key (f y) = obj_key y" and "cli_createOrUpdate flaky_client x f w = (None, w')"
  then have "lose (Some (OtherKube ''timeout'')) (cli_createOrUpdate mem_client x f) w = (None, w')"
    by (simp add: flaky_client_def)
  then have "cli_createOrUpdate mem_client x f (fst w) = (None, fst w')" by (cases rule: lose_cases) simp_all
  then show "\<exists>old. (old = x \<or> old \<in> set (flaky_view w) \<and> obj_key old = obj_key x)
      \<and> set (flaky_view w') = insert (f old) {y \<in> set (flaky_view w). obj_key y \<noteq> obj_key x}"
    using mem_client_lawful(5) k unfolding createOrUpdate_lawful_def by blast
qed

lemma flaky_install_bounded: "install_bounded sample_installer flaky_client snd"
proof -
  have "errors_bounded sample_installer flaky_client snd"
    using flaky_bounded by (simp add: errors_bounded_def sample_installer_fields)
  moreover have "pays snd (res \<noteq> None) w w'" if "cli_createOrUpdate flaky_client x f w = (res, w')" for x f w res w'
    using that mem_createOrUpdate_succeeds [of x f]
    by (intro lose_pays [where failed = "\<lambda>res. res \<noteq> None" and call = "cli_createOrUpdate mem_client x f"
          and err = "Some (OtherKube ''timeout'')"]) (simp_all add: flaky_client_def prod_eq_iff)
  ultimately show ?thesis
    by (simp add: install_bounded_def sample_installer_fields) (simp add: sample_framework_def)
qed

lemma sample_install:
  "install_hypotheses sample_installer flaky_client flaky_view snd sample_env (\<lambda>s. 0) ''odh'' sample_params sample_kustomization"
proof -
  have "list_all no_role sample_rendered" by code_simp
  then have "overlay_renders sample_installer sample_env (\<lambda>s. 0) ''odh'' sample_params sample_kustomization"
    by (simp add: overlay_renders_def sample_installer_def)
  then show ?thesis
    unfolding install_hypotheses_def
    using flaky_lawful flaky_createOrUpdate sample_installer_lawful flaky_install_bounded sample_image_fresh
      sample_image_overlay
    unfolding fresh_start_def image_overlay_def by blast
qed

definition sample_install_request :: "flaky rr" where
  "sample_install_request = sample_rr sample_image (sample_operands, 4)"

section \<open>Properties\<close>

text \<open>
  C5. Installation converges under failing calls: no file operation fails, the first pass finds no writable
  copy, the overlay of the image can be prepared and rendered without the notebook role in it, the CRDs that
  cert-manager objects need are there, and no other writer interferes; what may fail, finitely often, are the calls to the API server and
  the framework's actions. Then the pass of a managed component, repeated as long as it fails, ends after at
  most as many repetitions as calls are to fail: the writable copy is prepared for the namespace, the notebook
  role is there exactly as it is to be, and the status carries the present generation. (What a failing copy
  leaves for good is in \<open>Params\<close>.)
\<close>

theorem managed_converges:
  assumes "install_hypotheses fw cli view b env letter (apps_ns r) m d"
    and "ManagementState (Spec (rr_Instance r)) \<noteq> Removed" and "rr_Resources r = []"
    and "fresh_start env base (rr_Files r)" and "image_overlay env base (apps_ns r) (rr_Files r) m d"
  shows "\<exists>n r'. requeue (ray_reconcile fw cli env letter base) 0 r = Some (n, r') \<and> n \<le> b (rr_Cluster r)
     \<and> prepared env letter (apps_ns r) m d (rr_Files r')
     \<and> (\<exists>x. {y \<in> set (view (rr_Cluster r')). obj_key y = role_key} = {x}
            \<and> obj_Labels x = obj_Labels notebookClusterRole \<and> obj_Rules x = obj_Rules notebookClusterRole
            \<and> obj_OwnerRefs x = [])
     \<and> ObservedGeneration (Status (rr_Instance r')) = meta_Generation (rr_Instance r)"
proof -
  have "starting (rr_Instance r) (preparable env letter base (apps_ns r) m d) r"
    using assms by (simp add: starting_def preparable_def install_hypotheses_def)
  from installation.requeue_ends [OF conjI [OF assms(1,2)] this, of 0] show ?thesis
    by (auto simp: settled_def role_ready_def installed_def roles_def)
qed

section \<open>Witnesses\<close>

theorem managed_converges_witness:
  "\<exists>n r'. requeue (ray_reconcile sample_installer flaky_client sample_env (\<lambda>s. 0) ''/opt/manifests'') 0 sample_install_request
       = Some (n, r') \<and> n \<le> 4
     \<and> list_ex (\<lambda>x. obj_key x = role_key \<and> obj_Rules x = obj_Rules notebookClusterRole) (flaky_view (rr_Cluster r'))
     \<and> ObservedGeneration (Status (rr_Instance r')) = 3"
proof -
  let ?r = sample_install_request
  have r: "apps_ns ?r = ''odh''" "rr_Files ?r = sample_image" "rr_Resources ?r = []" "snd (rr_Cluster ?r) = 4"
    "ManagementState (Spec (rr_Instance ?r)) \<noteq> Removed" "meta_Generation (rr_Instance ?r) = 3"
    by (simp_all add: sample_install_request_def sample_rr_def sample_ray_def)
  obtain n r' x where "requeue (ray_reconcile sample_installer flaky_client sample_env (\<lambda>s. 0) ''/opt/manifests'') 0 ?r
       = Some (n, r')" "n \<le> 4" "{y \<in> set (flaky_view (rr_Cluster r')). obj_key y = role_key} = {x}"
     "obj_Rules x = obj_Rules notebookClusterRole" "ObservedGeneration (Status (rr_Instance r')) = 3"
    using managed_converges [of sample_installer flaky_client flaky_view snd sample_env "\<lambda>s. 0" ?r sample_params
        sample_kustomization "''/opt/manifests''"] sample_install sample_image_fresh sample_image_overlay
    unfolding r(1,2,4,6) using r(3,5) by blast
  then show ?thesis unfolding list_ex_iff by blast
qed

text \<open>The same loop run.\<close>

lemma sample_install_run:
  "map_option (\<lambda>(n, r). (n, map obj_Name (filter (\<lambda>x. obj_key x = role_key) (flaky_view (rr_Cluster r)))))
     (requeue (ray_reconcile sample_installer flaky_client sample_env (\<lambda>s. 0) ''/opt/manifests'') 0 sample_install_request)
   = Some (4, [''ray''])"
  by code_simp

end
