(* ===== verification/Life_Cycle.thy ===== *)
theory Life_Cycle
  imports Convergence
begin

text \<open>
  The life of the custom resource as a state machine. It is the environment of the module's code: what the
  API server, users, other controllers, the framework's executor and the watch do is not code of this
  repository, and the machine lets them do what their documentation and the comments in
  \<^verbatim>\<open>ray_controller.go\<close> allow, in any order. Users change the spec, other controllers the objects of
  the cluster, the status and finalizers of their own; the operator reads the resource from a cache that
  follows at its own pace, also behind the events that put requests into the queue; its single worker
  takes a request and passes over the resource as the cache has it, on the apply path with the actions that
  \<^verbatim>\<open>SetupWithManager\<close> registers, or on the delete path with the action behind the finalizer. A pass may
  read a stale cache, fail, or be cut short after any action. Three things are excluded. Nobody but the
  operator takes its finalizer off, which is what a finalizer is for. Nobody but the operator creates the
  notebook role or objects that carry its label or owner reference. And what the client reads of operands is
  current (the laws of \<open>Mem_Cluster\<close>), unlike what it reads of the resource. What the machine needs of the registered functions
  is the locale \<open>module_reconciler\<close>, interpreted on \<open>SetupWithManager\<close> in \<open>Ray_Life\<close>; the invariant
  proved here ties together the admission rule on the namespace, the wait for it and the clean-up.
\<close>

section \<open>The machine\<close>

text \<open>The resource is stored, or has gone; what it was is remembered.\<close>

datatype custom_resource = Stored ray | Gone ray

text \<open>
  A state: the resource as the API server has it and as the operator's cache has it (\<open>Gone\<close> when a read
  does not find it, before the cache has seen it as well as after), whether a request for it is in the work
  queue, and the cluster.
\<close>

type_synonym 'w life = "custom_resource \<times> custom_resource \<times> bool \<times> 'w"

text \<open>An object marked for deletion goes with its last finalizer.\<close>

definition settle :: "ray \<Rightarrow> custom_resource" where
  "settle ray = (if meta_DeletionTimestamp ray \<noteq> None \<and> meta_Finalizers ray = [] then Gone ray else Stored ray)"

text \<open>A write of the status, which a resource that has gone does not take.\<close>

definition with_status :: "ray_status \<Rightarrow> custom_resource \<Rightarrow> custom_resource" where
  "with_status st s = (case s of Stored ray \<Rightarrow> Stored (ray\<lparr>Status := st\<rparr>) | Gone ray \<Rightarrow> Gone ray)"

text \<open>What the operator puts into a cluster, whatever the namespace, and what of it a resource is to clean up.\<close>

definition module_object :: "string \<Rightarrow> kobj \<Rightarrow> bool" where
  "module_object uid x =
     (obj_key x = role_key
      \<or> (obj_GVK x \<in> set namespacedOwnedLists \<or> obj_GVK x \<in> set clusterOwnedLists) \<and> doomed uid x)"

definition leftover :: "ray \<Rightarrow> kobj \<Rightarrow> bool" where
  "leftover ray x = (obj_key x = role_key \<or> operand_target ray x)"

text \<open>
  The framework's side of a pass is as the comments in \<^verbatim>\<open>ray_controller.go\<close>
  describe it: it puts the finalizer on the resource before the pre-apply function is asked, runs the
  actions unless that holds the pass back, stores the status, and on the delete path runs the action
  behind the finalizer and nothing else. \<open>add\<close> stands for putting the finalizer on. \<open>pass_begins\<close>: a
  cached resource with the finalizer is taken as it is; otherwise the finalizer is written first, which
  the API server accepts only when the cache is up to date.
\<close>

definition pass_begins ::
  "(ray \<Rightarrow> ray) \<Rightarrow> string \<Rightarrow> custom_resource \<Rightarrow> ray \<Rightarrow> custom_resource \<Rightarrow> ray \<Rightarrow> bool" where
  "pass_begins add f s cached s1 inst =
     (if f \<in> set (meta_Finalizers cached) then s1 = s \<and> inst = cached
      else s = Stored cached \<and> s1 = Stored (add cached) \<and> inst = add cached)"

text \<open>
  Who takes a step. A pass that comes to its end is the worker's, with or without an error; one that the
  process does not survive, or whose write of the resource is refused, is an interruption.
\<close>

datatype actor = User | Others | Watch | Worker | Interruption

text \<open>
  \<open>n\<close> is the number of actions after which the process stops; a write that fails, or a pass that does
  not complete, puts the request back into the queue. A write of the resource other than its status
  succeeds only on the version it was read at.
\<close>

inductive life_step ::
  "'w framework \<Rightarrow> (ray \<Rightarrow> ray) \<Rightarrow> ('w \<Rightarrow> kobj list) \<Rightarrow> 'w reconciler \<Rightarrow> actor \<Rightarrow> 'w life \<Rightarrow> 'w life \<Rightarrow> bool"
  for fw add view rec where
  user_update:
    "cel_name_rule new \<Longrightarrow> cel_namespace_rule old new
     \<Longrightarrow> new = old\<lparr>Spec := sp, meta_Generation := meta_Generation old + (if sp = Spec old then 0 else 1)\<rparr>
     \<Longrightarrow> life_step fw add view rec User (Stored old, c, p, w) (Stored new, c, p, w)"
| delete_request:
    "meta_DeletionTimestamp old = None \<Longrightarrow> meta_Finalizers old \<noteq> []
     \<Longrightarrow> new = old\<lparr>meta_DeletionTimestamp := Some t, meta_Generation := g\<rparr>
     \<Longrightarrow> life_step fw add view rec User (Stored old, c, p, w) (Stored new, c, p, w)"
| delete_at_once:
    "meta_DeletionTimestamp old = None \<Longrightarrow> meta_Finalizers old = []
     \<Longrightarrow> life_step fw add view rec User (Stored old, c, p, w) (Gone old, c, p, w)"
| other_status:
    "life_step fw add view rec Others (Stored old, c, p, w) (Stored (old\<lparr>Status := st\<rparr>), c, p, w)"
| finalizers_set:
    "meta_DeletionTimestamp old = None
     \<Longrightarrow> rec_FinalizerName rec \<in> set (meta_Finalizers old) \<longrightarrow> rec_FinalizerName rec \<in> set fs
     \<Longrightarrow> life_step fw add view rec Others (Stored old, c, p, w) (Stored (old\<lparr>meta_Finalizers := fs\<rparr>), c, p, w)"
| other_finalizer:
    "meta_DeletionTimestamp old \<noteq> None \<Longrightarrow> f \<noteq> rec_FinalizerName rec
     \<Longrightarrow> life_step fw add view rec Others (Stored old, c, p, w)
           (settle (old\<lparr>meta_Finalizers := filter (\<lambda>h. h \<noteq> f) (meta_Finalizers old)\<rparr>), c, p, w)"
| cluster_changes:
    "(\<forall>x \<in> set (view w'). module_object uid x \<longrightarrow> (\<exists>y \<in> set (view w). obj_key y = obj_key x \<and> module_object uid y))
     \<Longrightarrow> distinct_keys (view w') \<Longrightarrow> s = Stored ray \<or> s = Gone ray \<Longrightarrow> uid = meta_UID ray
     \<Longrightarrow> life_step fw add view rec Others (s, c, p, w) (s, c, p, w')"
| cache_follows:
    "life_step fw add view rec Watch (s, c, p, w) (s, s, p, w)"
| event:
    "life_step fw add view rec Watch (s, c, p, w) (s, c, True, w)"
| apply_not_begun:
    "meta_DeletionTimestamp cached = None \<Longrightarrow> view w' = view w
     \<Longrightarrow> life_step fw add view rec Interruption (s, Stored cached, True, w) (s, Stored cached, True, w')"
| apply_held:
    "meta_DeletionTimestamp cached = None \<Longrightarrow> pass_begins add (rec_FinalizerName rec) s cached s1 inst
     \<Longrightarrow> rr_Instance r = inst \<Longrightarrow> view (rr_Cluster r) = view w \<Longrightarrow> rec_PreApplyFn rec r = (True, r1)
     \<Longrightarrow> s2 = s1 \<or> (s1 = Stored inst \<and> s2 = Stored (rr_Instance r1))
     \<Longrightarrow> life_step fw add view rec Worker (s, Stored cached, True, w)
           (with_status st s2, Stored cached, p', rr_Cluster r1)"
| apply_run:
    "meta_DeletionTimestamp cached = None \<Longrightarrow> pass_begins add (rec_FinalizerName rec) s cached s1 inst
     \<Longrightarrow> rr_Instance r = inst \<Longrightarrow> view (rr_Cluster r) = view w \<Longrightarrow> rec_PreApplyFn rec r = (False, r1)
     \<Longrightarrow> fw_runActions fw (take n (rec_Actions rec)) r1 = (e, r2) \<Longrightarrow> distinct_keys (view (rr_Cluster r2))
     \<Longrightarrow> (p' \<and> s2 = s1) \<or> ((p' \<or> e = None \<and> length (rec_Actions rec) \<le> n) \<and> s2 = with_status (Status (rr_Instance r2)) s1)
     \<Longrightarrow> life_step fw add view rec Worker (s, Stored cached, True, w) (s2, Stored cached, p', rr_Cluster r2)"
| delete_failed:
    "meta_DeletionTimestamp cached \<noteq> None \<Longrightarrow> rec_FinalizerName rec \<in> set (meta_Finalizers cached)
     \<Longrightarrow> rr_Instance r = cached \<Longrightarrow> rr_Cluster r = w \<Longrightarrow> rec_Finalizer rec r = (Some err, r1)
     \<Longrightarrow> life_step fw add view rec Worker (s, Stored cached, True, w) (s, Stored cached, True, rr_Cluster r1)"
| delete_interrupted:
    "meta_DeletionTimestamp cached \<noteq> None \<Longrightarrow> rec_FinalizerName rec \<in> set (meta_Finalizers cached)
     \<Longrightarrow> rr_Instance r = cached \<Longrightarrow> rr_Cluster r = w \<Longrightarrow> rec_Finalizer rec r = (e, r1)
     \<Longrightarrow> life_step fw add view rec Interruption (s, Stored cached, True, w) (s, Stored cached, True, rr_Cluster r1)"
| delete_done:
    "meta_DeletionTimestamp ray \<noteq> None \<Longrightarrow> rec_FinalizerName rec \<in> set (meta_Finalizers ray)
     \<Longrightarrow> rr_Instance r = ray \<Longrightarrow> rr_Cluster r = w \<Longrightarrow> rec_Finalizer rec r = (None, r1)
     \<Longrightarrow> life_step fw add view rec Worker (Stored ray, Stored ray, True, w)
           (settle (snd (fw_removeFinalizer fw ray (rec_FinalizerName rec))), Stored ray, p', rr_Cluster r1)"
| nothing_to_do:
    "c = Gone ray \<or> c = Stored ray \<and> meta_DeletionTimestamp ray \<noteq> None \<and> rec_FinalizerName rec \<notin> set (meta_Finalizers ray)
     \<Longrightarrow> life_step fw add view rec Worker (s, c, True, w) (s, c, p', w)"

text \<open>A run, with the actors of its steps in order.\<close>

inductive life_run ::
  "'w framework \<Rightarrow> (ray \<Rightarrow> ray) \<Rightarrow> ('w \<Rightarrow> kobj list) \<Rightarrow> 'w reconciler \<Rightarrow> actor list \<Rightarrow> 'w life \<Rightarrow> 'w life \<Rightarrow> bool"
  for fw add view rec where
  start: "life_run fw add view rec [] st st"
| step: "life_step fw add view rec a st st1 \<Longrightarrow> life_run fw add view rec as st1 st2
    \<Longrightarrow> life_run fw add view rec (a # as) st st2"

text \<open>A resource that has gone does not come back: another of its name has a life of its own.\<close>

lemma gone_stays:
  assumes "life_step fw add view rec a (Gone ray, c, p, w) (s', c', p', w')"
  shows "s' = Gone ray"
  using assms by cases (auto simp: pass_begins_def with_status_def split: if_splits)

text \<open>The finalizer is put on the resource, and nothing else of it changes.\<close>

definition adds_finalizer :: "(ray \<Rightarrow> ray) \<Rightarrow> string \<Rightarrow> bool" where
  "adds_finalizer add f =
     (\<forall>ray. add ray = ray\<lparr>meta_Finalizers := meta_Finalizers (add ray)\<rparr>
        \<and> set (meta_Finalizers (add ray)) = insert f (set (meta_Finalizers ray)))"

section \<open>The invariant\<close>

text \<open>
  Of the cluster: while the namespace is not set there is nothing of the module in it; without the
  finalizer there is nothing to clean up.
\<close>

definition clean_inv :: "string \<Rightarrow> custom_resource \<Rightarrow> kobj list \<Rightarrow> bool" where
  "clean_inv f s v =
     (distinct_keys v
      \<and> (case s of
           Gone ray \<Rightarrow> \<forall>x \<in> set v. \<not> leftover ray x
         | Stored ray \<Rightarrow>
             (ApplicationsNamespace (Spec ray) = [] \<longrightarrow> (\<forall>x \<in> set v. \<not> module_object (meta_UID ray) x))
             \<and> (f \<notin> set (meta_Finalizers ray) \<longrightarrow> (\<forall>x \<in> set v. \<not> leftover ray x))))"

text \<open>
  Of the cache, an earlier version of the resource: a namespace it has is the resource's; when it shows
  the finalizer under a namespace and no deletion, the finalizer is still on; and when it shows a deletion without the finalizer,
  that is off for good.
\<close>

definition cache_inv :: "string \<Rightarrow> custom_resource \<Rightarrow> custom_resource \<Rightarrow> bool" where
  "cache_inv f s c =
     (case c of
        Gone cached \<Rightarrow> True
      | Stored cached \<Rightarrow>
          (case s of
             Gone ray \<Rightarrow> \<not> (meta_DeletionTimestamp cached = None \<and> f \<in> set (meta_Finalizers cached)
                             \<and> ApplicationsNamespace (Spec cached) \<noteq> [])
           | Stored ray \<Rightarrow>
               (ApplicationsNamespace (Spec cached) \<noteq> [] \<longrightarrow>
                  ApplicationsNamespace (Spec ray) = ApplicationsNamespace (Spec cached))
               \<and> (meta_DeletionTimestamp cached \<noteq> None \<longrightarrow> meta_DeletionTimestamp ray \<noteq> None)
               \<and> (meta_DeletionTimestamp cached = None \<and> f \<in> set (meta_Finalizers cached)
                    \<and> ApplicationsNamespace (Spec cached) \<noteq> [] \<longrightarrow> f \<in> set (meta_Finalizers ray))
               \<and> (meta_DeletionTimestamp cached \<noteq> None \<and> f \<notin> set (meta_Finalizers cached) \<longrightarrow>
                    f \<notin> set (meta_Finalizers ray))))"

definition life_inv :: "('w \<Rightarrow> kobj list) \<Rightarrow> string \<Rightarrow> 'w life \<Rightarrow> bool" where
  "life_inv view f st = (case st of (s, c, p, w) \<Rightarrow> clean_inv f s (view w) \<and> cache_inv f s c)"

lemmas life_invs = life_inv_def clean_inv_def cache_inv_def

lemma leftover_module: "leftover ray x \<Longrightarrow> module_object (meta_UID ray) x"
  by (auto simp: leftover_def module_object_def operand_target_def listed_def)

lemma finalizers_onlyD:
  assumes "b = a\<lparr>meta_Finalizers := meta_Finalizers b\<rparr>"
  shows "Spec b = Spec a" and "meta_UID b = meta_UID a" and "meta_DeletionTimestamp b = meta_DeletionTimestamp a"
    and "meta_Generation b = meta_Generation a" and "Status b = Status a"
  by (subst assms, simp)+

lemma leftover_cong:
  "Spec ray' = Spec ray \<Longrightarrow> meta_UID ray' = meta_UID ray \<Longrightarrow> leftover ray' = leftover ray"
  by (simp add: leftover_def operand_target_def fun_eq_iff)

lemma leftover_status [simp]: "leftover (ray\<lparr>Status := st\<rparr>) = leftover ray"
  by (rule leftover_cong) simp_all

text \<open>Nothing of the module comes into a cluster: what a deletion guarantees on every path.\<close>

definition no_new :: "kobj list \<Rightarrow> kobj list \<Rightarrow> bool" where
  "no_new v v' = (others v' \<subseteq> others v \<and> obj_key ` set v' \<subseteq> obj_key ` set v)"

lemma no_new_clean:
  assumes "no_new v v'"
  shows "\<forall>x \<in> set v. \<not> leftover ray x \<Longrightarrow> \<forall>x \<in> set v'. \<not> leftover ray x"
    and "\<forall>x \<in> set v. \<not> module_object uid x \<Longrightarrow> \<forall>x \<in> set v'. \<not> module_object uid x"
proof -
  have *: "x \<in> set v \<or> (obj_key x = role_key \<and> (\<exists>y \<in> set v. obj_key y = role_key))" if "x \<in> set v'" for x
    using assms that unfolding no_new_def others_def by (cases "obj_key x = role_key") (auto simp: image_iff)
  show "\<forall>x \<in> set v. \<not> leftover ray x \<Longrightarrow> \<forall>x \<in> set v'. \<not> leftover ray x"
    using * unfolding leftover_def by blast
  show "\<forall>x \<in> set v. \<not> module_object uid x \<Longrightarrow> \<forall>x \<in> set v'. \<not> module_object uid x"
    using * unfolding module_object_def by blast
qed

lemma clean_inv_no_new: "clean_inv f s v \<Longrightarrow> no_new v v' \<Longrightarrow> distinct_keys v' \<Longrightarrow> clean_inv f s v'"
  using no_new_clean [of v v'] by (cases s) (simp_all add: clean_inv_def)

lemma clean_inv_status: "clean_inv f (with_status st s) v = clean_inv f s v"
  by (cases s) (simp_all add: clean_inv_def with_status_def)

lemma cache_inv_status: "cache_inv f (with_status st s) c = cache_inv f s c"
  by (cases s; cases c) (simp_all add: cache_inv_def with_status_def)

section \<open>The contract of the registered functions\<close>

text \<open>
  What the machine needs of the functions a reconciler is registered with, when the client and the
  framework behave as documented (\<open>lawful\<close>).
\<close>

locale module_reconciler =
  fixes lawful :: bool
    and fw :: "'w framework"
    and add :: "ray \<Rightarrow> ray"
    and view :: "'w \<Rightarrow> kobj list"
    and rec :: "'w reconciler"
  assumes adds: "lawful \<Longrightarrow> adds_finalizer add (rec_FinalizerName rec)"
    and removes: "lawful \<Longrightarrow> finalizer_lawful fw"
    and waits: "lawful \<Longrightarrow> rec_PreApplyFn rec r = (held, r1) \<Longrightarrow>
      held = (apps_ns r = []) \<and> view (rr_Cluster r1) = view (rr_Cluster r)
      \<and> rr_Instance r1 = (rr_Instance r)\<lparr>meta_Finalizers := meta_Finalizers (rr_Instance r1)\<rparr>
      \<and> (\<not> held \<longrightarrow> r1 = r)"
    and status_only: "lawful \<Longrightarrow> fw_runActions fw (take n (rec_Actions rec)) r = (e, r1) \<Longrightarrow>
      cr_frame (rr_Instance r) (rr_Instance r1)"
    and cleans: "lawful \<Longrightarrow> distinct_keys (view (rr_Cluster r)) \<Longrightarrow> rec_Finalizer rec r = (e, r1) \<Longrightarrow>
      distinct_keys (view (rr_Cluster r1)) \<and> no_new (view (rr_Cluster r)) (view (rr_Cluster r1))
      \<and> (apps_ns r \<noteq> [] \<and> e = None \<longrightarrow> (\<forall>x \<in> set (view (rr_Cluster r1)). \<not> leftover (rr_Instance r) x))"
begin

abbreviation step :: "actor \<Rightarrow> 'w life \<Rightarrow> 'w life \<Rightarrow> bool" where
  "step \<equiv> life_step fw add view rec"

abbreviation inv :: "'w life \<Rightarrow> bool" where
  "inv \<equiv> life_inv view (rec_FinalizerName rec)"

lemma update_keeps:
  assumes "inv (Stored old, c, p, w)" and "cel_namespace_rule old new"
    and "new = old\<lparr>Spec := sp, meta_Generation := meta_Generation old + (if sp = Spec old then 0 else 1)\<rparr>"
  shows "inv (Stored new, c, p, w)"
proof (cases "sp = Spec old")
  case True
  with assms show ?thesis by simp
next
  case False
  have new: "meta_UID new = meta_UID old" "meta_Finalizers new = meta_Finalizers old"
    "meta_DeletionTimestamp new = meta_DeletionTimestamp old" "meta_Generation new = meta_Generation old + 1"
    using assms(3) False by simp_all
  have ns: "ApplicationsNamespace (Spec old) = [] \<or> ApplicationsNamespace (Spec new) = ApplicationsNamespace (Spec old)"
    using assms(2) by (simp add: cel_namespace_rule_def)
  have "leftover new x \<Longrightarrow> leftover old x \<or> module_object (meta_UID old) x \<and> ApplicationsNamespace (Spec old) = []" for x
    using ns leftover_module [of new x] new(1) by (auto simp: leftover_def operand_target_def)
  moreover have clean: "clean_inv (rec_FinalizerName rec) (Stored old) (view w)" using assms(1) by (simp add: life_inv_def)
  ultimately have "\<forall>x \<in> set (view w). rec_FinalizerName rec \<notin> set (meta_Finalizers old) \<longrightarrow> \<not> leftover new x"
    by (simp add: clean_inv_def) blast
  with clean have "clean_inv (rec_FinalizerName rec) (Stored new) (view w)"
    using ns new(1,2) by (auto simp: clean_inv_def)
  moreover have "cache_inv (rec_FinalizerName rec) (Stored new) c"
  proof (cases c)
    case (Stored cached)
    have ns': "ApplicationsNamespace (Spec old) \<noteq> [] \<longrightarrow> ApplicationsNamespace (Spec new) = ApplicationsNamespace (Spec old)"
      using ns by blast
    have "cache_inv (rec_FinalizerName rec) (Stored old) c" using assms(1) by (simp add: life_inv_def)
    then show ?thesis using Stored ns' new(2,3) by (simp add: cache_inv_def)
  qed (simp add: cache_inv_def)
  ultimately show ?thesis by (simp add: life_inv_def)
qed

text \<open>The beginning of a pass on the apply path.\<close>

lemma begins:
  assumes lawful and "inv (s, Stored cached, True, w)" and "meta_DeletionTimestamp cached = None"
    and "pass_begins add (rec_FinalizerName rec) s cached s1 inst"
  shows "clean_inv (rec_FinalizerName rec) s1 (view w)" and "cache_inv (rec_FinalizerName rec) s1 (Stored cached)"
    and "Spec inst = Spec cached" and "meta_Generation inst = meta_Generation cached"
    and "meta_DeletionTimestamp inst = None" and "meta_UID inst = meta_UID cached"
    and "s1 = Stored inst \<longrightarrow> rec_FinalizerName rec \<in> set (meta_Finalizers inst)"
    and "s1 = s \<and> inst = cached \<and> rec_FinalizerName rec \<in> set (meta_Finalizers cached)
      \<or> s = Stored cached \<and> s1 = Stored inst \<and> rec_FinalizerName rec \<notin> set (meta_Finalizers cached)"
proof -
  let ?f = "rec_FinalizerName rec"
  note a = adds [OF assms(1), unfolded adds_finalizer_def, rule_format, of cached]
  note i = finalizers_onlyD [OF conjunct1 [OF a]]
  have both: "s1 = s \<and> inst = cached \<and> ?f \<in> set (meta_Finalizers cached)
      \<or> s = Stored cached \<and> s1 = Stored inst \<and> ?f \<notin> set (meta_Finalizers cached) \<and> inst = add cached"
    using assms(4) by (auto simp: pass_begins_def split: if_splits)
  have inv: "clean_inv ?f s (view w)" "cache_inv ?f s (Stored cached)" using assms(2) by (simp_all add: life_inv_def)
  show "Spec inst = Spec cached" "meta_Generation inst = meta_Generation cached" "meta_UID inst = meta_UID cached"
    "meta_DeletionTimestamp inst = None"
    using both i assms(3) by auto
  show "s1 = Stored inst \<longrightarrow> ?f \<in> set (meta_Finalizers inst)" using both a by auto
  show "clean_inv ?f s1 (view w)" "cache_inv ?f s1 (Stored cached)"
    using both inv i conjunct2 [OF a] assms(3) by (auto simp: clean_inv_def cache_inv_def)
  show "s1 = s \<and> inst = cached \<and> ?f \<in> set (meta_Finalizers cached)
      \<or> s = Stored cached \<and> s1 = Stored inst \<and> ?f \<notin> set (meta_Finalizers cached)" using both by blast
qed

lemma held_keeps:
  assumes lawful and "inv (s, Stored cached, True, w)" and "meta_DeletionTimestamp cached = None"
    and "pass_begins add (rec_FinalizerName rec) s cached s1 inst"
    and "rr_Instance r = inst" and "view (rr_Cluster r) = view w" and "rec_PreApplyFn rec r = (True, r1)"
    and "s2 = s1 \<or> (s1 = Stored inst \<and> s2 = Stored (rr_Instance r1))"
  shows "inv (with_status st s2, Stored cached, p', rr_Cluster r1)"
proof -
  let ?f = "rec_FinalizerName rec"
  note b = begins [OF assms(1-4)] and wt = waits [OF assms(1,7)]
  have ns: "ApplicationsNamespace (Spec cached) = []" using wt assms(5) b(3) by simp
  note i1 = finalizers_onlyD [of "rr_Instance r1" "rr_Instance r"]
  have "clean_inv ?f (Stored (rr_Instance r1)) (view w) \<and> cache_inv ?f (Stored (rr_Instance r1)) (Stored cached)"
    if "s1 = Stored inst"
  proof -
    have pristine: "\<forall>x \<in> set (view w). \<not> module_object (meta_UID inst) x" "distinct_keys (view w)"
      using b(1,3) ns that by (simp_all add: clean_inv_def)
    have "\<forall>x \<in> set (view w). \<not> leftover (rr_Instance r1) x"
      using pristine(1) leftover_module [of "rr_Instance r1"] i1 wt assms(5) by auto
    with pristine show ?thesis
      using i1 wt assms(3,5) b(3-6) ns by (auto simp: clean_inv_def cache_inv_def)
  qed
  then have "clean_inv ?f s2 (view w)" and "cache_inv ?f s2 (Stored cached)" using assms(8) b(1,2) by auto
  then show ?thesis using wt assms(6) by (simp add: life_inv_def clean_inv_status cache_inv_status)
qed

lemma run_keeps:
  assumes lawful and "inv (s, Stored cached, True, w)" and "meta_DeletionTimestamp cached = None"
    and "pass_begins add (rec_FinalizerName rec) s cached s1 inst"
    and "rr_Instance r = inst" and "view (rr_Cluster r) = view w" and "rec_PreApplyFn rec r = (False, r1)"
    and "fw_runActions fw (take n (rec_Actions rec)) r1 = (e, r2)" and "distinct_keys (view (rr_Cluster r2))"
    and "(p' \<and> s2 = s1) \<or> ((p' \<or> e = None \<and> length (rec_Actions rec) \<le> n) \<and> s2 = with_status (Status (rr_Instance r2)) s1)"
  shows "inv (s2, Stored cached, p', rr_Cluster r2)"
proof -
  let ?f = "rec_FinalizerName rec"
  note b = begins [OF assms(1-4)] and wt = waits [OF assms(1,7)]
  have r1: "r1 = r" and ns: "ApplicationsNamespace (Spec cached) \<noteq> []" using wt assms(5) b(3) by simp_all
  obtain ray where s1: "s1 = Stored ray" and f: "?f \<in> set (meta_Finalizers ray)"
    and ray: "ApplicationsNamespace (Spec ray) \<noteq> []"
    using b(2,3,7,8) ns assms(3) by (cases s1) (auto simp: cache_inv_def)
  have "clean_inv ?f s2 (view (rr_Cluster r2))"
    using assms(9,10) s1 f ray by (auto simp: clean_inv_def with_status_def)
  moreover have "cache_inv ?f s2 (Stored cached)" using assms(10) b(2) cache_inv_status by metis
  ultimately show ?thesis by (simp add: life_inv_def)
qed

lemma cleanup_keeps:
  assumes lawful and "inv (s, Stored cached, True, w)"
    and "rr_Instance r = cached" and "rr_Cluster r = w" and "rec_Finalizer rec r = (e, r1)"
  shows "inv (s, Stored cached, True, rr_Cluster r1)"
    and "s = Stored cached \<Longrightarrow> meta_DeletionTimestamp cached \<noteq> None \<Longrightarrow> e = None \<Longrightarrow>
      inv (settle (snd (fw_removeFinalizer fw cached (rec_FinalizerName rec))), Stored cached, p', rr_Cluster r1)"
proof -
  let ?f = "rec_FinalizerName rec"
  have k: "distinct_keys (view (rr_Cluster r))" using assms(2,4) by (simp add: life_inv_def clean_inv_def)
  note c = cleans [OF assms(1) k assms(5)]
  have clean: "clean_inv ?f s (view (rr_Cluster r1))"
    using assms(2,4) c clean_inv_no_new by (auto simp: life_inv_def)
  then show "inv (s, Stored cached, True, rr_Cluster r1)" using assms(2) by (simp add: life_inv_def)
  assume s: "s = Stored cached" and dt: "meta_DeletionTimestamp cached \<noteq> None" and e: "e = None"
  define ray where "ray = cached\<lparr>meta_Finalizers := filter (\<lambda>h. h \<noteq> ?f) (meta_Finalizers cached)\<rparr>"
  have rm: "snd (fw_removeFinalizer fw cached ?f) = ray"
    using removes [OF assms(1)] by (simp add: finalizer_lawful_def ray_def)
  have "leftover ray = leftover cached" by (rule leftover_cong) (simp_all add: ray_def)
  moreover have "\<forall>x \<in> set (view (rr_Cluster r1)). \<not> leftover cached x"
    using c e clean s assms(3) leftover_module [of cached]
    by (cases "ApplicationsNamespace (Spec cached) = []") (auto simp: clean_inv_def)
  ultimately have gone: "\<forall>x \<in> set (view (rr_Cluster r1)). \<not> leftover ray x" by simp
  have ray: "Spec ray = Spec cached" "meta_UID ray = meta_UID cached" "?f \<notin> set (meta_Finalizers ray)"
    "meta_DeletionTimestamp ray = meta_DeletionTimestamp cached" by (simp_all add: ray_def)
  have "clean_inv ?f (settle ray) (view (rr_Cluster r1))"
    using clean gone s ray by (simp add: clean_inv_def settle_def)
  moreover have "cache_inv ?f (settle ray) (Stored cached)"
    using dt ray by (auto simp: cache_inv_def settle_def)
  ultimately show "inv (settle (snd (fw_removeFinalizer fw cached ?f)), Stored cached, p', rr_Cluster r1)"
    unfolding rm by (simp add: life_inv_def)
qed

lemma cache_keeps: "inv (s, c, p, w) \<Longrightarrow> inv (s, s, p, w)"
  by (cases s) (simp_all add: life_inv_def cache_inv_def)

lemma deletion_keeps:
  assumes "inv (Stored old, c, p, w)" and "meta_DeletionTimestamp old = None"
  shows "new = old\<lparr>meta_DeletionTimestamp := Some t, meta_Generation := g\<rparr> \<Longrightarrow> inv (Stored new, c, p, w)"
    and "meta_Finalizers old = [] \<Longrightarrow> inv (Gone old, c, p, w)"
proof -
  have c: "clean_inv (rec_FinalizerName rec) (Stored old) (view w)" "cache_inv (rec_FinalizerName rec) (Stored old) c"
    using assms(1) by (simp_all add: life_inv_def)
  show "inv (Stored new, c, p, w)" if "new = old\<lparr>meta_DeletionTimestamp := Some t, meta_Generation := g\<rparr>"
  proof -
    have new: "meta_UID new = meta_UID old" "meta_Finalizers new = meta_Finalizers old" "Spec new = Spec old"
      "meta_DeletionTimestamp new = Some t" using that by simp_all
    have "leftover new = leftover old" by (rule leftover_cong) (use new in simp_all)
    then have "clean_inv (rec_FinalizerName rec) (Stored new) (view w)" using c(1) new by (simp add: clean_inv_def)
    moreover have "cache_inv (rec_FinalizerName rec) (Stored new) c"
      using c(2) new assms(2) by (cases c) (auto simp: cache_inv_def)
    ultimately show ?thesis by (simp add: life_inv_def)
  qed
  show "inv (Gone old, c, p, w)" if "meta_Finalizers old = []"
    using c that by (cases c) (auto simp: life_inv_def clean_inv_def cache_inv_def)
qed

lemma finalizers_keeps:
  assumes "inv (Stored old, c, p, w)" and "meta_DeletionTimestamp old = None"
    and "rec_FinalizerName rec \<in> set (meta_Finalizers old) \<longrightarrow> rec_FinalizerName rec \<in> set fs"
  shows "inv (Stored (old\<lparr>meta_Finalizers := fs\<rparr>), c, p, w)"
proof -
  have "leftover (old\<lparr>meta_Finalizers := fs\<rparr>) = leftover old" by (rule leftover_cong) simp_all
  with assms show ?thesis by (cases c) (auto simp: life_inv_def clean_inv_def cache_inv_def)
qed

lemma status_keeps: "inv (Stored old, c, p, w) \<Longrightarrow> inv (Stored (old\<lparr>Status := st\<rparr>), c, p, w)"
  using clean_inv_status [of _ st "Stored old"] cache_inv_status [of _ st "Stored old"]
  by (simp add: life_inv_def with_status_def)

lemma other_finalizer_keeps:
  assumes "inv (Stored old, c, p, w)" and "meta_DeletionTimestamp old \<noteq> None" and "f \<noteq> rec_FinalizerName rec"
  shows "inv (settle (old\<lparr>meta_Finalizers := filter (\<lambda>h. h \<noteq> f) (meta_Finalizers old)\<rparr>), c, p, w)"
proof -
  define new where "new = old\<lparr>meta_Finalizers := filter (\<lambda>h. h \<noteq> f) (meta_Finalizers old)\<rparr>"
  have c: "clean_inv (rec_FinalizerName rec) (Stored old) (view w)" "cache_inv (rec_FinalizerName rec) (Stored old) c"
    using assms(1) by (simp_all add: life_inv_def)
  have new: "Spec new = Spec old" "meta_UID new = meta_UID old" "meta_Generation new = meta_Generation old"
    "meta_DeletionTimestamp new = meta_DeletionTimestamp old" "Status new = Status old"
    "rec_FinalizerName rec \<in> set (meta_Finalizers new) \<longleftrightarrow> rec_FinalizerName rec \<in> set (meta_Finalizers old)"
    using assms(3) by (simp_all add: new_def)
  have left: "leftover new = leftover old" by (rule leftover_cong) (use new in simp_all)
  have stored: "inv (Stored new, c, p, w)"
  proof -
    have "clean_inv (rec_FinalizerName rec) (Stored new) (view w)" using c(1) new left by (simp add: clean_inv_def)
    moreover have "cache_inv (rec_FinalizerName rec) (Stored new) c"
      using c(2) new by (cases c) (simp_all add: cache_inv_def)
    ultimately show ?thesis by (simp add: life_inv_def)
  qed
  have "inv (Gone new, c, p, w)" if "meta_Finalizers new = []"
    using stored that by (cases c) (auto simp: life_inv_def clean_inv_def cache_inv_def)
  with stored show ?thesis unfolding new_def [symmetric] by (simp add: settle_def)
qed

lemma cluster_keeps:
  assumes "inv (s, c, p, w)"
    and "\<forall>x \<in> set (view w'). module_object uid x \<longrightarrow> (\<exists>y \<in> set (view w). obj_key y = obj_key x \<and> module_object uid y)"
    and "distinct_keys (view w')" and "s = Stored ray \<or> s = Gone ray" and "uid = meta_UID ray"
  shows "inv (s, c, p, w')"
proof -
  have "\<exists>y \<in> set (view w). leftover ray y" if xin: "x \<in> set (view w')" and lx: "leftover ray x" for x
  proof -
    obtain y where y: "y \<in> set (view w)" "obj_key y = obj_key x" "module_object uid y"
      using assms(2,5) xin leftover_module [OF lx] by blast
    with lx assms(5) have "leftover ray y"
      by (auto simp: leftover_def module_object_def operand_target_def listed_def obj_key_def)
    with y(1) show ?thesis by blast
  qed
  moreover have "\<exists>y \<in> set (view w). module_object uid y" if "x \<in> set (view w')" "module_object uid x" for x
    using assms(2) that by blast
  ultimately show ?thesis
    using assms(1,3,4,5) by (elim disjE) (simp_all add: life_inv_def clean_inv_def, blast+)
qed

lemma step_keeps:
  assumes lawful and "inv s" and "step a s s'"
  shows "inv s'"
  using assms(3,2)
proof cases
  case (user_update new old sp c p w)
  then show ?thesis using update_keeps assms(2) by blast
next
  case (delete_request old new t g c p w)
  then show ?thesis using deletion_keeps(1) assms(2) by blast
next
  case (delete_at_once old c p w)
  then show ?thesis using deletion_keeps(2) assms(2) by blast
next
  case (other_status old c p w st)
  then show ?thesis using status_keeps assms(2) by blast
next
  case (finalizers_set old fs c p w)
  then show ?thesis using finalizers_keeps assms(2) by blast
next
  case (other_finalizer old f c p w)
  then show ?thesis using other_finalizer_keeps assms(2) by blast
next
  case (cluster_changes w' uid w cr ray c p)
  then show ?thesis using cluster_keeps assms(2) by blast
next
  case (cache_follows cr c p w)
  then show ?thesis using cache_keeps assms(2) by blast
next
  case (event cr c p w)
  then show ?thesis using assms(2) by (simp add: life_inv_def)
next
  case (apply_not_begun cached w' w cr)
  then show ?thesis using assms(2) by (simp add: life_inv_def)
next
  case (apply_held cached cr s1 inst r w r1 s2 st p')
  then show ?thesis using held_keeps [OF assms(1)] assms(2) by blast
next
  case (apply_run cached cr s1 inst r w r1 n e r2 p' s2)
  then show ?thesis using run_keeps [OF assms(1)] assms(2) by blast
next
  case (delete_failed cached r w err r1 cr)
  then show ?thesis using cleanup_keeps(1) [OF assms(1)] assms(2) by blast
next
  case (delete_interrupted cached r w e r1 cr)
  then show ?thesis using cleanup_keeps(1) [OF assms(1)] assms(2) by blast
next
  case (delete_done ray r w r1 p')
  then show ?thesis using cleanup_keeps(2) [OF assms(1)] assms(2) by blast
next
  case (nothing_to_do c ray cr w p')
  then show ?thesis using assms(2) by (simp add: life_inv_def)
qed

lemma run_keeps_inv:
  assumes lawful and "life_run fw add view rec as s s'" and "inv s"
  shows "inv s'"
  using assms(2,3) by (induction rule: life_run.induct) (auto intro: step_keeps [OF assms(1)])

end

end
