(* ===== verification/Ray_Life.thy ===== *)
theory Ray_Life
  imports Life_Cycle
begin

text \<open>
  The state machine of \<open>Life_Cycle\<close> with the functions that \<^verbatim>\<open>SetupWithManager\<close> registers: they
  meet the contract \<open>module_reconciler\<close> when the client and the framework behave as documented, and so
  nothing is orphaned, no deletion goes unnoticed among the watch's updates, and none sticks. A concrete life is run for the witnesses.
\<close>

section \<open>The module's reconciler\<close>

text \<open>
  What is relied on: the documented behaviour of the client's calls and of the framework's actions,
  that a write of the custom resource is not one of another object, and that the finalizer is added and
  taken off by name. Nothing is assumed of the framework's default predicate \<open>dp\<close>.
\<close>

definition life_lawful ::
  "'w framework \<Rightarrow> 'w client \<Rightarrow> (ray \<Rightarrow> ray) \<Rightarrow> ('w \<Rightarrow> kobj list) \<Rightarrow> bool" where
  "life_lawful fw cli add view =
     (client_lawful cli view \<and> runs_in_order fw \<and> actions_lawful fw \<and> conditions_lawful fw \<and> gc_lawful fw view
      \<and> finalizer_lawful fw \<and> adds_finalizer add FinalizerName
      \<and> (\<forall>ray w. view (snd (cli_updateRay cli ray w)) = view w))"

lemma life_lawfulD:
  assumes "life_lawful fw cli add view"
  shows "client_lawful cli view" "runs_in_order fw" "actions_lawful fw" "conditions_lawful fw" "gc_lawful fw view"
    "finalizer_lawful fw" "adds_finalizer add FinalizerName" "view (snd (cli_updateRay cli ray w)) = view w"
  using assms by (simp_all add: life_lawful_def)

lemma setup_fields:
  "rec_FinalizerName (SetupWithManager fw cli dp pv env letter base) = FinalizerName"
  "rec_PreApplyFn (SetupWithManager fw cli dp pv env letter base) = waitForNamespace fw cli"
  "rec_Actions (SetupWithManager fw cli dp pv env letter base)
     = before_deploy fw cli env letter base @ from_deploy fw cli base"
  "rec_Finalizer (SetupWithManager fw cli dp pv env letter base) = deletionCleanupAction fw cli namespaceFn"
  "rec_UpdateEvent (SetupWithManager fw cli dp pv env letter base) old new
     = (dp old new \<or> deletionTimestampSetPredicate old new)"
  by (simp_all add: SetupWithManager_def)

text \<open>The clean-up brings nothing into the cluster, on any path.\<close>

lemma no_new_refl [simp]: "no_new v v"
  by (simp add: no_new_def)

lemma no_new_trans: "no_new u v \<Longrightarrow> no_new v w \<Longrightarrow> no_new u w"
  unfolding no_new_def by (blast intro: subset_trans)

lemma no_new_subset: "set v' \<subseteq> set v \<Longrightarrow> no_new v v'"
  by (auto simp: no_new_def others_def)

lemma write_no_new:
  assumes "obj_key x = role_key"
  shows "update_lawful cli view \<Longrightarrow> cli_update cli x w = (err, w') \<Longrightarrow> no_new (view w) (view w')"
    and "delete_lawful cli view \<Longrightarrow> cli_delete cli x w = (err, w') \<Longrightarrow> no_new (view w) (view w')"
proof -
  assume u: "update_lawful cli view" "cli_update cli x w = (err, w')"
  then have "set (view w') = (if err = None \<and> obj_key x \<in> obj_key ` set (view w)
      then insert x {y \<in> set (view w). obj_key y \<noteq> obj_key x} else set (view w))"
    unfolding update_lawful_def by blast
  then have "obj_key ` set (view w') \<subseteq> obj_key ` set (view w)" by (auto split: if_splits)
  then show "no_new (view w) (view w')" using others_update [OF u assms] by (simp add: no_new_def)
next
  assume "delete_lawful cli view" "cli_delete cli x w = (err, w')"
  then have "set (view w') = (if err = None \<or> err = Some NotFound
      then {y \<in> set (view w). obj_key y \<noteq> obj_key x} else set (view w))"
    unfolding delete_lawful_def by blast
  then show "no_new (view w) (view w')" by (intro no_new_subset) (auto split: if_splits)
qed

lemma deleteNotebook_no_new:
  assumes "get_lawful cli view" and "update_lawful cli view" and "delete_lawful cli view"
    and "deleteNotebookClusterRole cli r = (e, r')"
  shows "no_new (view (rr_Cluster r)) (view (rr_Cluster r'))"
  using assms(4)
proof (cases rule: deleteNotebook_cases)
  case (absent w)
  then show ?thesis using get_role(1) [OF assms(1) absent(1)] by simp
next
  case (unread err w)
  then show ?thesis using get_role(1) [OF assms(1) unread(1)] by simp
next
  case (pinned cr err w w1)
  have "obj_key (cr\<lparr>obj_OwnerRefs := []\<rparr>) = role_key"
    using get_role(2) [OF assms(1) pinned(1)] by (simp add: obj_key_def)
  from write_no_new(1) [OF this assms(2) pinned(2)] get_role(1) [OF assms(1) pinned(1)] pinned(4) show ?thesis by simp
next
  case (deleted cr w w1 err w2)
  have k: "obj_key (cr\<lparr>obj_OwnerRefs := []\<rparr>) = role_key"
    using get_role(2) [OF assms(1) deleted(1)] by (simp add: obj_key_def)
  have "no_new (view w) (view w1)" using deleted(2) write_no_new(1) [OF k assms(2)] by auto
  from no_new_trans [OF this write_no_new(2) [OF k assms(3) deleted(3)]] get_role(1) [OF assms(1) deleted(1)] deleted(5)
  show ?thesis by simp
qed

lemma cleanup_no_new:
  assumes "client_lawful cli view" and "gc_lawful fw view" and "distinct_keys (view (rr_Cluster r))"
    and "apps_ns r \<noteq> []" and "deletionCleanupAction fw cli namespaceFn r = (e, r')"
  shows "no_new (view (rr_Cluster r)) (view (rr_Cluster r'))"
proof -
  note cl = client_lawfulD [OF assms(1)]
  have collected: "no_new (view (rr_Cluster r1)) (view (rr_Cluster r2))"
    if "fw_gc fw namespaceFn collect_all_options (r1\<lparr>rr_Generated := True\<rparr>) = (e1, r2)" for r1 r2 e1
    using gc_lawfulD(2) [OF assms(2), of namespaceFn collect_all_options "r1\<lparr>rr_Generated := True\<rparr>"] that
    by (intro no_new_subset) simp
  show ?thesis
    using assms(4,5)
  proof (cases rule: deletionCleanup_stages)
    case (role e1)
    then show ?thesis using deleteNotebook_no_new [OF cl(1-3)] by blast
  next
    case (gc r1 e1)
    then show ?thesis using deleteNotebook_no_new [OF cl(1-3)] collected no_new_trans by blast
  next
    case (owned r1 r2)
    have k: "distinct_keys (view (rr_Cluster (r1\<lparr>rr_Generated := True\<rparr>)))"
      using deleteNotebook_keys [OF cl(1-3) owned(1) assms(3)] by simp
    have "distinct_keys (view (rr_Cluster r2))"
      using gc_keys [OF assms(2) k, of namespaceFn collect_all_options] owned(2) by simp
    from deleteOwnedOperands_effect [OF cl(4,3) this owned(3)]
    have "no_new (view (rr_Cluster r2)) (view (rr_Cluster r'))" by (intro no_new_subset) (simp add: spares_def)
    with deleteNotebook_no_new [OF cl(1-3) owned(1)] collected [OF owned(2)] show ?thesis by (blast intro: no_new_trans)
  qed
qed

lemma cleanup_law:
  assumes "life_lawful fw cli add view" and "distinct_keys (view (rr_Cluster r))"
    and "deletionCleanupAction fw cli namespaceFn r = (e, r1)"
  shows "distinct_keys (view (rr_Cluster r1)) \<and> no_new (view (rr_Cluster r)) (view (rr_Cluster r1))
    \<and> (apps_ns r \<noteq> [] \<and> e = None \<longrightarrow> (\<forall>x \<in> set (view (rr_Cluster r1)). \<not> leftover (rr_Instance r) x))"
proof (cases "apps_ns r = []")
  case True
  then show ?thesis using assms(2,3) by (simp add: deletionCleanupAction_def namespaceFn_def)
next
  case False
  note l = life_lawfulD [OF assms(1)]
  from deletionCleanup_effect [OF client_lawfulD [OF l(1)] l(5) assms(2) False assms(3)]
    cleanup_no_new [OF l(1,5) assms(2) False assms(3)]
  show ?thesis by (simp add: leftover_def)
qed

interpretation ray: module_reconciler
  "life_lawful fw cli add view" fw add view "SetupWithManager fw cli dp pv env letter base"
  for fw cli add view dp pv env letter base
proof (unfold_locales, goal_cases)
  case 1
  then show ?case by (simp add: life_lawfulD setup_fields)
next
  case 2
  then show ?case by (simp add: life_lawfulD)
next
  case (3 r held r1)
  note w = wait_result [OF life_lawfulD(6) [OF 3(1)] 3(2) [unfolded setup_fields]]
  have "view (rr_Cluster r1) = view (rr_Cluster r)"
    using w(3) life_lawfulD(8) [OF 3(1)] by (elim disjE) simp_all
  with w(1,2,4) show ?case by (intro conjI impI) simp_all
next
  case (4 n r e r1)
  have "seq_actions (take n (before_deploy fw cli env letter base @ from_deploy fw cli base)) r = (e, r1)"
    using 4(2) life_lawfulD(2) [OF 4(1)] by (simp only: setup_fields runs_in_order_def)
  with actions_frame [OF life_lawfulD(3,4) [OF 4(1)] set_take_subset] show ?case by (metis snd_conv)
next
  case (5 r e r1)
  then show ?case using cleanup_law by (simp only: setup_fields)
qed

text \<open>A resource that has just been created, in a cluster without anything of the module.\<close>

definition fresh_life :: "('w \<Rightarrow> kobj list) \<Rightarrow> ray \<Rightarrow> 'w \<Rightarrow> bool" where
  "fresh_life view ray w =
     (meta_DeletionTimestamp ray = None \<and> distinct_keys (view w)
      \<and> (\<forall>x \<in> set (view w). \<not> module_object (meta_UID ray) x))"

text \<open>The cache has it, or does not have it yet: a read finds nothing, also of a predecessor that has gone.\<close>

definition cache_at_birth :: "ray \<Rightarrow> custom_resource \<Rightarrow> bool" where
  "cache_at_birth ray c = (case c of Stored cached \<Rightarrow> cached = ray | Gone _ \<Rightarrow> True)"

lemma fresh_inv: "fresh_life view ray w \<Longrightarrow> cache_at_birth ray c \<Longrightarrow> life_inv view f (Stored ray, c, p, w)"
  using leftover_module [of ray] by (cases c) (auto simp: fresh_life_def cache_at_birth_def life_invs)

lemma reachable_life:
  assumes "life_lawful fw cli add view" and "fresh_life view ray0 w0" and "cache_at_birth ray0 c0"
    and "life_run fw add view (SetupWithManager fw cli dp pv env letter base) acts (Stored ray0, c0, p0, w0) s"
  shows "life_inv view FinalizerName s"
  using ray.run_keeps_inv [OF assms(1,4)] fresh_inv [OF assms(2,3)] by (simp only: setup_fields)

section \<open>The way out\<close>

text \<open>
  A deleted resource that waits for the module's finalizer only, known to the cache, with its request in
  the queue: whatever the watch, the worker and interruptions do next, it has gone, or it waits on with one
  error less to come for every pass that came to its end.
\<close>

lemma cleanup_pays:
  assumes "errors_bounded fw cli b" and "deletionCleanupAction fw cli namespaceFn r = (e, r1)"
  shows "pays b (e \<noteq> None) (rr_Cluster r) (rr_Cluster r1)"
proof (cases "apps_ns r = []")
  case True
  then show ?thesis using assms(2) by (auto simp: deletionCleanupAction_def namespaceFn_def)
next
  case False
  then show ?thesis using deletionCleanup_pays [OF assms(1) _ assms(2)] by blast
qed

lemma finalizer_off:
  assumes "life_lawful fw cli add view" and "meta_DeletionTimestamp ray \<noteq> None"
    and "set (meta_Finalizers ray) = {FinalizerName}"
  shows "\<exists>ray'. settle (snd (fw_removeFinalizer fw ray FinalizerName)) = Gone ray'"
proof -
  have "filter (\<lambda>h. h \<noteq> FinalizerName) (meta_Finalizers ray) = []" using assms(3) by (simp add: filter_empty_conv)
  then show ?thesis
    using life_lawfulD(6) [OF assms(1)] assms(2) by (simp add: finalizer_lawful_def settle_def)
qed

lemma leaving_step:
  assumes "life_lawful fw cli add view" and "errors_bounded fw cli b"
    and "meta_DeletionTimestamp ray \<noteq> None" and "set (meta_Finalizers ray) = {FinalizerName}"
    and "distinct_keys (view w)" and "a \<in> {Watch, Worker, Interruption}"
    and "life_step fw add view (SetupWithManager fw cli dp pv env letter base) a
       (Stored ray, Stored ray, True, w) (s', c', p', w')"
  shows "(\<exists>ray'. s' = Gone ray')
    \<or> ((s', c', p') = (Stored ray, Stored ray, True) \<and> distinct_keys (view w') \<and> b w' + count_list [a] Worker \<le> b w)"
  using assms(7)
proof cases
  case (delete_failed r err r1)
  then show ?thesis
    using cleanup_pays [OF assms(2), of r] cleanup_law [OF assms(1), of r] assms(5) by (auto simp: setup_fields pays_def)
next
  case (delete_interrupted r e r1)
  then show ?thesis
    using cleanup_pays [OF assms(2), of r] cleanup_law [OF assms(1), of r] assms(5) by (auto simp: setup_fields pays_def)
next
  case (delete_done r r1)
  then show ?thesis using finalizer_off [OF assms(1,3,4)] by (simp add: setup_fields)
next
  case (nothing_to_do ray')
  then show ?thesis using assms(4) by (simp add: setup_fields)
qed (use assms(3,5,6) in simp_all)

lemma gone_run: "life_run fw add view rec acts (Gone ray, c, p, w) (s', c', p', w') \<Longrightarrow> s' = Gone ray"
proof (induction acts arbitrary: c p w)
  case Nil
  then show ?case by cases
next
  case (Cons a acts)
  from Cons.prems show ?case
  proof cases
    case (step st1)
    obtain s1 c1 p1 w1 where st1: "st1 = (s1, c1, p1, w1)" by (cases st1)
    have "s1 = Gone ray" by (rule gone_stays) (use step(1) st1 in simp)
    with Cons.IH [of c1 p1 w1] step(2) st1 show ?thesis by simp
  qed
qed

lemma leaving_run:
  assumes "life_lawful fw cli add view" and "errors_bounded fw cli b"
    and "meta_DeletionTimestamp ray \<noteq> None" and "set (meta_Finalizers ray) = {FinalizerName}"
    and "distinct_keys (view w)" and "set acts \<subseteq> {Watch, Worker, Interruption}"
    and "life_run fw add view (SetupWithManager fw cli dp pv env letter base) acts
       (Stored ray, Stored ray, True, w) (s', c', p', w')"
  shows "(\<exists>ray'. s' = Gone ray') \<or> b w' + count_list acts Worker \<le> b w"
  using assms(5-7)
proof (induction acts arbitrary: w)
  case Nil
  from Nil.prems(3) show ?case by cases simp
next
  case (Cons a acts)
  from Cons.prems(3) show ?case
  proof cases
    case (step st1)
    obtain s1 c1 p1 w1 where st1: "st1 = (s1, c1, p1, w1)" by (cases st1)
    have "a \<in> {Watch, Worker, Interruption}" and acts: "set acts \<subseteq> {Watch, Worker, Interruption}"
      using Cons.prems(2) by simp_all
    from leaving_step [where view = view and s' = s1 and c' = c1 and p' = p1 and w' = w1, OF assms(1-4) Cons.prems(1) this(1)]
      step(1) st1
    consider (gone) ray' where "s1 = Gone ray'"
      | (waits) "(s1, c1, p1) = (Stored ray, Stored ray, True)" "distinct_keys (view w1)"
          "b w1 + count_list [a] Worker \<le> b w" by blast
    then show ?thesis
    proof cases
      case gone
      have "s' = Gone ray'" by (rule gone_run) (use step(2) st1 gone in simp)
      then show ?thesis by blast
    next
      case waits
      with Cons.IH [OF waits(2) acts] step(2) st1 show ?thesis by auto
    qed
  qed
qed

text \<open>And the worker's passes are always possible: one for every error to come and one more.\<close>

definition request :: "ray \<Rightarrow> 'w \<Rightarrow> 'w rr" where
  "request ray w = \<lparr>rr_Instance = ray, rr_Extensions = None, rr_Manifests = [], rr_Resources = [],
     rr_Generated = False, rr_Files = [], rr_SCC = None, rr_Cluster = w\<rparr>"

lemma delete_passes:
  assumes "life_lawful fw cli add view" and "errors_bounded fw cli b"
    and "meta_DeletionTimestamp ray \<noteq> None" and "set (meta_Finalizers ray) = {FinalizerName}"
    and "distinct_keys (view w)"
  shows "\<exists>n ray' w'. n \<le> Suc (b w)
     \<and> life_run fw add view (SetupWithManager fw cli dp pv env letter base) (replicate n Worker)
         (Stored ray, Stored ray, True, w) (Gone ray', Stored ray, False, w')"
  using assms(5)
proof (induction "b w" arbitrary: w rule: less_induct)
  case less
  let ?rec = "SetupWithManager fw cli dp pv env letter base" and ?r = "request ray w"
  have r: "rr_Instance ?r = ray" "rr_Cluster ?r = w" by (simp_all add: request_def)
  have f: "FinalizerName \<in> set (meta_Finalizers ray)" using assms(4) by simp
  obtain e r1 where run: "deletionCleanupAction fw cli namespaceFn ?r = (e, r1)"
    by (cases "deletionCleanupAction fw cli namespaceFn ?r")
  note failed = life_step.delete_failed [where rec = ?rec and s = "Stored ray", unfolded setup_fields, OF assms(3) f r]
    and last = life_step.delete_done [where rec = ?rec and p' = False, unfolded setup_fields, OF assms(3) f r]
  show ?case
  proof (cases e)
    case None
    obtain ray' where "settle (snd (fw_removeFinalizer fw ray FinalizerName)) = Gone ray'"
      using finalizer_off [OF assms(1,3,4)] by blast
    with last [where fw = fw and add = add and view = view and ?r1.0 = r1] run None
    have "life_run fw add view ?rec (replicate 1 Worker) (Stored ray, Stored ray, True, w)
        (Gone ray', Stored ray, False, rr_Cluster r1)"
      by (auto intro: life_run.intros)
    then show ?thesis by (metis Suc_le_mono One_nat_def le0)
  next
    case (Some err)
    have "b (rr_Cluster r1) < b w" using cleanup_pays [OF assms(2) run] Some r by (simp add: pays_def)
    moreover have "distinct_keys (view (rr_Cluster r1))"
      using cleanup_law [OF assms(1) _ run] less.prems r by simp
    ultimately obtain n ray' w' where "n \<le> Suc (b (rr_Cluster r1))"
      and "life_run fw add view ?rec (replicate n Worker) (Stored ray, Stored ray, True, rr_Cluster r1)
        (Gone ray', Stored ray, False, w')" using less.hyps by blast
    with failed [where fw = fw and add = add and view = view] run Some
    have "life_run fw add view ?rec (replicate (Suc n) Worker) (Stored ray, Stored ray, True, w) (Gone ray', Stored ray, False, w')"
      and "Suc n \<le> Suc (b w)"
      using \<open>b (rr_Cluster r1) < b w\<close> by (auto intro: life_run.intros)
    then show ?thesis by blast
  qed
qed

text \<open>A list that begins without a property and ends with it has a place where it comes about.\<close>

lemma comes_about:
  assumes "vs \<noteq> []" and "\<not> P (hd vs)" and "P (last vs)"
  shows "\<exists>i. Suc i < length vs \<and> \<not> P (vs ! i) \<and> P (vs ! Suc i)"
  using assms
proof (induction vs rule: list_nonempty_induct)
  case (cons v vs)
  show ?case
  proof (cases "P (hd vs)")
    case True
    with cons show ?thesis by (intro exI [of _ 0]) (simp add: hd_conv_nth)
  next
    case False
    then obtain i where "Suc i < length vs \<and> \<not> P (vs ! i) \<and> P (vs ! Suc i)" using cons by auto
    then show ?thesis by (intro exI [of _ "Suc i"]) simp
  qed
qed simp

lemma comes_about_once:
  assumes "\<And>i. Suc i < length vs \<Longrightarrow> P (vs ! i) \<Longrightarrow> P (vs ! Suc i)"
  shows "card {i. Suc i < length vs \<and> \<not> P (vs ! i) \<and> P (vs ! Suc i)} \<le> 1"
proof -
  have stays: "P (vs ! j)" if "i \<le> j" "j < length vs" "P (vs ! i)" for i j
    using that by (induction rule: dec_induct) (simp_all add: assms)
  have "i = j" if "Suc i < length vs" "Suc j < length vs" "\<not> P (vs ! i)" "\<not> P (vs ! j)" "P (vs ! Suc i)" "P (vs ! Suc j)"
    for i j
    using stays [of "Suc i" j] stays [of "Suc j" i] that by (metis Suc_leI Suc_lessD linorder_neqE_nat)
  moreover have "finite {i. Suc i < length vs \<and> \<not> P (vs ! i) \<and> P (vs ! Suc i)}"
    by (rule finite_subset [of _ "{..< length vs}"]) auto
  ultimately show ?thesis by (simp add: card_le_Suc0_iff_eq)
qed

section \<open>A life\<close>

definition sample_add :: "ray \<Rightarrow> ray" where
  "sample_add ray =
     (if FinalizerName \<in> set (meta_Finalizers ray) then ray
      else ray\<lparr>meta_Finalizers := meta_Finalizers ray @ [FinalizerName]\<rparr>)"

definition sample_predicate :: "ray option \<Rightarrow> ray option \<Rightarrow> bool" where
  "sample_predicate old new = (map_option meta_Generation old \<noteq> map_option meta_Generation new)"

abbreviation sample_setup :: "cluster reconciler" where
  "sample_setup \<equiv> SetupWithManager sample_pipeline mem_client sample_predicate [] sample_env (\<lambda>s. 0) ''/opt/manifests''"

abbreviation sample_life_step :: "actor \<Rightarrow> cluster life \<Rightarrow> cluster life \<Rightarrow> bool" where
  "sample_life_step \<equiv> life_step sample_pipeline sample_add cl_Objs sample_setup"

abbreviation sample_life_run :: "actor list \<Rightarrow> cluster life \<Rightarrow> cluster life \<Rightarrow> bool" where
  "sample_life_run \<equiv> life_run sample_pipeline sample_add cl_Objs sample_setup"

lemma sample_add_lawful: "adds_finalizer sample_add FinalizerName"
  by (auto simp: adds_finalizer_def sample_add_def)

lemma sample_life_lawful: "life_lawful sample_pipeline mem_client sample_add cl_Objs"
  by (simp add: life_lawful_def client_lawful_def sample_pipeline_lawful sample_add_lawful)
    (simp add: mem_client_def)

text \<open>
  The resource is created while the cache does not have it yet, the request that its creation made is consumed in
  vain, the cache follows and another event comes; a pass brings the role, the resource is deleted, the watch
  tells so, and the clean-up runs.
\<close>

definition sample_birth :: cluster where
  "sample_birth = \<lparr>cl_Ray = Some sample_ray, cl_Objs = []\<rparr>"

definition sample_first :: "cluster rr" where
  "sample_first = (sample_rr sample_tree sample_birth)\<lparr>rr_Instance := sample_add sample_ray\<rparr>"

definition sample_lived :: "cluster rr" where
  "sample_lived = snd (sample_reconcile sample_first)"

definition sample_kept :: ray where
  "sample_kept = (sample_add sample_ray)\<lparr>Status := Status (rr_Instance sample_lived)\<rparr>"

definition sample_dying :: ray where
  "sample_dying = sample_kept\<lparr>meta_DeletionTimestamp := Some 7, meta_Generation := 4\<rparr>"

definition sample_dead :: "cluster rr" where
  "sample_dead = snd (deletionCleanupAction sample_pipeline mem_client namespaceFn (request sample_dying (rr_Cluster sample_lived)))"

lemma sample_life_runs:
  "fst (sample_reconcile sample_first) = None"
  "map obj_Name (cl_Objs (rr_Cluster sample_lived)) = [''ray'']"
  "fst (deletionCleanupAction sample_pipeline mem_client namespaceFn (request sample_dying (rr_Cluster sample_lived))) = None"
  "meta_Finalizers sample_kept = [FinalizerName]"
  "meta_DeletionTimestamp sample_kept = None"
  "apps_ns sample_first = ''odh''"
  by code_simp+

lemma sample_fresh: "fresh_life cl_Objs sample_ray sample_birth"
  by (simp add: fresh_life_def sample_ray_def sample_birth_def distinct_keys_def)

lemma sample_first_pass:
  "sample_life_step Worker (Stored sample_ray, Stored sample_ray, True, sample_birth)
     (Stored sample_kept, Stored sample_ray, False, rr_Cluster sample_lived)"
proof (rule life_step.apply_run [where r = sample_first and n = "length (rec_Actions sample_setup)"])
  show "meta_DeletionTimestamp sample_ray = None" by (simp add: sample_ray_def)
  show "pass_begins sample_add (rec_FinalizerName sample_setup) (Stored sample_ray) sample_ray
      (Stored (sample_add sample_ray)) (sample_add sample_ray)"
    by (simp add: pass_begins_def setup_fields sample_ray_def)
  show "rr_Instance sample_first = sample_add sample_ray" "cl_Objs (rr_Cluster sample_first) = cl_Objs sample_birth"
    by (simp_all add: sample_first_def sample_rr_def)
  show "rec_PreApplyFn sample_setup sample_first = (False, sample_first)"
    using sample_life_runs(6) by (simp add: setup_fields waitForNamespace_def)
  show "fw_runActions sample_pipeline (take (length (rec_Actions sample_setup)) (rec_Actions sample_setup)) sample_first
      = (None, sample_lived)"
    using sample_life_runs(1) by (simp add: ray_reconcile_def setup_fields sample_lived_def prod_eq_iff)
  obtain x where "cl_Objs (rr_Cluster sample_lived) = [x]" using sample_life_runs(2) by (auto simp: map_eq_Cons_conv)
  then show "distinct_keys (cl_Objs (rr_Cluster sample_lived))" by (simp add: distinct_keys_def)
qed (simp add: with_status_def sample_kept_def)

lemma sample_last_pass:
  "\<exists>ray. sample_life_step Worker (Stored sample_dying, Stored sample_dying, True, rr_Cluster sample_lived)
     (Gone ray, Stored sample_dying, False, rr_Cluster sample_dead)"
proof -
  let ?r = "request sample_dying (rr_Cluster sample_lived)"
  have "settle (snd (fw_removeFinalizer sample_pipeline sample_dying FinalizerName)) = Gone (sample_dying\<lparr>meta_Finalizers := []\<rparr>)"
    using sample_pipeline_lawful(4) sample_life_runs(4)
    by (simp add: finalizer_lawful_def settle_def sample_dying_def)
  moreover have "deletionCleanupAction sample_pipeline mem_client namespaceFn ?r = (None, sample_dead)"
    using sample_life_runs(3) by (simp add: sample_dead_def prod_eq_iff)
  moreover have "FinalizerName \<in> set (meta_Finalizers sample_dying)" "meta_DeletionTimestamp sample_dying \<noteq> None"
    using sample_life_runs(4) by (simp_all add: sample_dying_def)
  ultimately show ?thesis
    using life_step.delete_done [where rec = sample_setup and r = ?r and ray = sample_dying
        and w = "rr_Cluster sample_lived" and ?r1.0 = sample_dead and fw = sample_pipeline and p' = False]
    by (auto simp: setup_fields request_def)
qed

lemma sample_life:
  "\<exists>ray. sample_life_run [Worker, Watch, Watch, Worker, User, Watch, Watch, Worker]
     (Stored sample_ray, Gone sample_ray, True, sample_birth) (Gone ray, Stored sample_dying, False, rr_Cluster sample_dead)"
proof -
  have absent: "sample_life_step Worker (Stored sample_ray, Gone sample_ray, True, sample_birth)
      (Stored sample_ray, Gone sample_ray, False, sample_birth)" by (rule life_step.nothing_to_do) simp
  have deleted: "sample_life_step User (Stored sample_kept, Stored sample_ray, False, rr_Cluster sample_lived)
      (Stored sample_dying, Stored sample_ray, False, rr_Cluster sample_lived)"
    by (rule life_step.delete_request [where t = 7 and g = 4]) (simp_all add: sample_life_runs sample_dying_def)
  note follows = life_step.cache_follows [where fw = sample_pipeline and add = sample_add and view = cl_Objs and rec = sample_setup]
    and event = life_step.event [where fw = sample_pipeline and add = sample_add and view = cl_Objs and rec = sample_setup]
  obtain ray where gone: "sample_life_step Worker (Stored sample_dying, Stored sample_dying, True, rr_Cluster sample_lived)
      (Gone ray, Stored sample_dying, False, rr_Cluster sample_dead)" using sample_last_pass by blast
  show ?thesis
    by (intro exI, rule life_run.step [OF absent], rule life_run.step [OF follows], rule life_run.step [OF event],
      rule life_run.step [OF sample_first_pass], rule life_run.step [OF deleted], rule life_run.step [OF follows],
      rule life_run.step [OF event], rule life_run.step [OF gone], rule life_run.start)
qed

text \<open>A resource on its way out, behind a connection that loses its next three calls.\<close>

abbreviation flaky_setup :: "flaky reconciler" where
  "flaky_setup \<equiv> SetupWithManager sample_framework flaky_client sample_predicate [] sample_env (\<lambda>s. 0) ''/opt/manifests''"

abbreviation flaky_run :: "actor list \<Rightarrow> flaky life \<Rightarrow> flaky life \<Rightarrow> bool" where
  "flaky_run \<equiv> life_run sample_framework sample_add flaky_view flaky_setup"

lemma flaky_life_lawful: "life_lawful sample_framework flaky_client sample_add flaky_view"
proof -
  have "flaky_view (snd (cli_updateRay flaky_client ray w)) = flaky_view w" for ray w
    by (cases w) (simp add: flaky_client_def lose_def mem_client_def split: prod.splits)
  then show ?thesis by (simp add: life_lawful_def flaky_lawful sample_add_lawful)
qed

definition sample_leaving :: ray where
  "sample_leaving = sample_ray\<lparr>meta_Finalizers := [FinalizerName], meta_DeletionTimestamp := Some 7, meta_Generation := 4\<rparr>"

lemma sample_leaving_waits:
  "distinct_keys (flaky_view (sample_birth, 3))"
  "meta_DeletionTimestamp sample_leaving \<noteq> None"
  "set (meta_Finalizers sample_leaving) = {''platform.opendatahub.io/finalizer''}"
  by (simp_all add: sample_leaving_def sample_birth_def distinct_keys_def FinalizerName_def)

section \<open>Properties\<close>

text \<open>
  C1. No orphans: let a custom resource be created in a cluster without anything of the module. Whatever users
  do to its spec and other controllers to its status, their finalizers and the objects of the cluster, however
  far the operator's view of the resource lags behind or its queue ahead, and wherever passes fail or are cut short,
  the resource leaves neither the notebook role nor an operand of a listed kind (labelled or owned, in its
  namespace) behind when it has gone; while it is stored, such objects are there
  only under the protection of the module's finalizer, and none is there before the namespace is set. Excluded
  are others who take the module's finalizer off or create such objects themselves; operands are read as they are.
\<close>

theorem no_orphans:
  assumes "life_lawful fw cli add view" and "fresh_life view ray0 w0" and "cache_at_birth ray0 c0"
    and "life_run fw add view (SetupWithManager fw cli dp pv env letter base) acts (Stored ray0, c0, p0, w0) (s, c, p, w)"
  shows "(s = Gone ray \<or> s = Stored ray \<and> ''platform.opendatahub.io/finalizer'' \<notin> set (meta_Finalizers ray) \<longrightarrow>
       (\<forall>x \<in> set (view w). obj_key x \<noteq> role_key \<and> \<not> operand_target ray x))
     \<and> (s = Stored ray \<and> ApplicationsNamespace (Spec ray) = [] \<longrightarrow>
         (\<forall>x \<in> set (view w). obj_key x \<noteq> role_key
            \<and> \<not> (doomed (meta_UID ray) x \<and> obj_GVK x \<in> set (namespacedOwnedLists @ clusterOwnedLists))))"
proof -
  have "clean_inv FinalizerName s (view w)" using reachable_life [OF assms] by (simp add: life_inv_def)
  then show ?thesis by (auto simp: clean_inv_def leftover_def module_object_def FinalizerName_def)
qed

text \<open>
  C6. A deletion never sticks: once a deleted resource waits for the module's finalizer only, is known
  to the cache and has its request in the queue, then in every run of the watch, the worker and
  interruptions the resource has gone when more passes of the worker have come to their end than client calls are
  to fail; and such passes are possible, at most one more than there are failures to come.
\<close>

theorem deletion_never_sticks:
  assumes "life_lawful fw cli add view" and "errors_bounded fw cli b"
    and "rec = SetupWithManager fw cli dp pv env letter base"
    and "meta_DeletionTimestamp ray \<noteq> None"
    and "set (meta_Finalizers ray) = {''platform.opendatahub.io/finalizer''}" and "distinct_keys (view w)"
  shows "(\<forall>acts s c p w'. life_run fw add view rec acts (Stored ray, Stored ray, True, w) (s, c, p, w')
            \<longrightarrow> set acts \<subseteq> {Watch, Worker, Interruption} \<longrightarrow> b w < count_list acts Worker
            \<longrightarrow> (\<exists>ray'. s = Gone ray'))
     \<and> (\<exists>n ray' w'. n \<le> Suc (b w)
          \<and> life_run fw add view rec (replicate n Worker) (Stored ray, Stored ray, True, w) (Gone ray', Stored ray, False, w'))"
proof (intro conjI allI impI)
  have f: "set (meta_Finalizers ray) = {FinalizerName}" using assms(5) by (simp add: FinalizerName_def)
  show "\<exists>ray'. s = Gone ray'"
    if "life_run fw add view rec acts (Stored ray, Stored ray, True, w) (s, c, p, w')"
      and "set acts \<subseteq> {Watch, Worker, Interruption}" and "b w < count_list acts Worker" for acts s c p w'
    using leaving_run [OF assms(1,2,4) f assms(6) that(2) that(1) [unfolded assms(3)]] that(3) by auto
  show "\<exists>n ray' w'. n \<le> Suc (b w)
      \<and> life_run fw add view rec (replicate n Worker) (Stored ray, Stored ray, True, w) (Gone ray', Stored ray, False, w')"
    unfolding assms(3) by (rule delete_passes [OF assms(1,2,4) f assms(6)])
qed

text \<open>
  C7. A deletion is noticed among the updates the watch delivers: when the versions of the resource that it
  shows, however many it skips, begin before the deletion and end after it, then whatever the framework's default
  predicate rejects, one of the update events, the one that shows the deletion first, passes the
  registered predicate and puts a request into the queue; and the predicate lets at most one event more through than
  the default one, as a deletion is never taken back.
\<close>

theorem deletion_noticed:
  assumes "rec = SetupWithManager fw cli dp pv env letter base"
    and "vs \<noteq> []" and "meta_DeletionTimestamp (hd vs) = None" and "meta_DeletionTimestamp (last vs) \<noteq> None"
  shows "(\<exists>i. Suc i < length vs \<and> meta_DeletionTimestamp (vs ! i) = None \<and> meta_DeletionTimestamp (vs ! Suc i) \<noteq> None
            \<and> rec_UpdateEvent rec (Some (vs ! i)) (Some (vs ! Suc i)))
     \<and> ((\<forall>i. Suc i < length vs \<longrightarrow> meta_DeletionTimestamp (vs ! i) \<noteq> None \<longrightarrow> meta_DeletionTimestamp (vs ! Suc i) \<noteq> None)
        \<longrightarrow> card {i. Suc i < length vs \<and> rec_UpdateEvent rec (Some (vs ! i)) (Some (vs ! Suc i))
                      \<and> \<not> dp (Some (vs ! i)) (Some (vs ! Suc i))} \<le> 1)"
proof (intro conjI impI)
  let ?D = "\<lambda>v. meta_DeletionTimestamp v \<noteq> None"
  have passes: "rec_UpdateEvent rec (Some old) (Some new) \<longleftrightarrow> dp (Some old) (Some new) \<or> \<not> ?D old \<and> ?D new" for old new
    by (simp add: assms(1) setup_fields deletionTimestampSetPredicate_def)
  show "\<exists>i. Suc i < length vs \<and> meta_DeletionTimestamp (vs ! i) = None \<and> ?D (vs ! Suc i)
      \<and> rec_UpdateEvent rec (Some (vs ! i)) (Some (vs ! Suc i))"
    using comes_about [of vs ?D] assms(2-4) passes by auto
  let ?new = "{i. Suc i < length vs \<and> rec_UpdateEvent rec (Some (vs ! i)) (Some (vs ! Suc i))
      \<and> \<not> dp (Some (vs ! i)) (Some (vs ! Suc i))}" and ?first = "{i. Suc i < length vs \<and> \<not> ?D (vs ! i) \<and> ?D (vs ! Suc i)}"
  assume "\<forall>i. Suc i < length vs \<longrightarrow> ?D (vs ! i) \<longrightarrow> ?D (vs ! Suc i)"
  then have "card ?first \<le> 1" using comes_about_once [of vs ?D] by blast
  moreover have "card ?new \<le> card ?first"
    by (rule card_mono) (auto simp: passes intro: finite_subset [of _ "{..< length vs}"])
  ultimately show "card ?new \<le> 1" by simp
qed

section \<open>Witnesses\<close>

text \<open>The role is there in the middle of the life, and gone in the end.\<close>

theorem no_orphans_witness:
  "map obj_Name (cl_Objs (rr_Cluster sample_lived)) = [''ray'']
   \<and> (\<exists>acts ray c p w. sample_life_run acts (Stored sample_ray, Gone sample_ray, True, sample_birth) (Gone ray, c, p, w)
        \<and> list_all (\<lambda>x. obj_key x \<noteq> role_key \<and> \<not> operand_target ray x) (cl_Objs w))"
proof -
  obtain acts ray where gone: "sample_life_run acts (Stored sample_ray, Gone sample_ray, True, sample_birth)
      (Gone ray, Stored sample_dying, False, rr_Cluster sample_dead)" using sample_life by blast
  have "cache_at_birth sample_ray (Gone sample_ray)" by (simp add: cache_at_birth_def)
  from no_orphans [OF sample_life_lawful sample_fresh this gone, of ray]
  have "list_all (\<lambda>x. obj_key x \<noteq> role_key \<and> \<not> operand_target ray x) (cl_Objs (rr_Cluster sample_dead))"
    unfolding list_all_iff by (elim conjE) simp
  with sample_life_runs(2) gone show ?thesis by blast
qed

theorem deletion_never_sticks_witness:
  "\<exists>n ray w. n \<le> 4 \<and> flaky_run (replicate n Worker) (Stored sample_leaving, Stored sample_leaving, True, (sample_birth, 3))
     (Gone ray, Stored sample_leaving, False, w)"
  using deletion_never_sticks [OF flaky_life_lawful flaky_bounded refl sample_leaving_waits(2,3,1), THEN conjunct2] by simp

text \<open>
  The status is written, the deletion comes with the same generation, which the default predicate rejects, and
  a finalizer is taken off: the second event passes.
\<close>

abbreviation sample_versions :: "ray list" where
  "sample_versions \<equiv> [sample_ray, sample_kept, sample_kept\<lparr>meta_DeletionTimestamp := Some 7\<rparr>,
     sample_kept\<lparr>meta_DeletionTimestamp := Some 7, meta_Finalizers := []\<rparr>]"

theorem deletion_noticed_witness:
  "(\<exists>i. Suc i < length sample_versions \<and> meta_DeletionTimestamp (sample_versions ! i) = None
       \<and> meta_DeletionTimestamp (sample_versions ! Suc i) \<noteq> None
       \<and> rec_UpdateEvent sample_setup (Some (sample_versions ! i)) (Some (sample_versions ! Suc i)))
   \<and> \<not> sample_predicate (Some sample_kept) (Some (sample_kept\<lparr>meta_DeletionTimestamp := Some 7\<rparr>))"
  using deletion_noticed [OF refl, of sample_versions, THEN conjunct1]
  by (simp add: sample_predicate_def sample_ray_def)

end
