(* ===== verification/Call_Bounds.thy ===== *)
theory Call_Bounds
  imports Ray_Controller
begin

text \<open>
  How much the direct deletions ask of the API server. A client is instrumented with counters that no
  code of the module reads (\<open>counting\<close>), the instrumented run is shown to be the run of the client
  itself, and the counters are bounded: the operand deletion makes at most seven list calls, one for
  every listed kind, and at most one delete call for every object listed to it; the deletion of the
  notebook role makes at most one call of each of the three it uses.
\<close>

section \<open>Counters\<close>

record counters =
  n_get :: nat
  n_list :: nat
  n_listed :: nat
  n_update :: nat
  n_delete :: nat

definition no_calls :: counters where
  "no_calls = \<lparr>n_get = 0, n_list = 0, n_listed = 0, n_update = 0, n_delete = 0\<rparr>"

definition counted ::
  "('a \<Rightarrow> counters \<Rightarrow> counters) \<Rightarrow> ('w \<Rightarrow> 'a \<times> 'w) \<Rightarrow> 'w \<times> counters \<Rightarrow> 'a \<times> ('w \<times> counters)" where
  "counted f call w = (case call (fst w) of (res, w') \<Rightarrow> (res, (w', f res (snd w))))"

definition listed_items :: "kerror + kobj list \<Rightarrow> nat" where
  "listed_items res = (case res of Inl err \<Rightarrow> 0 | Inr items \<Rightarrow> length items)"

definition counting :: "'w client \<Rightarrow> ('w \<times> counters) client" where
  "counting cli =
     \<lparr>cli_getRay = (\<lambda>n. counted (\<lambda>res k. k\<lparr>n_get := Suc (n_get k)\<rparr>) (cli_getRay cli n)),
      cli_updateRay = (\<lambda>r. counted (\<lambda>res k. k\<lparr>n_update := Suc (n_update k)\<rparr>) (cli_updateRay cli r)),
      cli_get = (\<lambda>g n ns. counted (\<lambda>res k. k\<lparr>n_get := Suc (n_get k)\<rparr>) (cli_get cli g n ns)),
      cli_list = (\<lambda>g ns. counted (\<lambda>res k. k\<lparr>n_list := Suc (n_list k), n_listed := n_listed k + listed_items res\<rparr>)
        (cli_list cli g ns)),
      cli_extractList = cli_extractList cli,
      cli_update = (\<lambda>x. counted (\<lambda>res k. k\<lparr>n_update := Suc (n_update k)\<rparr>) (cli_update cli x)),
      cli_delete = (\<lambda>x. counted (\<lambda>res k. k\<lparr>n_delete := Suc (n_delete k)\<rparr>) (cli_delete cli x)),
      cli_createOrUpdate = (\<lambda>x f. counted (\<lambda>res k. k\<lparr>n_get := Suc (n_get k), n_update := Suc (n_update k)\<rparr>)
        (cli_createOrUpdate cli x f))\<rparr>"

text \<open>A request without its counters.\<close>

definition uncounted :: "('w \<times> counters) rr \<Rightarrow> 'w rr" where
  "uncounted r =
     \<lparr>rr_Instance = rr_Instance r, rr_Extensions = rr_Extensions r, rr_Manifests = rr_Manifests r,
      rr_Resources = rr_Resources r, rr_Generated = rr_Generated r, rr_Files = rr_Files r, rr_SCC = rr_SCC r,
      rr_Cluster = fst (rr_Cluster r)\<rparr>"

abbreviation calls_of :: "('w \<times> counters) rr \<Rightarrow> counters" where
  "calls_of r \<equiv> snd (rr_Cluster r)"

section \<open>Lemmas\<close>

lemma uncounted_fields [simp]:
  "rr_Instance (uncounted r) = rr_Instance r" "rr_Cluster (uncounted r) = fst (rr_Cluster r)"
  "uncounted (r\<lparr>rr_Cluster := w\<rparr>) = (uncounted r)\<lparr>rr_Cluster := fst w\<rparr>"
  by (simp_all add: uncounted_def)

text \<open>
  A run from \<open>w\<close> to \<open>w'\<close>: the counters it may have moved, with the number of list calls and the
  number of deletions that no listed item accounts for.
\<close>

definition spends :: "nat \<Rightarrow> nat \<Rightarrow> counters \<Rightarrow> counters \<Rightarrow> bool" where
  "spends nl extra k k' =
     (n_get k' = n_get k \<and> n_update k' = n_update k \<and> n_list k' \<le> n_list k + nl
      \<and> n_listed k \<le> n_listed k' \<and> n_delete k' + n_listed k \<le> n_delete k + n_listed k' + extra)"

lemma spends_refl [simp]: "spends nl extra k k"
  by (simp add: spends_def)

lemma spends_trans: "spends l1 x1 k k1 \<Longrightarrow> spends l2 x2 k1 k2 \<Longrightarrow> spends (l1 + l2) (x1 + x2) k k2"
  by (simp add: spends_def)

lemma delete_items_spends:
  "case delete_items (counting cli) uid items w of (e, w') \<Rightarrow>
     delete_items cli uid items (fst w) = (e, fst w') \<and> spends 0 (length items) (snd w) (snd w')"
proof (induction items arbitrary: w)
  case (Cons item items)
  show ?case
  proof (cases item)
    case None
    with Cons [of w] show ?thesis by (auto simp: spends_def split: prod.splits)
  next
    case item: (Some x)
    obtain err c1 where d: "cli_delete cli x (fst w) = (err, c1)" by (cases "cli_delete cli x (fst w)")
    let ?w1 = "(c1, (snd w)\<lparr>n_delete := Suc (n_delete (snd w))\<rparr>)"
    have c: "cli_delete (counting cli) x w = (err, ?w1)" by (simp add: counting_def counted_def d)
    have one: "spends 0 1 (snd w) (snd ?w1)" by (simp add: spends_def)
    show ?thesis
    proof (cases "(ownedByUID x uid \<or> labeledOperand x) \<and> (err = None \<or> err = Some NotFound)")
      case True
      then have run: "delete_items (counting cli) uid (item # items) w = delete_items (counting cli) uid items ?w1"
        and plain: "delete_items cli uid (item # items) (fst w) = delete_items cli uid items (fst ?w1)"
        using c d item by auto
      obtain e w' where ih: "delete_items (counting cli) uid items ?w1 = (e, w')"
        by (cases "delete_items (counting cli) uid items ?w1")
      with Cons [of ?w1] have "delete_items cli uid items (fst ?w1) = (e, fst w')"
        and "spends 0 (length items) (snd ?w1) (snd w')" by simp_all
      with spends_trans [OF one] show ?thesis unfolding run plain ih by fastforce
    next
      case False
      then show ?thesis using Cons [of w] c d one item
        by (auto simp: spends_def split: prod.splits option.splits)
    qed
  qed
qed simp

lemma delete_list_spends:
  assumes "extract_lawful cli"
  shows "case deleteOwnedFromList (counting cli) uid g ns w of (e, w') \<Rightarrow>
     deleteOwnedFromList cli uid g ns (fst w) = (e, fst w') \<and> spends 1 0 (snd w) (snd w')"
proof -
  obtain res c1 where l: "cli_list cli g ns (fst w) = (res, c1)" by (cases "cli_list cli g ns (fst w)")
  let ?w1 = "(c1, (snd w)\<lparr>n_list := Suc (n_list (snd w)), n_listed := n_listed (snd w) + listed_items res\<rparr>)"
  have c: "cli_list (counting cli) g ns w = (res, ?w1)" by (simp add: counting_def counted_def l)
  show ?thesis
  proof (cases res)
    case (Inl err)
    then show ?thesis using c l by (simp add: deleteOwnedFromList_def spends_def listed_items_def)
  next
    case (Inr items)
    have x: "cli_extractList (counting cli) items = cli_extractList cli items" by (simp add: counting_def)
    show ?thesis
    proof (cases "cli_extractList cli items")
      case failed: (Inl err)
      with Inr x c l show ?thesis by (simp add: deleteOwnedFromList_def spends_def listed_items_def)
    next
      case extracted: (Inr objs)
      with Inr x have "deleteOwnedFromList (counting cli) uid g ns w = delete_items (counting cli) uid objs ?w1"
        and "deleteOwnedFromList cli uid g ns (fst w) = delete_items cli uid objs (fst ?w1)"
        using c l by (simp_all add: deleteOwnedFromList_def)
      moreover have "length objs = length items" using extract_lawfulD [OF assms extracted] by simp
      ultimately show ?thesis using delete_items_spends [of cli uid objs ?w1] Inr
        by (auto simp: spends_def listed_items_def split: prod.splits)
    qed
  qed
qed

lemma delete_lists_spends:
  assumes "extract_lawful cli"
  shows "case delete_lists (counting cli) uid ns gs w of (e, w') \<Rightarrow>
     delete_lists cli uid ns gs (fst w) = (e, fst w') \<and> spends (length gs) 0 (snd w) (snd w')"
proof (induction gs arbitrary: w)
  case (Cons g gs)
  obtain e1 w1 where d: "deleteOwnedFromList (counting cli) uid g ns w = (e1, w1)"
    by (cases "deleteOwnedFromList (counting cli) uid g ns w")
  have one: "deleteOwnedFromList cli uid g ns (fst w) = (e1, fst w1)" "spends 1 0 (snd w) (snd w1)"
    using delete_list_spends [OF assms, of uid g ns w] d by simp_all
  then show ?case
    using Cons [of w1] d by (cases e1) (auto simp: spends_def split: prod.splits)
qed simp

lemma owned_list_lengths: "length namespacedOwnedLists = 4" "length clusterOwnedLists = 3"
  by (simp_all add: namespacedOwnedLists_def clusterOwnedLists_def)

lemma deleteOwnedOperands_spends:
  assumes "deleteOwnedOperands (counting cli) r = (e, r')" and "extract_lawful cli"
  shows "deleteOwnedOperands cli (uncounted r) = (e, uncounted r')
    \<and> spends (if meta_UID (rr_Instance r) = [] then 0 else if apps_ns r = [] then 3 else 7) 0 (calls_of r) (calls_of r')"
proof (cases "meta_UID (rr_Instance r) = []")
  case True
  then show ?thesis using assms by (auto simp: deleteOwnedOperands_def)
next
  case False
  let ?u = "meta_UID (rr_Instance r)" and ?w = "rr_Cluster r"
  let ?n = "if apps_ns r = [] then 0 else 4 :: nat"
  obtain e1 w1 where one: "(if apps_ns r \<noteq> [] then delete_lists (counting cli) ?u (Some (apps_ns r)) namespacedOwnedLists ?w
      else (None, ?w)) = (e1, w1)" by (metis surj_pair)
  have plain: "(if apps_ns r \<noteq> [] then delete_lists cli ?u (Some (apps_ns r)) namespacedOwnedLists (fst ?w)
      else (None, fst ?w)) = (e1, fst w1)" and s1: "spends ?n 0 (snd ?w) (snd w1)"
    using delete_lists_spends [OF assms(2), of ?u "Some (apps_ns r)" namespacedOwnedLists ?w] one
    by (auto simp: owned_list_lengths split: if_splits)
  obtain e2 w2 where two: "delete_lists (counting cli) ?u None clusterOwnedLists w1 = (e2, w2)"
    by (cases "delete_lists (counting cli) ?u None clusterOwnedLists w1")
  have plain2: "delete_lists cli ?u None clusterOwnedLists (fst w1) = (e2, fst w2)" and s2: "spends 3 0 (snd w1) (snd w2)"
    using delete_lists_spends [OF assms(2), of ?u None clusterOwnedLists w1] two by (simp_all add: owned_list_lengths)
  show ?thesis
  proof (cases e1)
    case None
    then have "e = e2" "r' = r\<lparr>rr_Cluster := w2\<rparr>"
      using assms False one two by (auto simp: deleteOwnedOperands_def Let_def)
    with None False plain plain2 spends_trans [OF s1 s2] show ?thesis
      by (auto simp: deleteOwnedOperands_def Let_def split: if_splits)
  next
    case (Some x)
    then have "e = e1" "r' = r\<lparr>rr_Cluster := w1\<rparr>"
      using assms False one by (auto simp: deleteOwnedOperands_def Let_def)
    with Some False plain spends_trans [OF s1 spends_refl [of 3 0]] show ?thesis
      by (auto simp: deleteOwnedOperands_def Let_def split: if_splits)
  qed
qed

text \<open>The role: one get, and at most one update and one delete.\<close>

lemma deleteNotebook_calls:
  assumes "deleteNotebookClusterRole (counting cli) r = (e, r')" and "calls_of r = no_calls"
  shows "n_get (calls_of r') = 1 \<and> n_list (calls_of r') = 0
    \<and> n_update (calls_of r') \<le> 1 \<and> n_delete (calls_of r') \<le> 1"
  using assms unfolding deleteNotebookClusterRole_def Let_def
  by (auto simp: counting_def counted_def no_calls_def split: sum.splits prod.splits option.splits if_splits)

section \<open>Properties\<close>

text \<open>
  C22. The load on the API server is bounded. The operand deletion makes no list call without a UID, at
  most three without a namespace and at most seven otherwise, and never more delete calls than it
  was shown objects, also when it fails; the deletion of the notebook role reads once and writes at most
  once each way. The items of a list are taken out as documented. The counters are only watched: the run is that of the client itself.
\<close>

theorem deletion_calls_bounded:
  assumes "deleteOwnedOperands (counting cli) r = (e, r')" and "deleteNotebookClusterRole (counting cli) r = (e2, r2)"
    and "calls_of r = no_calls" and "extract_lawful cli"
  shows "deleteOwnedOperands cli (uncounted r) = (e, uncounted r')
    \<and> n_list (calls_of r') \<le> (if meta_UID (rr_Instance r) = [] then 0 else if apps_ns r = [] then 3 else 7)
    \<and> n_delete (calls_of r') \<le> n_listed (calls_of r') \<and> n_get (calls_of r') = 0 \<and> n_update (calls_of r') = 0
    \<and> n_get (calls_of r2) = 1 \<and> n_list (calls_of r2) = 0 \<and> n_update (calls_of r2) \<le> 1 \<and> n_delete (calls_of r2) \<le> 1"
  using deleteOwnedOperands_spends [OF assms(1,4)] deleteNotebook_calls [OF assms(2,3)] assms(3)
  by (simp add: spends_def no_calls_def)

section \<open>Witnesses\<close>

theorem deletion_calls_bounded_witness:
  "n_list (calls_of (snd (deleteOwnedOperands (counting mem_client) (sample_rr [] (sample_operands, no_calls))))) \<le> 7
   \<and> n_delete (calls_of (snd (deleteOwnedOperands (counting mem_client) (sample_rr [] (sample_operands, no_calls))))) = 2"
proof
  have c: "calls_of (sample_rr [] (sample_operands, no_calls)) = no_calls" by (simp add: sample_rr_def)
  have x: "extract_lawful mem_client" using mem_client_lawful(1) unfolding list_lawful_def by blast
  have "n_list (calls_of (snd (deleteOwnedOperands (counting mem_client) (sample_rr [] (sample_operands, no_calls)))))
      \<le> (if meta_UID (rr_Instance (sample_rr [] (sample_operands, no_calls))) = [] then 0
         else if apps_ns (sample_rr [] (sample_operands, no_calls)) = [] then 3 else 7)"
    using deletion_calls_bounded [OF prod.collapse [symmetric] prod.collapse [symmetric] c x] by blast
  then show "n_list (calls_of (snd (deleteOwnedOperands (counting mem_client) (sample_rr [] (sample_operands, no_calls))))) \<le> 7"
    by (simp split: if_splits)
  show "n_delete (calls_of (snd (deleteOwnedOperands (counting mem_client) (sample_rr [] (sample_operands, no_calls))))) = 2"
    by code_simp
qed

end
