(* ===== verification/API_Scheme.thy ===== *)
theory API_Scheme
  imports Notebook_RBAC
begin

text \<open>
  \<^verbatim>\<open>groupversion_info.go\<close> and the \<^verbatim>\<open>init\<close> function of \<^verbatim>\<open>cmd/main.go\<close>: how the program
  comes to know its Go types. The scheme of apimachinery and the registrations of the other API
  packages are parameters (\<open>scheme_library\<close>); what the code relies on is \<open>scheme_lawful\<close>: a
  registration makes the types known under their group and version and forgets none. The scheme is
  changed in place, so it stands for the state also after an error. The contract of a
  registration is the locale \<open>registration\<close>, interpreted on \<open>AddToScheme\<close>. The theorem: a program
  whose initialisation did not panic reads and writes Ray and RayList under the group for which its
  permissions are declared.
\<close>

section \<open>The scheme\<close>

record groupVersion =
  gv_Group :: string
  gv_Version :: string

text \<open>The Go types are named by their package and their name; a kind is a name under a group and version.\<close>

type_synonym go_type = "string \<times> string"

datatype 's registered = Registered 's | Failed string | Panicked string

record 's scheme_library =
  NewScheme :: 's
  Recognizes :: "'s \<Rightarrow> groupVersion \<Rightarrow> string \<Rightarrow> go_type option"
  AddKnownTypes :: "groupVersion \<Rightarrow> go_type list \<Rightarrow> 's \<Rightarrow> 's registered"
  AddToGroupVersion :: "groupVersion \<Rightarrow> 's \<Rightarrow> 's registered"
  Builder_AddToScheme :: "('s \<Rightarrow> 's registered) list \<Rightarrow> 's \<Rightarrow> 's registered"
  clientgo_AddToScheme :: "'s \<Rightarrow> 's registered"
  apiextensions_AddToScheme :: "'s \<Rightarrow> 's registered"
  config_AddToScheme :: "'s \<Rightarrow> 's registered"

definition and_then :: "'s registered \<Rightarrow> ('s \<Rightarrow> 's registered) \<Rightarrow> 's registered" where
  "and_then m f = (case m of Registered s \<Rightarrow> f s | Failed e \<Rightarrow> Failed e | Panicked e \<Rightarrow> Panicked e)"

section \<open>The registration of this group\<close>

definition SchemeGroupVersion :: groupVersion where
  "SchemeGroupVersion = \<lparr>gv_Group = ''components.platform.opendatahub.io'', gv_Version = ''v1alpha1''\<rparr>"

definition GroupVersion :: groupVersion where
  "GroupVersion = SchemeGroupVersion"

definition RayType :: go_type where
  "RayType = (''v1alpha1'', ''Ray'')"

definition RayListType :: go_type where
  "RayListType = (''v1alpha1'', ''RayList'')"

text \<open>A panic of either call leaves the function; otherwise it returns nil.\<close>

definition addKnownTypes :: "'s scheme_library \<Rightarrow> 's \<Rightarrow> 's registered" where
  "addKnownTypes lib s =
     and_then (AddKnownTypes lib SchemeGroupVersion [RayType, RayListType] s)
       (\<lambda>s1. and_then (AddToGroupVersion lib SchemeGroupVersion s1) Registered)"

definition SchemeBuilder :: "'s scheme_library \<Rightarrow> ('s \<Rightarrow> 's registered) list" where
  "SchemeBuilder lib = [addKnownTypes lib]"

definition AddToScheme :: "'s scheme_library \<Rightarrow> 's \<Rightarrow> 's registered" where
  "AddToScheme lib = Builder_AddToScheme lib (SchemeBuilder lib)"

section \<open>Initialisation of the program\<close>

text \<open>\<^verbatim>\<open>utilruntime.Must\<close> panics on an error.\<close>

definition Must :: "'s registered \<Rightarrow> 's registered" where
  "Must m = (case m of Failed e \<Rightarrow> Panicked e | _ \<Rightarrow> m)"

definition init :: "'s scheme_library \<Rightarrow> 's registered" where
  "init lib =
     and_then (Must (clientgo_AddToScheme lib (NewScheme lib)))
       (\<lambda>s1. and_then (Must (apiextensions_AddToScheme lib s1))
         (\<lambda>s2. and_then (Must (config_AddToScheme lib s2))
           (\<lambda>s3. Must (AddToScheme lib s3))))"

section \<open>What the code relies on\<close>

definition forgets_nothing :: "'s scheme_library \<Rightarrow> ('s \<Rightarrow> 's registered) \<Rightarrow> bool" where
  "forgets_nothing lib f =
     (\<forall>s s' gv k t. f s = Registered s' \<longrightarrow> Recognizes lib s gv k = Some t \<longrightarrow> Recognizes lib s' gv k = Some t)"

text \<open>
  \<open>AddKnownTypes\<close> registers each type under its own name, and panics only when one of the names is
  taken by a different type; \<open>AddToGroupVersion\<close> adds the option and event kinds and no others; the
  builder applies its functions.
\<close>

definition meta_kinds :: "string list" where
  "meta_kinds = [''WatchEvent'', ''ListOptions'', ''GetOptions'', ''DeleteOptions'', ''CreateOptions'',
     ''UpdateOptions'', ''PatchOptions'']"

definition scheme_lawful :: "'s scheme_library \<Rightarrow> bool" where
  "scheme_lawful lib =
     ((\<forall>gv ts s s'. AddKnownTypes lib gv ts s = Registered s' \<longrightarrow> (\<forall>t \<in> set ts. Recognizes lib s' gv (snd t) = Some t))
      \<and> (\<forall>gv ts s. (\<forall>t \<in> set ts. Recognizes lib s gv (snd t) \<in> {None, Some t}) \<longrightarrow> distinct (map snd ts) \<longrightarrow>
           (\<exists>s'. AddKnownTypes lib gv ts s = Registered s'
              \<and> (\<forall>k. k \<notin> snd ` set ts \<longrightarrow> Recognizes lib s' gv k = Recognizes lib s gv k)))
      \<and> (\<forall>gv s. (\<forall>k \<in> set meta_kinds. Recognizes lib s gv k = None) \<longrightarrow>
           (\<exists>s'. AddToGroupVersion lib gv s = Registered s'))
      \<and> (\<forall>gv ts. forgets_nothing lib (AddKnownTypes lib gv ts))
      \<and> (\<forall>gv. forgets_nothing lib (AddToGroupVersion lib gv))
      \<and> (\<forall>f. Builder_AddToScheme lib [f] = f)
      \<and> forgets_nothing lib (clientgo_AddToScheme lib)
      \<and> forgets_nothing lib (apiextensions_AddToScheme lib)
      \<and> forgets_nothing lib (config_AddToScheme lib))"

text \<open>The contract of a registration: it makes its types known, and it is additive.\<close>

locale registration =
  fixes lawful :: bool
    and known :: "'s \<Rightarrow> groupVersion \<Rightarrow> string \<Rightarrow> go_type option"
    and register :: "'s \<Rightarrow> 's registered"
    and gv :: groupVersion
    and types :: "go_type list"
  assumes makes_known: "\<lbrakk>lawful; register s = Registered s'; t \<in> set types\<rbrakk> \<Longrightarrow> known s' gv (snd t) = Some t"
    and additive: "\<lbrakk>lawful; register s = Registered s'; known s g k = Some t\<rbrakk> \<Longrightarrow> known s' g k = Some t"
    and succeeds: "\<lbrakk>lawful; \<forall>k. known s gv k = None\<rbrakk> \<Longrightarrow> \<exists>s'. register s = Registered s'"
begin

lemma must_register:
  assumes lawful and "Must (register s) = Registered s'" and "t \<in> set types"
  shows "known s' gv (snd t) = Some t"
  using assms makes_known by (cases "register s") (auto simp: Must_def)

lemma must_keeps:
  assumes lawful and "Must (register s) = Registered s'" and "known s g k = Some t"
  shows "known s' g k = Some t"
  using assms additive by (cases "register s") (auto simp: Must_def)

lemma must_fresh:
  assumes lawful and "\<forall>k. known s gv k = None"
  shows "\<exists>s'. Must (register s) = Registered s'"
  using succeeds [OF assms] by (auto simp: Must_def)

end

section \<open>Lemmas\<close>

lemma and_then_Registered [simp]: "and_then m f = Registered s' \<longleftrightarrow> (\<exists>s. m = Registered s \<and> f s = Registered s')"
  by (cases m) (simp_all add: and_then_def)

lemma Must_Registered [simp]: "Must m = Registered s \<longleftrightarrow> m = Registered s"
  by (cases m) (simp_all add: Must_def)

lemma forgets_nothingD:
  "forgets_nothing lib f \<Longrightarrow> f s = Registered s' \<Longrightarrow> Recognizes lib s gv k = Some t \<Longrightarrow> Recognizes lib s' gv k = Some t"
  unfolding forgets_nothing_def by blast

lemma scheme_lawfulD:
  assumes "scheme_lawful lib"
  shows "AddKnownTypes lib gv ts s = Registered s' \<Longrightarrow> t \<in> set ts \<Longrightarrow> Recognizes lib s' gv (snd t) = Some t"
    and "\<lbrakk>\<forall>t \<in> set ts. Recognizes lib s gv (snd t) \<in> {None, Some t}; distinct (map snd ts)\<rbrakk> \<Longrightarrow>
      \<exists>s'. AddKnownTypes lib gv ts s = Registered s'
        \<and> (\<forall>k. k \<notin> snd ` set ts \<longrightarrow> Recognizes lib s' gv k = Recognizes lib s gv k)"
    and "\<forall>k \<in> set meta_kinds. Recognizes lib s gv k = None \<Longrightarrow> \<exists>s'. AddToGroupVersion lib gv s = Registered s'"
    and "forgets_nothing lib (AddKnownTypes lib gv ts)" "forgets_nothing lib (AddToGroupVersion lib gv)"
    and "forgets_nothing lib (clientgo_AddToScheme lib)" "forgets_nothing lib (apiextensions_AddToScheme lib)"
    and "forgets_nothing lib (config_AddToScheme lib)"
  using assms by (simp_all add: scheme_lawful_def)

lemma AddToScheme_eq:
  assumes "scheme_lawful lib"
  shows "AddToScheme lib = addKnownTypes lib"
  using assms by (simp add: AddToScheme_def SchemeBuilder_def scheme_lawful_def)

lemma addKnownTypes_known:
  assumes "scheme_lawful lib" and "addKnownTypes lib s = Registered s'" and "t \<in> set [RayType, RayListType]"
  shows "Recognizes lib s' SchemeGroupVersion (snd t) = Some t"
proof -
  obtain s1 where 1: "AddKnownTypes lib SchemeGroupVersion [RayType, RayListType] s = Registered s1"
    and 2: "AddToGroupVersion lib SchemeGroupVersion s1 = Registered s'"
    using assms(2) by (auto simp: addKnownTypes_def)
  have "Recognizes lib s1 SchemeGroupVersion (snd t) = Some t"
    using scheme_lawfulD(1) [OF assms(1) 1 assms(3)] .
  then show ?thesis by (rule forgets_nothingD [OF scheme_lawfulD(5) [OF assms(1)] 2])
qed

lemma addKnownTypes_additive:
  assumes "scheme_lawful lib" and "addKnownTypes lib s = Registered s'" and "Recognizes lib s g k = Some t"
  shows "Recognizes lib s' g k = Some t"
proof -
  obtain s1 where 1: "AddKnownTypes lib SchemeGroupVersion [RayType, RayListType] s = Registered s1"
    and 2: "AddToGroupVersion lib SchemeGroupVersion s1 = Registered s'"
    using assms(2) by (auto simp: addKnownTypes_def)
  have "Recognizes lib s1 g k = Some t"
    by (rule forgets_nothingD [OF scheme_lawfulD(4) [OF assms(1)] 1 assms(3)])
  then show ?thesis by (rule forgets_nothingD [OF scheme_lawfulD(5) [OF assms(1)] 2])
qed

lemma own_kinds_distinct: "distinct (map snd [RayType, RayListType])"
  by (simp add: RayType_def RayListType_def)

lemma meta_kinds_other: "k \<in> set meta_kinds \<Longrightarrow> k \<notin> snd ` set [RayType, RayListType]"
  by (auto simp: meta_kinds_def RayType_def RayListType_def)

lemma addKnownTypes_succeeds:
  assumes "scheme_lawful lib" and "\<forall>k. Recognizes lib s SchemeGroupVersion k = None"
  shows "\<exists>s'. addKnownTypes lib s = Registered s'"
proof -
  have "\<forall>t \<in> set [RayType, RayListType]. Recognizes lib s SchemeGroupVersion (snd t) \<in> {None, Some t}"
    using assms(2) by simp
  from scheme_lawfulD(2) [OF assms(1) this own_kinds_distinct] obtain s1 where
    1: "AddKnownTypes lib SchemeGroupVersion [RayType, RayListType] s = Registered s1"
    and k: "\<And>k. k \<notin> snd ` set [RayType, RayListType] \<Longrightarrow> Recognizes lib s1 SchemeGroupVersion k = None"
    using assms(2) by auto
  have "\<forall>k \<in> set meta_kinds. Recognizes lib s1 SchemeGroupVersion k = None"
    using k meta_kinds_other by blast
  then obtain s2 where "AddToGroupVersion lib SchemeGroupVersion s1 = Registered s2"
    using scheme_lawfulD(3) [OF assms(1)] by blast
  with 1 show ?thesis by (auto simp: addKnownTypes_def)
qed

interpretation own_types:
  registration "scheme_lawful lib" "Recognizes lib" "AddToScheme lib" SchemeGroupVersion "[RayType, RayListType]" for lib
proof
  show "Recognizes lib s' SchemeGroupVersion (snd t) = Some t"
    if "scheme_lawful lib" "AddToScheme lib s = Registered s'" "t \<in> set [RayType, RayListType]" for s s' t
    using addKnownTypes_known that AddToScheme_eq by metis
  show "Recognizes lib s' g k = Some t"
    if "scheme_lawful lib" "AddToScheme lib s = Registered s'" "Recognizes lib s g k = Some t" for s s' g k t
    using addKnownTypes_additive that AddToScheme_eq by metis
  show "\<exists>s'. AddToScheme lib s = Registered s'"
    if "scheme_lawful lib" "\<forall>k. Recognizes lib s SchemeGroupVersion k = None" for s
    using addKnownTypes_succeeds that AddToScheme_eq by metis
qed

section \<open>Properties\<close>

text \<open>A scheme as a function from group, version and kind to the Go type.\<close>

type_synonym sample_scheme = "groupVersion \<Rightarrow> string \<Rightarrow> go_type option"

definition sample_add :: "groupVersion \<Rightarrow> go_type list \<Rightarrow> sample_scheme \<Rightarrow> sample_scheme registered" where
  "sample_add gv ts s =
     (if \<not> distinct (map snd ts) \<or> list_ex (\<lambda>t. case s gv (snd t) of None \<Rightarrow> False | Some t' \<Rightarrow> t' \<noteq> t) ts
      then Panicked ''double registration''
      else Registered (\<lambda>g k. if g = gv \<and> k \<in> snd ` set ts then List.find (\<lambda>t. snd t = k) ts else s g k))"

definition sample_schemes :: "sample_scheme scheme_library" where
  "sample_schemes =
     \<lparr>NewScheme = (\<lambda>g k. None), Recognizes = (\<lambda>s. s), AddKnownTypes = sample_add,
      AddToGroupVersion = (\<lambda>gv. sample_add gv (map (Pair ''metav1'') meta_kinds)),
      Builder_AddToScheme = (\<lambda>fs s. foldl and_then (Registered s) fs),
      clientgo_AddToScheme =
        sample_add \<lparr>gv_Group = ''rbac.authorization.k8s.io'', gv_Version = ''v1''\<rparr> [(''rbacv1'', ''ClusterRole'')],
      apiextensions_AddToScheme =
        sample_add \<lparr>gv_Group = ''apiextensions.k8s.io'', gv_Version = ''v1''\<rparr> [(''apiextensionsv1'', ''CustomResourceDefinition'')],
      config_AddToScheme =
        sample_add \<lparr>gv_Group = ''config.openshift.io'', gv_Version = ''v1''\<rparr> [(''configv1'', ''APIServer'')]\<rparr>"

lemma find_snd:
  assumes "distinct (map snd ts)" and "t \<in> set ts"
  shows "List.find (\<lambda>u. snd u = snd t) ts = Some t"
  using assms by (induction ts) (auto simp: image_iff)

lemma sample_add_known: "sample_add gv ts s = Registered s' \<Longrightarrow> t \<in> set ts \<Longrightarrow> s' gv (snd t) = Some t"
  by (auto simp: sample_add_def find_snd split: if_splits)

lemma sample_add_additive: "sample_add gv ts s = Registered s' \<Longrightarrow> s g k = Some t \<Longrightarrow> s' g k = Some t"
  using find_snd [of ts t]
  by (auto simp: sample_add_def list_ex_iff split: if_splits) fastforce

lemma sample_add_succeeds:
  assumes "\<forall>t \<in> set ts. s gv (snd t) \<in> {None, Some t}" and "distinct (map snd ts)"
  shows "\<exists>s'. sample_add gv ts s = Registered s' \<and> (\<forall>k. k \<notin> snd ` set ts \<longrightarrow> s' gv k = s gv k)"
  using assms by (fastforce simp: sample_add_def list_ex_iff split: option.splits)

lemma meta_kinds_distinct: "distinct meta_kinds"
  by (simp add: meta_kinds_def)

lemma sample_schemes_lawful: "scheme_lawful sample_schemes"
proof -
  have add: "forgets_nothing sample_schemes (sample_add gv ts)" for gv ts
    using sample_add_additive by (simp add: forgets_nothing_def sample_schemes_def)
  have meta: "\<exists>s'. sample_add gv (map (Pair ''metav1'') meta_kinds) s = Registered s'"
    if "\<forall>k \<in> set meta_kinds. s gv k = None" for gv s
    using sample_add_succeeds [of "map (Pair ''metav1'') meta_kinds" s gv] that meta_kinds_distinct
    by (fastforce simp: comp_def)
  show ?thesis
    unfolding scheme_lawful_def using add meta sample_add_known sample_add_succeeds
    by (simp add: sample_schemes_def and_then_def)
qed

lemma sample_groups:
  "\<exists>s1 s2 s3. clientgo_AddToScheme sample_schemes (NewScheme sample_schemes) = Registered s1
     \<and> apiextensions_AddToScheme sample_schemes s1 = Registered s2 \<and> config_AddToScheme sample_schemes s2 = Registered s3
     \<and> (\<forall>k. Recognizes sample_schemes s3 SchemeGroupVersion k = None)"
  by (simp add: sample_schemes_def sample_add_def SchemeGroupVersion_def)

text \<open>
  C21. After an initialisation that did not panic, Ray and RayList are the types of their kinds under
  the group of this API, what the other packages registered is still known, and the permissions
  declared for the operator let it read and update that group's objects, their status and their
  finalizers. Initialisation succeeds when the other registrations do and leave the group alone, and
  it panics when any registration fails.
\<close>

theorem init_registers_types:
  assumes "scheme_lawful lib"
  shows "(\<forall>s. init lib = Registered s \<longrightarrow>
            Recognizes lib s GroupVersion ''Ray'' = Some RayType
          \<and> Recognizes lib s GroupVersion ''RayList'' = Some RayListType
          \<and> list_all (grants rbac_markers (gv_Group GroupVersion) ''rays'') [''get'', ''list'', ''watch'', ''update'']
          \<and> grants rbac_markers (gv_Group GroupVersion) ''rays/status'' ''update''
          \<and> grants rbac_markers (gv_Group GroupVersion) ''rays/finalizers'' ''update'')
      \<and> (\<forall>s1 s2 s3. clientgo_AddToScheme lib (NewScheme lib) = Registered s1 \<longrightarrow>
           apiextensions_AddToScheme lib s1 = Registered s2 \<longrightarrow> config_AddToScheme lib s2 = Registered s3 \<longrightarrow>
           (\<forall>k. Recognizes lib s3 SchemeGroupVersion k = None) \<longrightarrow>
           (\<exists>s. init lib = Registered s
              \<and> (\<forall>g k t. Recognizes lib s3 g k = Some t \<longrightarrow> Recognizes lib s g k = Some t)))
      \<and> ((\<exists>s. init lib = Registered s) \<or> (\<exists>e. init lib = Panicked e))
      \<and> (\<forall>s1 s2 s3 e. clientgo_AddToScheme lib (NewScheme lib) = Failed e
           \<or> clientgo_AddToScheme lib (NewScheme lib) = Registered s1
              \<and> (apiextensions_AddToScheme lib s1 = Failed e
                 \<or> apiextensions_AddToScheme lib s1 = Registered s2
                    \<and> (config_AddToScheme lib s2 = Failed e
                       \<or> config_AddToScheme lib s2 = Registered s3 \<and> AddToScheme lib s3 = Failed e))
           \<longrightarrow> init lib = Panicked e)"
proof (intro conjI allI impI)
  fix s assume "init lib = Registered s"
  then obtain s3 where "AddToScheme lib s3 = Registered s" by (auto simp: init_def)
  note known = own_types.makes_known [OF assms this]
  show "Recognizes lib s GroupVersion ''Ray'' = Some RayType"
    using known [of RayType] by (simp add: GroupVersion_def RayType_def)
  show "Recognizes lib s GroupVersion ''RayList'' = Some RayListType"
    using known [of RayListType] by (simp add: GroupVersion_def RayListType_def)
  show "list_all (grants rbac_markers (gv_Group GroupVersion) ''rays'') [''get'', ''list'', ''watch'', ''update'']"
    and "grants rbac_markers (gv_Group GroupVersion) ''rays/status'' ''update''"
    and "grants rbac_markers (gv_Group GroupVersion) ''rays/finalizers'' ''update''"
    by (simp_all add: GroupVersion_def SchemeGroupVersion_def grants_def rbac_markers_def mk_rule_def crud_def)
next
  fix s1 s2 s3
  assume r: "clientgo_AddToScheme lib (NewScheme lib) = Registered s1"
    "apiextensions_AddToScheme lib s1 = Registered s2" "config_AddToScheme lib s2 = Registered s3"
    and n: "\<forall>k. Recognizes lib s3 SchemeGroupVersion k = None"
  obtain s where s: "Must (AddToScheme lib s3) = Registered s" using own_types.must_fresh [OF assms n] by blast
  then have "init lib = Registered s" using r by (simp add: init_def)
  with own_types.must_keeps [OF assms s]
  show "\<exists>s. init lib = Registered s \<and> (\<forall>g k t. Recognizes lib s3 g k = Some t \<longrightarrow> Recognizes lib s g k = Some t)"
    by blast
next
  show "(\<exists>s. init lib = Registered s) \<or> (\<exists>e. init lib = Panicked e)"
    by (auto simp: init_def and_then_def Must_def split: registered.splits)
next
  fix s1 s2 s3 e
  assume "clientgo_AddToScheme lib (NewScheme lib) = Failed e
           \<or> clientgo_AddToScheme lib (NewScheme lib) = Registered s1
              \<and> (apiextensions_AddToScheme lib s1 = Failed e
                 \<or> apiextensions_AddToScheme lib s1 = Registered s2
                    \<and> (config_AddToScheme lib s2 = Failed e
                       \<or> config_AddToScheme lib s2 = Registered s3 \<and> AddToScheme lib s3 = Failed e))"
  then show "init lib = Panicked e" by (auto simp: init_def and_then_def Must_def)
qed

text \<open>At the sample scheme initialisation succeeds.\<close>

theorem init_registers_types_witness:
  "\<exists>s. init sample_schemes = Registered s \<and> Recognizes sample_schemes s GroupVersion ''Ray'' = Some RayType
     \<and> Recognizes sample_schemes s GroupVersion ''RayList'' = Some RayListType"
proof -
  have "\<exists>s. init sample_schemes = Registered s"
    using init_registers_types [OF sample_schemes_lawful] sample_groups by blast
  then show ?thesis using init_registers_types [OF sample_schemes_lawful] by blast
qed

end
