(* ===== verification/Manager_Main.thy ===== *)
theory Manager_Main
  imports Ray_Types
begin

text \<open>
  \<^verbatim>\<open>cmd/main.go\<close>: the command line, the TLS options of the two servers, the options of the
  manager, the watcher of the cluster's TLS profile and the start-up sequence. The parser of package
  \<^verbatim>\<open>flag\<close> is modelled; the flags that other packages bind, the loading and translation of the
  TLS profile, the manager and the client are parameters, with the deadline and the timeout they are given. A run of \<^verbatim>\<open>main\<close> is the list of what
  it does to the outside, with \<^verbatim>\<open>os.Exit\<close> as its last entry where the program exits. The
  theorems: the metrics endpoint is authenticated and HTTP/2 is off unless the command line says
  otherwise, and the manager is started only with an established TLS configuration and after every
  registration.
\<close>

section \<open>The command line\<close>

record managerConfig =
  metricsAddr :: string
  probeAddr :: string
  enableLeaderElection :: bool
  secureMetrics :: bool
  enableHTTP2 :: bool
  metricsCertPath :: string
  metricsCertName :: string
  metricsCertKey :: string
  webhookCertPath :: string
  webhookCertName :: string
  webhookCertKey :: string

definition flag_defaults :: managerConfig where
  "flag_defaults =
     \<lparr>metricsAddr = ''0'', probeAddr = '':8081'', enableLeaderElection = False, secureMetrics = True,
      enableHTTP2 = False, metricsCertPath = [], metricsCertName = ''tls.crt'', metricsCertKey = ''tls.key'',
      webhookCertPath = [], webhookCertName = ''tls.crt'', webhookCertKey = ''tls.key''\<rparr>"

text \<open>\<^verbatim>\<open>strconv.ParseBool\<close>\<close>

definition ParseBool :: "string \<Rightarrow> bool option" where
  "ParseBool s =
     (if s \<in> {''1'', ''t'', ''T'', ''TRUE'', ''true'', ''True''} then Some True
      else if s \<in> {''0'', ''f'', ''F'', ''FALSE'', ''false'', ''False''} then Some False
      else None)"

definition bool_flags :: "string list" where
  "bool_flags = [''leader-elect'', ''metrics-secure'', ''enable-http2'']"

definition string_flags :: "string list" where
  "string_flags =
     [''metrics-bind-address'', ''health-probe-bind-address'', ''webhook-cert-path'', ''webhook-cert-name'',
      ''webhook-cert-key'', ''metrics-cert-path'', ''metrics-cert-name'', ''metrics-cert-key'']"

definition set_bool_flag :: "string \<Rightarrow> bool \<Rightarrow> managerConfig \<Rightarrow> managerConfig" where
  "set_bool_flag name b cfg =
     (if name = ''leader-elect'' then cfg\<lparr>enableLeaderElection := b\<rparr>
      else if name = ''metrics-secure'' then cfg\<lparr>secureMetrics := b\<rparr>
      else if name = ''enable-http2'' then cfg\<lparr>enableHTTP2 := b\<rparr>
      else cfg)"

definition set_string_flag :: "string \<Rightarrow> string \<Rightarrow> managerConfig \<Rightarrow> managerConfig" where
  "set_string_flag name v cfg =
     (if name = ''metrics-bind-address'' then cfg\<lparr>metricsAddr := v\<rparr>
      else if name = ''health-probe-bind-address'' then cfg\<lparr>probeAddr := v\<rparr>
      else if name = ''webhook-cert-path'' then cfg\<lparr>webhookCertPath := v\<rparr>
      else if name = ''webhook-cert-name'' then cfg\<lparr>webhookCertName := v\<rparr>
      else if name = ''webhook-cert-key'' then cfg\<lparr>webhookCertKey := v\<rparr>
      else if name = ''metrics-cert-path'' then cfg\<lparr>metricsCertPath := v\<rparr>
      else if name = ''metrics-cert-name'' then cfg\<lparr>metricsCertName := v\<rparr>
      else if name = ''metrics-cert-key'' then cfg\<lparr>metricsCertKey := v\<rparr>
      else cfg)"

text \<open>
  The flags other packages bind (\<^verbatim>\<open>zap\<close>, \<^verbatim>\<open>--kubeconfig\<close>): which names they have, which of
  them are boolean, and which values they accept. They do not write the configuration.
\<close>

record other_flags =
  of_kind :: "string \<Rightarrow> bool option"
  of_accepts :: "string \<Rightarrow> string \<Rightarrow> bool"

datatype flag_result = FlagOK managerConfig | FlagExit nat

text \<open>One argument split at the first equals sign that is not its first byte.\<close>

definition split_value :: "string \<Rightarrow> string \<times> string option" where
  "split_value name =
     (case name of
        [] \<Rightarrow> ([], None)
      | c # cs \<Rightarrow> (case cut (CHR ''='') cs of (k, v, found) \<Rightarrow> (c # k, if found then Some v else None)))"

text \<open>
  \<^verbatim>\<open>FlagSet.parseOne\<close>: no flag (the parse is over), a failure with its exit code (help exits with
  0, every error with 2), or the arguments and the configuration to go on with.
\<close>

datatype flag_step = FlagStop | FlagFail nat | FlagNext "string list" managerConfig

definition setFlag ::
  "other_flags \<Rightarrow> string \<Rightarrow> string option \<Rightarrow> string list \<Rightarrow> managerConfig \<Rightarrow> flag_step" where
  "setFlag ofl name value args cfg =
     (if name \<in> set bool_flags then
        (case ParseBool (case value of None \<Rightarrow> ''true'' | Some v \<Rightarrow> v) of
           None \<Rightarrow> FlagFail 2
         | Some b \<Rightarrow> FlagNext args (set_bool_flag name b cfg))
      else if of_kind ofl name = Some True then
        (if of_accepts ofl name (case value of None \<Rightarrow> ''true'' | Some v \<Rightarrow> v)
         then FlagNext args cfg else FlagFail 2)
      else if name \<in> set string_flags \<or> of_kind ofl name = Some False then
        (case (case value of Some v \<Rightarrow> Some (v, args)
               | None \<Rightarrow> (case args of [] \<Rightarrow> None | v # args' \<Rightarrow> Some (v, args'))) of
           None \<Rightarrow> FlagFail 2
         | Some (v, args') \<Rightarrow>
             (if name \<in> set string_flags then FlagNext args' (set_string_flag name v cfg)
              else if of_accepts ofl name v then FlagNext args' cfg else FlagFail 2))
      else if name = ''help'' \<or> name = ''h'' then FlagFail 0 else FlagFail 2)"

definition parseOne :: "other_flags \<Rightarrow> string \<Rightarrow> string list \<Rightarrow> managerConfig \<Rightarrow> flag_step" where
  "parseOne ofl s args cfg =
     (if length s < 2 \<or> hd s \<noteq> CHR ''-'' then FlagStop
      else if s = ''--'' then FlagStop
      else let name0 = (if s ! 1 = CHR ''-'' then drop 2 s else drop 1 s)
           in if name0 = [] \<or> hd name0 = CHR ''-'' \<or> hd name0 = CHR ''='' then FlagFail 2
              else case split_value name0 of (name, value) \<Rightarrow> setFlag ofl name value args cfg)"

lemma setFlag_shorter: "setFlag ofl name value args cfg = FlagNext args' cfg' \<Longrightarrow> length args' \<le> length args \<and> set args' \<subseteq> set args"
  by (auto simp: setFlag_def split: if_split_asm option.split_asm list.split_asm)

lemma parseOne_shorter: "parseOne ofl s args cfg = FlagNext args' cfg' \<Longrightarrow> length args' \<le> length args \<and> set args' \<subseteq> set args"
  using setFlag_shorter by (auto simp: parseOne_def Let_def split: if_split_asm prod.split_asm)

text \<open>\<^verbatim>\<open>FlagSet.Parse\<close> with \<^verbatim>\<open>ExitOnError\<close>.\<close>

function parse_args :: "other_flags \<Rightarrow> string list \<Rightarrow> managerConfig \<Rightarrow> flag_result" where
  "parse_args ofl [] cfg = FlagOK cfg"
| "parse_args ofl (s # args) cfg =
     (case parseOne ofl s args cfg of
        FlagStop \<Rightarrow> FlagOK cfg
      | FlagFail n \<Rightarrow> FlagExit n
      | FlagNext args' cfg' \<Rightarrow> parse_args ofl args' cfg')"
  by pat_completeness auto
termination
  by (relation "measure (\<lambda>(ofl, args, cfg). length args)") (auto dest!: parseOne_shorter)

definition parseFlags :: "other_flags \<Rightarrow> string list \<Rightarrow> flag_result" where
  "parseFlags ofl args = parse_args ofl args flag_defaults"

section \<open>TLS\<close>

record tls_config =
  tls_NextProtos :: "string list"
  tls_MinVersion :: nat
  tls_CipherSuites :: "nat list"

record tls_load =
  load_Spec :: string
  load_AdherencePolicy :: string
  load_UsedFallback :: bool
  load_Watchable :: bool

text \<open>
  Of a \<^verbatim>\<open>rest.Config\<close> the host and the timeout of every request, in seconds (0 for none); the
  deadline of a context is in seconds too.
\<close>

record rest_config =
  rc_Host :: string
  rc_Timeout :: nat

text \<open>The packages \<^verbatim>\<open>framework/tls\<close> and \<^verbatim>\<open>controller-runtime-common/pkg/tls\<close>.\<close>

record tls_library =
  LoadWithAdherence :: "nat \<Rightarrow> rest_config \<Rightarrow> goerror option \<times> tls_load"
  ShouldHonorClusterTLSProfile :: "string \<Rightarrow> bool"
  IntermediateProfile :: string
  ConfigFromProfileWithError :: "string \<Rightarrow> goerror + ((tls_config \<Rightarrow> tls_config) \<times> string list)"
  SetNextProtos :: "string list \<Rightarrow> tls_config \<Rightarrow> tls_config"
  HTTP2NextProtos :: "string list"
  HTTP1NextProtos :: "string list"

definition managerTLSOptions ::
  "tls_library \<Rightarrow> nat \<Rightarrow> rest_config \<Rightarrow> bool \<Rightarrow> (goerror + (tls_config \<Rightarrow> tls_config) list) \<times> tls_load" where
  "managerTLSOptions lib ctx cli http2 =
     (case LoadWithAdherence lib ctx cli of
        (Some err, result) \<Rightarrow> (Inl (EWrap ''unable to load APIServer TLS profile'' err), result)
      | (None, result) \<Rightarrow>
          (let profile = (if ShouldHonorClusterTLSProfile lib (load_AdherencePolicy result)
                          then load_Spec result else IntermediateProfile lib)
           in case ConfigFromProfileWithError lib profile of
                Inl err \<Rightarrow> (Inl (EWrap ''building TLS options from profile'' err), result)
              | Inr (tlsConfigFn, unsupported) \<Rightarrow>
                  (let nextProtos = (if \<not> http2 then SetNextProtos lib (HTTP1NextProtos lib)
                                     else SetNextProtos lib (HTTP2NextProtos lib))
                   in (Inr [tlsConfigFn, nextProtos], result))))"

text \<open>A server applies its TLS options in order.\<close>

definition apply_tls :: "(tls_config \<Rightarrow> tls_config) list \<Rightarrow> tls_config \<Rightarrow> tls_config" where
  "apply_tls fs c = foldl (\<lambda>c f. f c) c fs"

section \<open>The servers and the manager\<close>

record webhook_options =
  wh_TLSOpts :: "(tls_config \<Rightarrow> tls_config) list"
  wh_CertDir :: string
  wh_CertName :: string
  wh_KeyName :: string

record metrics_options =
  ms_BindAddress :: string
  ms_SecureServing :: bool
  ms_TLSOpts :: "(tls_config \<Rightarrow> tls_config) list"
  ms_AuthFilter :: bool
  ms_CertDir :: string
  ms_CertName :: string
  ms_KeyName :: string

record manager_options =
  mo_Metrics :: metrics_options
  mo_Webhook :: webhook_options
  mo_HealthProbeBindAddress :: string
  mo_LeaderElection :: bool
  mo_LeaderElectionID :: string

definition setupWebhookServer ::
  "managerConfig \<Rightarrow> (tls_config \<Rightarrow> tls_config) list \<Rightarrow> webhook_options" where
  "setupWebhookServer cfg tlsOpts =
     (let opts = \<lparr>wh_TLSOpts = tlsOpts, wh_CertDir = [], wh_CertName = [], wh_KeyName = []\<rparr>
      in if webhookCertPath cfg \<noteq> []
         then opts\<lparr>wh_CertDir := webhookCertPath cfg, wh_CertName := webhookCertName cfg,
                   wh_KeyName := webhookCertKey cfg\<rparr>
         else opts)"

definition setupMetricsOptions ::
  "managerConfig \<Rightarrow> (tls_config \<Rightarrow> tls_config) list \<Rightarrow> metrics_options" where
  "setupMetricsOptions cfg tlsOpts =
     (let o0 = \<lparr>ms_BindAddress = metricsAddr cfg, ms_SecureServing = secureMetrics cfg, ms_TLSOpts = tlsOpts,
                ms_AuthFilter = False, ms_CertDir = [], ms_CertName = [], ms_KeyName = []\<rparr>;
          o1 = (if secureMetrics cfg then o0\<lparr>ms_AuthFilter := True\<rparr> else o0)
      in if metricsCertPath cfg \<noteq> []
         then o1\<lparr>ms_CertDir := metricsCertPath cfg, ms_CertName := metricsCertName cfg,
                 ms_KeyName := metricsCertKey cfg\<rparr>
         else o1)"

definition manager_options_of ::
  "managerConfig \<Rightarrow> (tls_config \<Rightarrow> tls_config) list \<Rightarrow> manager_options" where
  "manager_options_of cfg tlsOpts =
     \<lparr>mo_Metrics = setupMetricsOptions cfg tlsOpts, mo_Webhook = setupWebhookServer cfg tlsOpts,
      mo_HealthProbeBindAddress = probeAddr cfg, mo_LeaderElection = enableLeaderElection cfg,
      mo_LeaderElectionID = ''0dc2a3f5.platform.opendatahub.io''\<rparr>"

text \<open>The watcher, and what a change it observes does to its context.\<close>

record tls_watcher =
  InitialTLSProfileSpec :: string
  InitialTLSAdherencePolicy :: string
  OnProfileChange :: "bool \<Rightarrow> bool"
  OnAdherencePolicyChange :: "bool \<Rightarrow> bool"

definition newTLSProfileWatcher :: "tls_load \<Rightarrow> (bool \<Rightarrow> bool) \<Rightarrow> tls_watcher" where
  "newTLSProfileWatcher load cancel =
     \<lparr>InitialTLSProfileSpec = load_Spec load, InitialTLSAdherencePolicy = load_AdherencePolicy load,
      OnProfileChange = cancel, OnAdherencePolicyChange = cancel\<rparr>"

section \<open>Start-up\<close>

text \<open>
  The context the manager runs under: that of the signal handler, or one derived from it with a
  cancel function of its own. It is done when a signal has come, or its cancel function has been called.
\<close>

datatype go_context = SignalContext | WithCancel go_context

primrec context_done :: "bool \<Rightarrow> bool \<Rightarrow> go_context \<Rightarrow> bool" where
  "context_done signalled cancelled SignalContext = signalled"
| "context_done signalled cancelled (WithCancel parent) = (cancelled \<or> context_done signalled cancelled parent)"

text \<open>What the calls of the start-up answer.\<close>

record boot =
  boot_GetConfig :: "rest_config option"
  boot_newClient :: "rest_config \<Rightarrow> goerror option"
  boot_tls :: tls_library
  boot_NewManager :: "goerror option"
  boot_SetupController :: "goerror option"
  boot_AddHealthz :: "goerror option"
  boot_AddReadyz :: "goerror option"
  boot_SetupWatcher :: "goerror option"
  boot_Start :: "goerror option"

datatype event =
    NewManager rest_config manager_options
  | RegisterController string
  | RegisterHealthz
  | RegisterReadyz
  | RegisterWatcher tls_watcher
  | StartManager go_context
  | ExitProgram nat

text \<open>A step: its event, and the exit when it fails; the rest of the program otherwise.\<close>

definition step_or_exit :: "event \<Rightarrow> goerror option \<Rightarrow> event list \<Rightarrow> event list" where
  "step_or_exit ev err rest = ev # (if err = None then rest else [ExitProgram 1])"

definition setupManager ::
  "boot \<Rightarrow> managerConfig \<Rightarrow> rest_config \<Rightarrow> (tls_config \<Rightarrow> tls_config) list \<Rightarrow> event list \<Rightarrow> event list" where
  "setupManager b cfg restCfg tlsOpts =
     step_or_exit (NewManager restCfg (manager_options_of cfg tlsOpts)) (boot_NewManager b)"

definition registerControllers :: "boot \<Rightarrow> event list \<Rightarrow> event list" where
  "registerControllers b = step_or_exit (RegisterController ManifestsBasePath) (boot_SetupController b)"

definition registerHealthChecks :: "boot \<Rightarrow> event list \<Rightarrow> event list" where
  "registerHealthChecks b rest =
     step_or_exit RegisterHealthz (boot_AddHealthz b) (step_or_exit RegisterReadyz (boot_AddReadyz b) rest)"

text \<open>The watcher is given the cancel function of a new context, under which the rest runs.\<close>

definition registerTLSProfileWatcher ::
  "boot \<Rightarrow> go_context \<Rightarrow> tls_load \<Rightarrow> (go_context \<Rightarrow> event list) \<Rightarrow> event list" where
  "registerTLSProfileWatcher b ctx load rest =
     (let watcherCtx = WithCancel ctx; cancel = (\<lambda>cancelled. True)
      in step_or_exit (RegisterWatcher (newTLSProfileWatcher load cancel)) (boot_SetupWatcher b) (rest watcherCtx))"

definition startManager :: "boot \<Rightarrow> go_context \<Rightarrow> event list" where
  "startManager b ctx = StartManager ctx # (if boot_Start b = None then [] else [ExitProgram 1])"

text \<open>The client of the start-up has a copy of the configuration, with a timeout of its own.\<close>

definition bootstrapCfg :: "rest_config \<Rightarrow> rest_config" where
  "bootstrapCfg restCfg = restCfg\<lparr>rc_Timeout := 10\<rparr>"

definition main :: "boot \<Rightarrow> other_flags \<Rightarrow> string list \<Rightarrow> event list" where
  "main b ofl args =
     (case parseFlags ofl args of
        FlagExit n \<Rightarrow> [ExitProgram n]
      | FlagOK cfg \<Rightarrow>
          (case boot_GetConfig b of
             None \<Rightarrow> [ExitProgram 1]
           | Some restCfg \<Rightarrow>
               (if boot_newClient b (bootstrapCfg restCfg) \<noteq> None then [ExitProgram 1]
                else case managerTLSOptions (boot_tls b) 10 (bootstrapCfg restCfg) (enableHTTP2 cfg) of
                       (Inl err, tlsLoad) \<Rightarrow> [ExitProgram 1]
                     | (Inr tlsOpts, tlsLoad) \<Rightarrow>
                         setupManager b cfg restCfg tlsOpts
                           (registerControllers b
                             (registerHealthChecks b
                               (if load_Watchable tlsLoad
                                then registerTLSProfileWatcher b SignalContext tlsLoad (startManager b)
                                else startManager b SignalContext))))))"

section \<open>Lemmas\<close>

text \<open>An argument that may be an occurrence of a flag.\<close>

definition mentions :: "string \<Rightarrow> string \<Rightarrow> bool" where
  "mentions name a = (prefix (''-'' @ name) a \<or> prefix (''--'' @ name) a)"

lemma split_value_prefix: "prefix (fst (split_value s)) s"
proof (cases s)
  case (Cons c cs)
  obtain k v f where c: "cut (CHR ''='') cs = (k, v, f)" by (metis prod_cases3)
  then have "prefix k cs" by (cases f) (auto simp: cut_def takeWhile_is_prefix split: if_splits)
  with Cons c show ?thesis by (simp add: split_value_def)
qed (simp add: split_value_def)

lemma flag_mentioned:
  assumes "2 \<le> length s" and "hd s = CHR ''-''"
    and "fst (split_value (if s ! 1 = CHR ''-'' then drop 2 s else drop 1 s)) = name"
  shows "mentions name s"
proof -
  obtain c cs where s: "s = CHR ''-'' # c # cs" using assms(1,2) by (cases s; cases "tl s") auto
  with assms(3) split_value_prefix [of "if s ! 1 = CHR ''-'' then drop 2 s else drop 1 s"] show ?thesis
    by (auto simp: mentions_def split: if_splits)
qed

text \<open>What one argument (with its value) can do to the configuration.\<close>

definition flag_effect :: "string \<Rightarrow> managerConfig \<Rightarrow> managerConfig \<Rightarrow> bool" where
  "flag_effect s cfg cfg' =
     (cfg' = cfg \<or> (\<exists>name v. cfg' = set_string_flag name v cfg)
      \<or> (\<exists>name b. mentions name s \<and> cfg' = set_bool_flag name b cfg))"

lemma parseOne_effect:
  assumes "parseOne ofl s args cfg = FlagNext args' cfg'"
  shows "flag_effect s cfg cfg'"
proof -
  define n where "n = (if s ! 1 = CHR ''-'' then drop 2 s else drop 1 s)"
  obtain name val where sv: "split_value n = (name, val)" by (cases "split_value n")
  have "2 \<le> length s" "hd s = CHR ''-''" and f: "setFlag ofl name val args cfg = FlagNext args' cfg'"
    using assms unfolding parseOne_def Let_def n_def [symmetric] sv by (auto split: if_split_asm)
  then have "mentions name s" using sv n_def by (intro flag_mentioned) auto
  then have "flag_effect s cfg cfg" "flag_effect s cfg (set_string_flag name v cfg)"
    "flag_effect s cfg (set_bool_flag name x cfg)" for v x
    unfolding flag_effect_def by blast+
  with f show ?thesis
    by (auto simp: setFlag_def split: if_split_asm option.split_asm list.split_asm)
qed

lemma flag_effect_keeps:
  assumes "flag_effect s cfg cfg'"
  shows "\<not> mentions ''metrics-secure'' s \<Longrightarrow> secureMetrics cfg' = secureMetrics cfg"
    and "\<not> mentions ''enable-http2'' s \<Longrightarrow> enableHTTP2 cfg' = enableHTTP2 cfg"
proof -
  have str: "secureMetrics (set_string_flag n v cfg) = secureMetrics cfg"
    "enableHTTP2 (set_string_flag n v cfg) = enableHTTP2 cfg" for n v
    by (simp_all add: set_string_flag_def)
  have bl: "n \<noteq> ''metrics-secure'' \<Longrightarrow> secureMetrics (set_bool_flag n b cfg) = secureMetrics cfg"
    "n \<noteq> ''enable-http2'' \<Longrightarrow> enableHTTP2 (set_bool_flag n b cfg) = enableHTTP2 cfg" for n b
    by (simp_all add: set_bool_flag_def)
  show "\<not> mentions ''metrics-secure'' s \<Longrightarrow> secureMetrics cfg' = secureMetrics cfg"
    and "\<not> mentions ''enable-http2'' s \<Longrightarrow> enableHTTP2 cfg' = enableHTTP2 cfg"
    using assms str bl unfolding flag_effect_def by metis+
qed

lemma parse_args_keeps:
  assumes "parse_args ofl args cfg = FlagOK res"
  shows "(\<forall>a \<in> set args. \<not> mentions ''metrics-secure'' a) \<longrightarrow> secureMetrics res = secureMetrics cfg"
    and "(\<forall>a \<in> set args. \<not> mentions ''enable-http2'' a) \<longrightarrow> enableHTTP2 res = enableHTTP2 cfg"
proof -
  have "((\<forall>a \<in> set args. \<not> mentions ''metrics-secure'' a) \<longrightarrow> secureMetrics res = secureMetrics cfg)
      \<and> ((\<forall>a \<in> set args. \<not> mentions ''enable-http2'' a) \<longrightarrow> enableHTTP2 res = enableHTTP2 cfg)"
    using assms
  proof (induction ofl args cfg rule: parse_args.induct)
    case (2 ofl s args cfg)
    show ?case
    proof (cases "parseOne ofl s args cfg")
      case (FlagNext args' cfg')
      with "2.IH" [OF FlagNext] "2.prems" parseOne_shorter [OF FlagNext]
        flag_effect_keeps [OF parseOne_effect [OF FlagNext]]
      show ?thesis by auto
    qed (use 2 in auto)
  qed simp
  then show "(\<forall>a \<in> set args. \<not> mentions ''metrics-secure'' a) \<longrightarrow> secureMetrics res = secureMetrics cfg"
    and "(\<forall>a \<in> set args. \<not> mentions ''enable-http2'' a) \<longrightarrow> enableHTTP2 res = enableHTTP2 cfg" by blast+
qed

text \<open>\<^verbatim>\<open>SetNextProtos\<close> sets the protocols and nothing else.\<close>

definition next_protos_lawful :: "tls_library \<Rightarrow> bool" where
  "next_protos_lawful lib = (\<forall>ps c. SetNextProtos lib ps c = c\<lparr>tls_NextProtos := ps\<rparr>)"

lemma managerTLSOptions_result:
  assumes "managerTLSOptions lib ctx cli http2 = (Inr opts, load)"
  shows "\<exists>fn un. LoadWithAdherence lib ctx cli = (None, load)
    \<and> ConfigFromProfileWithError lib
        (if ShouldHonorClusterTLSProfile lib (load_AdherencePolicy load) then load_Spec load else IntermediateProfile lib)
        = Inr (fn, un)
    \<and> opts = [fn, SetNextProtos lib (if http2 then HTTP2NextProtos lib else HTTP1NextProtos lib)]"
  using assms by (auto simp: managerTLSOptions_def Let_def split: prod.splits option.splits sum.splits)

text \<open>The run of a start-up in which nothing failed, and when \<^verbatim>\<open>main\<close> has that run.\<close>

definition started_run ::
  "boot \<Rightarrow> managerConfig \<Rightarrow> rest_config \<Rightarrow> (tls_config \<Rightarrow> tls_config) list \<Rightarrow> tls_load \<Rightarrow> event list" where
  "started_run b cfg restCfg opts load =
     [NewManager restCfg (manager_options_of cfg opts), RegisterController ManifestsBasePath, RegisterHealthz, RegisterReadyz]
     @ (if load_Watchable load then [RegisterWatcher (newTLSProfileWatcher load (\<lambda>cancelled. True))] else [])
     @ [StartManager (if load_Watchable load then WithCancel SignalContext else SignalContext)]
     @ (if boot_Start b = None then [] else [ExitProgram 1])"

lemmas start_steps = setupManager_def registerControllers_def registerHealthChecks_def registerTLSProfileWatcher_def
  step_or_exit_def startManager_def Let_def

text \<open>
  Every step of the start-up has succeeded: the configuration of the connection, the bootstrap client with
  its timeout, the TLS options, the manager, the controller, both health checks and, where there is
  one, the watcher.
\<close>

definition startup_ok ::
  "boot \<Rightarrow> managerConfig \<Rightarrow> rest_config \<Rightarrow> (tls_config \<Rightarrow> tls_config) list \<Rightarrow> tls_load \<Rightarrow> bool" where
  "startup_ok b cfg restCfg opts load =
     (boot_GetConfig b = Some restCfg
      \<and> boot_newClient b (restCfg\<lparr>rc_Timeout := 10\<rparr>) = None
      \<and> managerTLSOptions (boot_tls b) 10 (restCfg\<lparr>rc_Timeout := 10\<rparr>) (enableHTTP2 cfg) = (Inr opts, load)
      \<and> boot_NewManager b = None \<and> boot_SetupController b = None
      \<and> boot_AddHealthz b = None \<and> boot_AddReadyz b = None
      \<and> (load_Watchable load \<longrightarrow> boot_SetupWatcher b = None))"

lemma main_cases:
  assumes "parseFlags ofl args = FlagOK cfg"
  shows "(\<forall>ctx. StartManager ctx \<notin> set (main b ofl args)) \<and> last (main b ofl args) = ExitProgram 1
        \<and> (\<forall>restCfg opts load. \<not> startup_ok b cfg restCfg opts load)
    \<or> (\<exists>restCfg opts load. startup_ok b cfg restCfg opts load \<and> main b ofl args = started_run b cfg restCfg opts load)"
proof (cases "boot_GetConfig b")
  case (Some restCfg)
  obtain res load where t: "managerTLSOptions (boot_tls b) 10 (bootstrapCfg restCfg) (enableHTTP2 cfg) = (res, load)"
    by (cases "managerTLSOptions (boot_tls b) 10 (bootstrapCfg restCfg) (enableHTTP2 cfg)")
  show ?thesis
  proof (cases "boot_newClient b (bootstrapCfg restCfg) = None \<and> (\<exists>opts. res = Inr opts)")
    case True
    then show ?thesis using assms Some t
      by (cases "boot_NewManager b"; cases "boot_SetupController b"; cases "boot_AddHealthz b"; cases "boot_AddReadyz b";
          cases "boot_SetupWatcher b")
        (auto simp: main_def start_steps started_run_def startup_ok_def bootstrapCfg_def)
  next
    case False
    then show ?thesis using assms Some t
      by (cases res) (auto simp: main_def startup_ok_def bootstrapCfg_def)
  qed
qed (use assms in \<open>simp add: main_def startup_ok_def\<close>)

lemma main_started:
  assumes "parseFlags ofl args = FlagOK cfg" and "StartManager ctx \<in> set (main b ofl args)"
  shows "\<exists>restCfg opts load. startup_ok b cfg restCfg opts load \<and> main b ofl args = started_run b cfg restCfg opts load"
  using main_cases [OF assms(1), of b] assms(2) by blast

section \<open>Properties\<close>

text \<open>
  C19. Safe defaults: whatever else is on the command line, as long as no argument names
  \<^verbatim>\<open>metrics-secure\<close> the metrics are served over TLS behind authentication and authorization, and
  as long as none names \<^verbatim>\<open>enable-http2\<close> every TLS configuration of the two servers offers the
  HTTP/1 protocols only, whatever protocols the cluster's profile asked for.
\<close>

theorem servers_safe_by_default:
  assumes "parseFlags ofl args = FlagOK cfg"
    and "managerTLSOptions lib ctx cli (enableHTTP2 cfg) = (Inr opts, load)" and "next_protos_lawful lib"
  shows "((\<forall>a \<in> set args. \<not> mentions ''metrics-secure'' a) \<longrightarrow>
            ms_SecureServing (setupMetricsOptions cfg opts) \<and> ms_AuthFilter (setupMetricsOptions cfg opts))
     \<and> ((\<forall>a \<in> set args. \<not> mentions ''enable-http2'' a) \<longrightarrow>
            (\<forall>c. tls_NextProtos (apply_tls (ms_TLSOpts (setupMetricsOptions cfg opts)) c) = HTTP1NextProtos lib
               \<and> tls_NextProtos (apply_tls (wh_TLSOpts (setupWebhookServer cfg opts)) c) = HTTP1NextProtos lib))"
proof -
  have f: "(\<forall>a \<in> set args. \<not> mentions ''metrics-secure'' a) \<longrightarrow> secureMetrics cfg"
    "(\<forall>a \<in> set args. \<not> mentions ''enable-http2'' a) \<longrightarrow> \<not> enableHTTP2 cfg"
    using parse_args_keeps [OF assms(1) [unfolded parseFlags_def]] by (simp_all add: flag_defaults_def)
  obtain fn where opts: "opts = [fn, SetNextProtos lib (if enableHTTP2 cfg then HTTP2NextProtos lib else HTTP1NextProtos lib)]"
    using managerTLSOptions_result [OF assms(2)] by blast
  have servers: "ms_TLSOpts (setupMetricsOptions cfg opts) = opts" "wh_TLSOpts (setupWebhookServer cfg opts) = opts"
    by (simp_all add: setupMetricsOptions_def setupWebhookServer_def Let_def)
  have "secureMetrics cfg \<longrightarrow> ms_SecureServing (setupMetricsOptions cfg opts) \<and> ms_AuthFilter (setupMetricsOptions cfg opts)"
    by (simp add: setupMetricsOptions_def Let_def)
  moreover have "\<not> enableHTTP2 cfg \<longrightarrow> tls_NextProtos (apply_tls opts c) = HTTP1NextProtos lib" for c
    using assms(3) by (simp add: opts apply_tls_def next_protos_lawful_def)
  ultimately show ?thesis using f unfolding servers by blast
qed

text \<open>
  C16. Fail-closed start-up: with a command line that parses, the manager is started if and only if every
  step before that succeeded: the connection, the bootstrap client, the TLS profile, which could be loaded
  and translated, the manager with exactly these TLS options on both servers, the controller, both health
  checks, and the watcher, seeded with the loaded profile, when the profile can be watched; the manager
  then runs under the context the watcher can cancel. The read of the profile is bounded twice, by a
  deadline of ten seconds and by the same timeout on each request of its client, and the manager keeps the
  timeout it was configured with. When a step fails the program ends with exit code 1 instead.
\<close>

theorem main_fail_closed:
  assumes "parseFlags ofl args = FlagOK cfg"
  shows "(\<forall>ctx. StartManager ctx \<in> set (main b ofl args) \<longrightarrow>
            (\<exists>restCfg opts load. startup_ok b cfg restCfg opts load
               \<and> fst (LoadWithAdherence (boot_tls b) 10 (restCfg\<lparr>rc_Timeout := 10\<rparr>)) = None
               \<and> ms_TLSOpts (mo_Metrics (manager_options_of cfg opts)) = opts
               \<and> wh_TLSOpts (mo_Webhook (manager_options_of cfg opts)) = opts
               \<and> main b ofl args =
                   [NewManager restCfg (manager_options_of cfg opts), RegisterController ''/opt/manifests'',
                    RegisterHealthz, RegisterReadyz]
                   @ (if load_Watchable load
                      then [RegisterWatcher \<lparr>InitialTLSProfileSpec = load_Spec load,
                              InitialTLSAdherencePolicy = load_AdherencePolicy load,
                              OnProfileChange = (\<lambda>cancelled. True), OnAdherencePolicyChange = (\<lambda>cancelled. True)\<rparr>]
                      else [])
                   @ [StartManager (if load_Watchable load then WithCancel SignalContext else SignalContext)]
                   @ (if boot_Start b = None then [] else [ExitProgram 1])))
     \<and> ((\<exists>ctx. StartManager ctx \<in> set (main b ofl args)) \<longleftrightarrow> (\<exists>restCfg opts load. startup_ok b cfg restCfg opts load))
     \<and> ((\<forall>ctx. StartManager ctx \<notin> set (main b ofl args)) \<longrightarrow> last (main b ofl args) = ExitProgram 1)"
proof (intro conjI allI impI)
  have st: "\<exists>ctx. StartManager ctx \<in> set (started_run b cfg restCfg opts load)" for restCfg opts load
    by (auto simp: started_run_def)
  show "last (main b ofl args) = ExitProgram 1" if "\<forall>ctx. StartManager ctx \<notin> set (main b ofl args)"
    using main_cases [OF assms, of b] that by (auto simp: started_run_def)
  show "(\<exists>ctx. StartManager ctx \<in> set (main b ofl args)) \<longleftrightarrow> (\<exists>restCfg opts load. startup_ok b cfg restCfg opts load)"
    using main_cases [OF assms, of b] st by metis
  fix ctx assume "StartManager ctx \<in> set (main b ofl args)"
  from main_started [OF assms this] obtain restCfg opts load where
    s: "startup_ok b cfg restCfg opts load" "main b ofl args = started_run b cfg restCfg opts load" by blast
  then have "managerTLSOptions (boot_tls b) 10 (restCfg\<lparr>rc_Timeout := 10\<rparr>) (enableHTTP2 cfg) = (Inr opts, load)"
    by (simp add: startup_ok_def)
  then have "fst (LoadWithAdherence (boot_tls b) 10 (restCfg\<lparr>rc_Timeout := 10\<rparr>)) = None"
    using managerTLSOptions_result by fastforce
  moreover have "ms_TLSOpts (mo_Metrics (manager_options_of cfg opts)) = opts"
    "wh_TLSOpts (mo_Webhook (manager_options_of cfg opts)) = opts"
    by (simp_all add: manager_options_of_def setupMetricsOptions_def setupWebhookServer_def Let_def)
  ultimately show "\<exists>restCfg opts load. startup_ok b cfg restCfg opts load
               \<and> fst (LoadWithAdherence (boot_tls b) 10 (restCfg\<lparr>rc_Timeout := 10\<rparr>)) = None
               \<and> ms_TLSOpts (mo_Metrics (manager_options_of cfg opts)) = opts
               \<and> wh_TLSOpts (mo_Webhook (manager_options_of cfg opts)) = opts
               \<and> main b ofl args =
                   [NewManager restCfg (manager_options_of cfg opts), RegisterController ''/opt/manifests'',
                    RegisterHealthz, RegisterReadyz]
                   @ (if load_Watchable load
                      then [RegisterWatcher \<lparr>InitialTLSProfileSpec = load_Spec load,
                              InitialTLSAdherencePolicy = load_AdherencePolicy load,
                              OnProfileChange = (\<lambda>cancelled. True), OnAdherencePolicyChange = (\<lambda>cancelled. True)\<rparr>]
                      else [])
                   @ [StartManager (if load_Watchable load then WithCancel SignalContext else SignalContext)]
                   @ (if boot_Start b = None then [] else [ExitProgram 1])"
    using s unfolding started_run_def newTLSProfileWatcher_def ManifestsBasePath_def by blast
qed

section \<open>Witnesses\<close>

definition sample_tls :: tls_library where
  "sample_tls =
     \<lparr>LoadWithAdherence = (\<lambda>ctx cli. (None, \<lparr>load_Spec = ''Modern'', load_AdherencePolicy = ''Strict'', load_UsedFallback = False,
        load_Watchable = True\<rparr>)),
      ShouldHonorClusterTLSProfile = (\<lambda>p. p = ''Strict''), IntermediateProfile = ''Intermediate'',
      ConfigFromProfileWithError = (\<lambda>p. Inr ((\<lambda>c. c\<lparr>tls_NextProtos := [''h2'']\<rparr>), [])),
      SetNextProtos = (\<lambda>ps c. c\<lparr>tls_NextProtos := ps\<rparr>), HTTP2NextProtos = [''h2'', ''http/1.1''],
      HTTP1NextProtos = [''http/1.1'']\<rparr>"

definition sample_boot :: boot where
  "sample_boot =
     \<lparr>boot_GetConfig = Some \<lparr>rc_Host = ''api'', rc_Timeout = 0\<rparr>, boot_newClient = (\<lambda>c. None), boot_tls = sample_tls, boot_NewManager = None,
      boot_SetupController = None, boot_AddHealthz = None, boot_AddReadyz = None, boot_SetupWatcher = None,
      boot_Start = None\<rparr>"

definition sample_flags :: other_flags where
  "sample_flags = \<lparr>of_kind = (\<lambda>n. if n = ''zap-devel'' then Some True else None), of_accepts = (\<lambda>n v. True)\<rparr>"

definition sample_args :: "string list" where
  "sample_args = [''--leader-elect'', ''--zap-devel'', ''--metrics-bind-address'', '':8443'']"

definition sample_cfg :: managerConfig where
  "sample_cfg = flag_defaults\<lparr>enableLeaderElection := True, metricsAddr := '':8443''\<rparr>"

lemma sample_parse: "parseFlags sample_flags sample_args = FlagOK sample_cfg"
  by code_simp

theorem servers_safe_by_default_witness:
  "\<exists>opts load. managerTLSOptions sample_tls 10 \<lparr>rc_Host = ''api'', rc_Timeout = 10\<rparr> (enableHTTP2 sample_cfg) = (Inr opts, load)
     \<and> ms_AuthFilter (setupMetricsOptions sample_cfg opts)
     \<and> tls_NextProtos (apply_tls (ms_TLSOpts (setupMetricsOptions sample_cfg opts))
         \<lparr>tls_NextProtos = [], tls_MinVersion = 0, tls_CipherSuites = []\<rparr>) = [''http/1.1'']"
proof -
  obtain opts load where o: "managerTLSOptions sample_tls 10 \<lparr>rc_Host = ''api'', rc_Timeout = 10\<rparr> (enableHTTP2 sample_cfg) = (Inr opts, load)"
    by (auto simp: managerTLSOptions_def sample_tls_def Let_def)
  have "next_protos_lawful sample_tls" by (simp add: next_protos_lawful_def sample_tls_def)
  moreover have "\<forall>a \<in> set sample_args. \<not> mentions ''metrics-secure'' a"
    "\<forall>a \<in> set sample_args. \<not> mentions ''enable-http2'' a" by code_simp+
  moreover have "HTTP1NextProtos sample_tls = [''http/1.1'']" by (simp add: sample_tls_def)
  ultimately show ?thesis using servers_safe_by_default [OF sample_parse o] o by auto
qed

theorem main_fail_closed_witness:
  "\<exists>restCfg opts load. startup_ok sample_boot sample_cfg restCfg opts load
     \<and> ms_TLSOpts (mo_Metrics (manager_options_of sample_cfg opts)) = opts"
proof -
  have "StartManager (WithCancel SignalContext) \<in> set (main sample_boot sample_flags sample_args)"
    by (simp add: main_def sample_parse sample_boot_def sample_tls_def managerTLSOptions_def start_steps)
  then show ?thesis using main_fail_closed [OF sample_parse, of sample_boot] by fast
qed

end
