(* ===== verification/Program_Start.thy ===== *)
theory Program_Start
  imports API_Scheme Manager_Main
begin

text \<open>
  The program as a whole: the initialisation of the package (\<open>init\<close>, of \<open>API_Scheme\<close>) and then
  \<open>main\<close> (of \<open>Manager_Main\<close>), which hands the initialised scheme to the bootstrap client and to
  the manager. A panic of the initialisation ends a Go program with exit code 2 (\<open>init\<close> itself never fails otherwise). What the calls of the
  start-up answer may depend on the scheme they are given. The theorems: a started manager knows the
  types of this API, and it can always be stopped, by a signal and, where the TLS profile of the cluster
  can be watched, by a change of that profile; and a program that does not start its manager exits.
\<close>

definition program :: "'s scheme_library \<Rightarrow> ('s \<Rightarrow> boot) \<Rightarrow> other_flags \<Rightarrow> string list \<Rightarrow> event list" where
  "program lib boot_with ofl args =
     (case init lib of
        Registered scheme \<Rightarrow> main (boot_with scheme) ofl args
      | Failed e \<Rightarrow> [ExitProgram 2]
      | Panicked e \<Rightarrow> [ExitProgram 2])"

section \<open>Lemmas\<close>

lemma init_knows:
  assumes "scheme_lawful lib" and "init lib = Registered s"
  shows "Recognizes lib s GroupVersion ''Ray'' = Some RayType"
    and "Recognizes lib s GroupVersion ''RayList'' = Some RayListType"
proof -
  obtain s3 where "AddToScheme lib s3 = Registered s" using assms(2) by (auto simp: init_def)
  note known = own_types.makes_known [OF assms(1) this]
  show "Recognizes lib s GroupVersion ''Ray'' = Some RayType"
    using known [of RayType] by (simp add: GroupVersion_def RayType_def)
  show "Recognizes lib s GroupVersion ''RayList'' = Some RayListType"
    using known [of RayListType] by (simp add: GroupVersion_def RayListType_def)
qed

lemma program_started:
  assumes "StartManager ctx \<in> set (program lib boot_with ofl args)"
  obtains s cfg restCfg opts load where "init lib = Registered s" and "parseFlags ofl args = FlagOK cfg"
    and "startup_ok (boot_with s) cfg restCfg opts load"
    and "program lib boot_with ofl args = started_run (boot_with s) cfg restCfg opts load"
proof -
  obtain s where i: "init lib = Registered s" and m: "program lib boot_with ofl args = main (boot_with s) ofl args"
    using assms by (cases "init lib") (auto simp: program_def)
  obtain cfg where f: "parseFlags ofl args = FlagOK cfg"
    using assms m by (cases "parseFlags ofl args") (auto simp: main_def)
  from main_started [OF f] assms that [OF i f] show thesis unfolding m by metis
qed

lemma started_run_context:
  assumes "StartManager ctx \<in> set (started_run b cfg restCfg opts load)"
  shows "ctx = (if load_Watchable load then WithCancel SignalContext else SignalContext)"
  using assms by (auto simp: started_run_def split: if_splits)

lemma started_run_watchers:
  "RegisterWatcher w \<in> set (started_run b cfg restCfg opts load) \<longleftrightarrow>
     load_Watchable load \<and> w = newTLSProfileWatcher load (\<lambda>cancelled. True)"
  by (auto simp: started_run_def)

lemma setFlag_fails: "setFlag ofl name val args cfg = FlagFail n \<Longrightarrow> n = 2 \<or> n = 0 \<and> name \<in> {''help'', ''h''}"
  by (auto simp: setFlag_def split: if_split_asm option.split_asm list.split_asm)

lemma parseOne_fails:
  assumes "parseOne ofl s args cfg = FlagFail n"
  shows "n = 2 \<or> n = 0 \<and> (prefix ''-h'' s \<or> prefix ''--h'' s)"
proof -
  define t where "t = (if s ! 1 = CHR ''-'' then drop 2 s else drop 1 s)"
  obtain name val where sv: "split_value t = (name, val)" by (cases "split_value t")
  have "n = 2 \<or> 2 \<le> length s \<and> hd s = CHR ''-'' \<and> setFlag ofl name val args cfg = FlagFail n"
    using assms unfolding parseOne_def Let_def t_def [symmetric] sv by (auto split: if_split_asm)
  then consider "n = 2" | "n = 0" "mentions name s" "name \<in> {''help'', ''h''}"
    using setFlag_fails flag_mentioned [of s name] sv unfolding t_def by fastforce
  then show ?thesis
  proof cases
    case 2
    then have "prefix ''-h'' s \<or> prefix ''--h'' s"
      unfolding mentions_def by (auto simp: prefix_def)
    with 2 show ?thesis by blast
  qed simp
qed

lemma parseFlags_exit_code:
  assumes "parseFlags ofl args = FlagExit n"
  shows "n = 2 \<or> n = 0 \<and> (\<exists>a \<in> set args. prefix ''-h'' a \<or> prefix ''--h'' a)"
proof -
  have "parse_args ofl args cfg = FlagExit n \<Longrightarrow> n = 2 \<or> n = 0 \<and> (\<exists>a \<in> set args. prefix ''-h'' a \<or> prefix ''--h'' a)"
    for cfg
  proof (induction ofl args cfg rule: parse_args.induct)
    case (2 ofl s args cfg)
    show ?case
    proof (cases "parseOne ofl s args cfg")
      case (FlagFail k)
      with parseOne_fails [OF FlagFail] 2(2) show ?thesis by auto
    next
      case (FlagNext args' cfg')
      with 2(1) [OF FlagNext] 2(2) parseOne_shorter [OF FlagNext] show ?thesis by auto
    qed (use 2 in simp)
  qed simp
  then show ?thesis using assms by (simp add: parseFlags_def)
qed

section \<open>Properties\<close>

text \<open>
  C17. A started manager can be stopped, and is restarted with fresh TLS settings: it runs with a
  scheme that knows Ray and RayList, under a context that is not done at first and that a signal ends.
  Exactly when the TLS profile it was configured from can be watched there is a watcher, seeded with
  that profile and its adherence policy, and either change it observes ends that context too.
\<close>

theorem program_reloads_tls:
  assumes "scheme_lawful lib" and "StartManager ctx \<in> set (program lib boot_with ofl args)"
  shows "\<exists>s cfg restCfg opts load. init lib = Registered s \<and> parseFlags ofl args = FlagOK cfg
    \<and> Recognizes lib s GroupVersion ''Ray'' = Some RayType \<and> Recognizes lib s GroupVersion ''RayList'' = Some RayListType
    \<and> managerTLSOptions (boot_tls (boot_with s)) 10 (restCfg\<lparr>rc_Timeout := 10\<rparr>) (enableHTTP2 cfg) = (Inr opts, load)
    \<and> \<not> context_done False False ctx \<and> (\<forall>cancelled. context_done True cancelled ctx)
    \<and> (load_Watchable load \<longleftrightarrow> (\<exists>w. RegisterWatcher w \<in> set (program lib boot_with ofl args)))
    \<and> (\<forall>w c. RegisterWatcher w \<in> set (program lib boot_with ofl args) \<longrightarrow>
          InitialTLSProfileSpec w = load_Spec load \<and> InitialTLSAdherencePolicy w = load_AdherencePolicy load
          \<and> context_done False (OnProfileChange w c) ctx \<and> context_done False (OnAdherencePolicyChange w c) ctx)"
proof -
  obtain s cfg restCfg opts load where p: "init lib = Registered s" "parseFlags ofl args = FlagOK cfg"
    "startup_ok (boot_with s) cfg restCfg opts load"
    and run: "program lib boot_with ofl args = started_run (boot_with s) cfg restCfg opts load"
    using assms(2) by (rule program_started)
  note ctx = started_run_context [OF assms(2) [unfolded run]]
  have "\<not> context_done False False ctx \<and> (\<forall>cancelled. context_done True cancelled ctx)" by (simp add: ctx)
  moreover have "load_Watchable load \<longleftrightarrow> (\<exists>w. RegisterWatcher w \<in> set (program lib boot_with ofl args))"
    unfolding run started_run_watchers by blast
  moreover have "\<forall>w c. RegisterWatcher w \<in> set (program lib boot_with ofl args) \<longrightarrow>
      InitialTLSProfileSpec w = load_Spec load \<and> InitialTLSAdherencePolicy w = load_AdherencePolicy load
      \<and> context_done False (OnProfileChange w c) ctx \<and> context_done False (OnAdherencePolicyChange w c) ctx"
    unfolding run started_run_watchers by (simp add: newTLSProfileWatcher_def ctx)
  ultimately show ?thesis using p init_knows [OF assms(1) p(1)] unfolding startup_ok_def by blast
qed


section \<open>Witnesses\<close>

lemma sample_program:
  "StartManager (WithCancel SignalContext) \<in> set (program sample_schemes (\<lambda>s. sample_boot) sample_flags sample_args)"
proof -
  obtain s1 s2 s3 where g: "clientgo_AddToScheme sample_schemes (NewScheme sample_schemes) = Registered s1"
    "apiextensions_AddToScheme sample_schemes s1 = Registered s2" "config_AddToScheme sample_schemes s2 = Registered s3"
    "\<forall>k. Recognizes sample_schemes s3 SchemeGroupVersion k = None"
    using sample_groups by blast
  obtain s where "Must (AddToScheme sample_schemes s3) = Registered s"
    using own_types.must_fresh [OF sample_schemes_lawful g(4)] by blast
  with g have "init sample_schemes = Registered s" by (simp add: init_def)
  then show ?thesis
    by (simp add: program_def main_def sample_parse sample_boot_def sample_tls_def managerTLSOptions_def start_steps)
qed

theorem program_reloads_tls_witness:
  "\<exists>s. init sample_schemes = Registered s \<and> Recognizes sample_schemes s GroupVersion ''Ray'' = Some RayType
     \<and> context_done True False (WithCancel SignalContext)"
  using program_reloads_tls [OF sample_schemes_lawful sample_program] by blast


end
