(* ===== verification/Deep_Copy.thy ===== *)
theory Deep_Copy
  imports Ray_Types
begin

text \<open>
  \<^verbatim>\<open>zz_generated.deepcopy.go\<close>: the copies that controllers and caches make of the custom resource.
  Here aliasing is the point, so the Go values are modelled over an explicit heap: a struct is a record
  whose slices and pointers are addresses (\<open>None\<close> for nil), a heap is the list of its cells, and
  allocation appends one. An abstraction function reads a Go value off the heap as a value of
  \<open>Ray_Types\<close>. The contract of a deep copy is the locale \<open>deep_copier\<close>: the copy reads as the original
  did, every address in it is new, and the cells that were there are untouched. The copies of the
  embedded types (\<^verbatim>\<open>ObjectMeta\<close>, the framework's \<^verbatim>\<open>Status\<close> and
  \<^verbatim>\<open>ComponentReleaseStatus\<close>, \<^verbatim>\<open>ListMeta\<close>) are other packages' code and a parameter.
\<close>

section \<open>The heap\<close>

record go_meta =
  gm_Name :: string
  gm_UID :: string
  gm_Generation :: int
  gm_Finalizers :: "nat option"
  gm_DeletionTimestamp :: "nat option"

record go_status =
  gs_Phase :: string
  gs_ObservedGeneration :: int
  gs_Conditions :: "nat option"

record go_releases =
  gr_Releases :: "nat option"

record go_ray_status =
  gy_Status :: go_status
  gy_Releases :: go_releases
  gy_Distribution :: distribution

record go_ray =
  g_TypeMeta :: "string \<times> string"
  g_ObjectMeta :: go_meta
  g_Spec :: ray_spec
  g_Status :: go_ray_status

datatype cell =
    CStrings "string list"
  | CTime nat
  | CInt int
  | CConditions "condition list"
  | CReleases "component_release list"
  | CRays "go_ray list"

type_synonym heap = "cell list"

record go_list_meta =
  glm_ResourceVersion :: string
  glm_RemainingItemCount :: "nat option"

record go_ray_list =
  gl_TypeMeta :: "string \<times> string"
  gl_ListMeta :: go_list_meta
  gl_Items :: "nat option"

text \<open>Reading a cell; a nil slice reads as the empty one.\<close>

definition strings_at :: "heap \<Rightarrow> nat option \<Rightarrow> string list" where
  "strings_at h p = (case p of None \<Rightarrow> [] | Some a \<Rightarrow> (case h ! a of CStrings xs \<Rightarrow> xs | _ \<Rightarrow> []))"

definition time_at :: "heap \<Rightarrow> nat option \<Rightarrow> nat option" where
  "time_at h p = (case p of None \<Rightarrow> None | Some a \<Rightarrow> (case h ! a of CTime t \<Rightarrow> Some t | _ \<Rightarrow> None))"

definition int_at :: "heap \<Rightarrow> nat option \<Rightarrow> int option" where
  "int_at h p = (case p of None \<Rightarrow> None | Some a \<Rightarrow> (case h ! a of CInt n \<Rightarrow> Some n | _ \<Rightarrow> None))"

definition conditions_at :: "heap \<Rightarrow> nat option \<Rightarrow> condition list" where
  "conditions_at h p = (case p of None \<Rightarrow> [] | Some a \<Rightarrow> (case h ! a of CConditions xs \<Rightarrow> xs | _ \<Rightarrow> []))"

definition releases_at :: "heap \<Rightarrow> nat option \<Rightarrow> component_release list" where
  "releases_at h p = (case p of None \<Rightarrow> [] | Some a \<Rightarrow> (case h ! a of CReleases xs \<Rightarrow> xs | _ \<Rightarrow> []))"

definition rays_at :: "heap \<Rightarrow> nat option \<Rightarrow> go_ray list" where
  "rays_at h p = (case p of None \<Rightarrow> [] | Some a \<Rightarrow> (case h ! a of CRays xs \<Rightarrow> xs | _ \<Rightarrow> []))"

section \<open>What a Go value means, and the addresses in it\<close>

definition opt_refs :: "nat option \<Rightarrow> nat set" where
  "opt_refs p = (case p of None \<Rightarrow> {} | Some a \<Rightarrow> {a})"

definition abs_meta :: "heap \<Rightarrow> go_meta \<Rightarrow> string \<times> string \<times> int \<times> string list \<times> nat option" where
  "abs_meta h m =
     (gm_Name m, gm_UID m, gm_Generation m, strings_at h (gm_Finalizers m), time_at h (gm_DeletionTimestamp m))"

definition refs_meta :: "heap \<Rightarrow> go_meta \<Rightarrow> nat set" where
  "refs_meta h m = opt_refs (gm_Finalizers m) \<union> opt_refs (gm_DeletionTimestamp m)"

definition abs_status :: "heap \<Rightarrow> go_status \<Rightarrow> string \<times> int \<times> condition list" where
  "abs_status h s = (gs_Phase s, gs_ObservedGeneration s, conditions_at h (gs_Conditions s))"

definition refs_status :: "heap \<Rightarrow> go_status \<Rightarrow> nat set" where
  "refs_status h s = opt_refs (gs_Conditions s)"

definition abs_releases :: "heap \<Rightarrow> go_releases \<Rightarrow> component_release list" where
  "abs_releases h r = releases_at h (gr_Releases r)"

definition refs_releases :: "heap \<Rightarrow> go_releases \<Rightarrow> nat set" where
  "refs_releases h r = opt_refs (gr_Releases r)"

definition abs_ray_status :: "heap \<Rightarrow> go_ray_status \<Rightarrow> ray_status" where
  "abs_ray_status h s =
     (case abs_status h (gy_Status s) of (phase, gen, conds) \<Rightarrow>
        \<lparr>Phase = phase, ObservedGeneration = gen, Conditions = conds,
         Releases = abs_releases h (gy_Releases s), Distribution = gy_Distribution s\<rparr>)"

definition refs_ray_status :: "heap \<Rightarrow> go_ray_status \<Rightarrow> nat set" where
  "refs_ray_status h s = refs_status h (gy_Status s) \<union> refs_releases h (gy_Releases s)"

definition abs_ray :: "heap \<Rightarrow> go_ray \<Rightarrow> (string \<times> string) \<times> ray" where
  "abs_ray h g =
     (case abs_meta h (g_ObjectMeta g) of (name, uid, gen, fins, del) \<Rightarrow>
        (g_TypeMeta g,
         \<lparr>meta_Name = name, meta_UID = uid, meta_Generation = gen, meta_Finalizers = fins,
          meta_DeletionTimestamp = del, Spec = g_Spec g, Status = abs_ray_status h (g_Status g)\<rparr>))"

definition refs_ray :: "heap \<Rightarrow> go_ray \<Rightarrow> nat set" where
  "refs_ray h g = refs_meta h (g_ObjectMeta g) \<union> refs_ray_status h (g_Status g)"

definition abs_list_meta :: "heap \<Rightarrow> go_list_meta \<Rightarrow> string \<times> int option" where
  "abs_list_meta h m = (glm_ResourceVersion m, int_at h (glm_RemainingItemCount m))"

definition refs_list_meta :: "heap \<Rightarrow> go_list_meta \<Rightarrow> nat set" where
  "refs_list_meta h m = opt_refs (glm_RemainingItemCount m)"

definition abs_items :: "heap \<Rightarrow> nat option \<Rightarrow> ((string \<times> string) \<times> ray) list option" where
  "abs_items h p = (case p of None \<Rightarrow> None | Some a \<Rightarrow> Some (map (abs_ray h) (rays_at h p)))"

definition refs_items :: "heap \<Rightarrow> nat option \<Rightarrow> nat set" where
  "refs_items h p = opt_refs p \<union> (\<Union>g \<in> set (rays_at h p). refs_ray h g)"

definition abs_list :: "heap \<Rightarrow> go_ray_list \<Rightarrow> (string \<times> string) \<times> (string \<times> int option) \<times> ((string \<times> string) \<times> ray) list option" where
  "abs_list h l = (gl_TypeMeta l, abs_list_meta h (gl_ListMeta l), abs_items h (gl_Items l))"

definition refs_list :: "heap \<Rightarrow> go_ray_list \<Rightarrow> nat set" where
  "refs_list h l = refs_list_meta h (gl_ListMeta l) \<union> refs_items h (gl_Items l)"

section \<open>The copies\<close>

text \<open>The copies of the embedded types: from a value and a heap to the copy and the heap after.\<close>

record copy_library =
  ObjectMeta_DeepCopyInto :: "go_meta \<Rightarrow> heap \<Rightarrow> go_meta \<times> heap"
  Status_DeepCopyInto :: "go_status \<Rightarrow> heap \<Rightarrow> go_status \<times> heap"
  ComponentReleaseStatus_DeepCopyInto :: "go_releases \<Rightarrow> heap \<Rightarrow> go_releases \<times> heap"
  ListMeta_DeepCopyInto :: "go_list_meta \<Rightarrow> heap \<Rightarrow> go_list_meta \<times> heap"

definition Distribution_DeepCopyInto :: "distribution \<Rightarrow> heap \<Rightarrow> distribution \<times> heap" where
  "Distribution_DeepCopyInto in' h = (in', h)"

definition RaySpec_DeepCopyInto :: "ray_spec \<Rightarrow> heap \<Rightarrow> ray_spec \<times> heap" where
  "RaySpec_DeepCopyInto in' h = (let out = in' in (out\<lparr>ManagementState := ManagementState in'\<rparr>, h))"

text \<open>Each starts from the shallow copy \<^verbatim>\<open>*out = *in\<close> and replaces what holds references.\<close>

definition RayStatus_DeepCopyInto ::
  "copy_library \<Rightarrow> go_ray_status \<Rightarrow> heap \<Rightarrow> go_ray_status \<times> heap" where
  "RayStatus_DeepCopyInto lib in' h =
     (let out = in' in
      case Status_DeepCopyInto lib (gy_Status in') h of (s, h1) \<Rightarrow>
      case ComponentReleaseStatus_DeepCopyInto lib (gy_Releases in') h1 of (rs, h2) \<Rightarrow>
        (out\<lparr>gy_Status := s, gy_Releases := rs, gy_Distribution := gy_Distribution in'\<rparr>, h2))"

definition Ray_DeepCopyInto :: "copy_library \<Rightarrow> go_ray \<Rightarrow> heap \<Rightarrow> go_ray \<times> heap" where
  "Ray_DeepCopyInto lib in' h =
     (let out = in'\<lparr>g_TypeMeta := g_TypeMeta in'\<rparr> in
      case ObjectMeta_DeepCopyInto lib (g_ObjectMeta in') h of (m, h1) \<Rightarrow>
      case RayStatus_DeepCopyInto lib (g_Status in') h1 of (s, h2) \<Rightarrow>
        (out\<lparr>g_ObjectMeta := m, g_Spec := g_Spec in', g_Status := s\<rparr>, h2))"

definition zero_ray :: go_ray where
  "zero_ray =
     \<lparr>g_TypeMeta = ([], []),
      g_ObjectMeta = \<lparr>gm_Name = [], gm_UID = [], gm_Generation = 0, gm_Finalizers = None, gm_DeletionTimestamp = None\<rparr>,
      g_Spec = \<lparr>ManagementState = MState [], ApplicationsNamespace = []\<rparr>,
      g_Status = \<lparr>gy_Status = \<lparr>gs_Phase = [], gs_ObservedGeneration = 0, gs_Conditions = None\<rparr>,
                  gy_Releases = \<lparr>gr_Releases = None\<rparr>, gy_Distribution = \<lparr>dist_Name = [], dist_Version = []\<rparr>\<rparr>\<rparr>"

text \<open>
  The loop over the items: the array of the copy is a cell of zero values, and iteration \<open>i\<close> copies
  item \<open>i\<close> of the original array into its place.
\<close>

fun items_loop :: "copy_library \<Rightarrow> nat \<Rightarrow> nat \<Rightarrow> go_ray list \<Rightarrow> heap \<Rightarrow> heap" where
  "items_loop lib a i [] h = h"
| "items_loop lib a i (x # xs) h =
     (case Ray_DeepCopyInto lib x h of (y, h') \<Rightarrow>
        items_loop lib a (Suc i) xs (h'[a := CRays ((rays_at h' (Some a))[i := y])]))"

definition copy_items :: "copy_library \<Rightarrow> nat option \<Rightarrow> heap \<Rightarrow> nat option \<times> heap" where
  "copy_items lib in' h =
     (if in' \<noteq> None
      then (let items = rays_at h in';
                a = length h;
                h1 = h @ [CRays (replicate (length items) zero_ray)]
            in (Some a, items_loop lib a 0 items h1))
      else (None, h))"

definition RayList_DeepCopyInto :: "copy_library \<Rightarrow> go_ray_list \<Rightarrow> heap \<Rightarrow> go_ray_list \<times> heap" where
  "RayList_DeepCopyInto lib in' h =
     (let out = in'\<lparr>gl_TypeMeta := gl_TypeMeta in'\<rparr> in
      case ListMeta_DeepCopyInto lib (gl_ListMeta in') h of (m, h1) \<Rightarrow>
      case copy_items lib (gl_Items in') h1 of (items, h2) \<Rightarrow>
        (out\<lparr>gl_ListMeta := m, gl_Items := items\<rparr>, h2))"

text \<open>
  \<^verbatim>\<open>DeepCopy\<close> of a pointer: nil stays nil, otherwise a new struct; \<^verbatim>\<open>DeepCopyObject\<close> passes the
  pointer on as an interface, nil as a nil interface.
\<close>

definition DeepCopy :: "('a \<Rightarrow> heap \<Rightarrow> 'a \<times> heap) \<Rightarrow> 'a option \<Rightarrow> heap \<Rightarrow> 'a option \<times> heap" where
  "DeepCopy into in' h =
     (case in' of None \<Rightarrow> (None, h) | Some x \<Rightarrow> (case into x h of (out, h') \<Rightarrow> (Some out, h')))"

definition Distribution_DeepCopy :: "distribution option \<Rightarrow> heap \<Rightarrow> distribution option \<times> heap" where
  "Distribution_DeepCopy = DeepCopy Distribution_DeepCopyInto"

definition RaySpec_DeepCopy :: "ray_spec option \<Rightarrow> heap \<Rightarrow> ray_spec option \<times> heap" where
  "RaySpec_DeepCopy = DeepCopy RaySpec_DeepCopyInto"

definition RayStatus_DeepCopy :: "copy_library \<Rightarrow> go_ray_status option \<Rightarrow> heap \<Rightarrow> go_ray_status option \<times> heap" where
  "RayStatus_DeepCopy lib = DeepCopy (RayStatus_DeepCopyInto lib)"

definition Ray_DeepCopy :: "copy_library \<Rightarrow> go_ray option \<Rightarrow> heap \<Rightarrow> go_ray option \<times> heap" where
  "Ray_DeepCopy lib = DeepCopy (Ray_DeepCopyInto lib)"

definition RayList_DeepCopy :: "copy_library \<Rightarrow> go_ray_list option \<Rightarrow> heap \<Rightarrow> go_ray_list option \<times> heap" where
  "RayList_DeepCopy lib = DeepCopy (RayList_DeepCopyInto lib)"

definition Ray_DeepCopyObject :: "copy_library \<Rightarrow> go_ray option \<Rightarrow> heap \<Rightarrow> go_ray option \<times> heap" where
  "Ray_DeepCopyObject lib in' h =
     (case Ray_DeepCopy lib in' h of (c, h') \<Rightarrow> (case c of Some x \<Rightarrow> (Some x, h') | None \<Rightarrow> (None, h')))"

definition RayList_DeepCopyObject ::
  "copy_library \<Rightarrow> go_ray_list option \<Rightarrow> heap \<Rightarrow> go_ray_list option \<times> heap" where
  "RayList_DeepCopyObject lib in' h =
     (case RayList_DeepCopy lib in' h of (c, h') \<Rightarrow> (case c of Some x \<Rightarrow> (Some x, h') | None \<Rightarrow> (None, h')))"

section \<open>The contract of a deep copy\<close>

definition agree_on :: "nat set \<Rightarrow> heap \<Rightarrow> heap \<Rightarrow> bool" where
  "agree_on A h h' = (\<forall>a \<in> A. h' ! a = h ! a)"

definition deep_law ::
  "('a \<Rightarrow> heap \<Rightarrow> 'a \<times> heap) \<Rightarrow> (heap \<Rightarrow> 'a \<Rightarrow> 'b) \<Rightarrow> (heap \<Rightarrow> 'a \<Rightarrow> nat set) \<Rightarrow> bool" where
  "deep_law copy val refs =
     (\<forall>x h y h'. refs h x \<subseteq> {..<length h} \<longrightarrow> copy x h = (y, h') \<longrightarrow>
        (\<exists>new. h' = h @ new) \<and> val h' y = val h x \<and> refs h' y \<subseteq> {length h..<length h'})"

lemma deep_lawD:
  assumes "deep_law copy val refs" and "refs h x \<subseteq> {..<length h}" and "copy x h = (y, h')"
  shows "\<exists>new. h' = h @ new" and "val h' y = val h x" and "refs h' y \<subseteq> {length h..<length h'}"
  using assms unfolding deep_law_def by blast+

definition reads_refs :: "(heap \<Rightarrow> 'a \<Rightarrow> 'b) \<Rightarrow> (heap \<Rightarrow> 'a \<Rightarrow> nat set) \<Rightarrow> bool" where
  "reads_refs val refs =
     (\<forall>x h h'. agree_on (refs h x) h h' \<longrightarrow> val h' x = val h x \<and> refs h' x = refs h x)"

text \<open>The documented behaviour of the other packages' copies.\<close>

definition copies_lawful :: "copy_library \<Rightarrow> bool" where
  "copies_lawful lib =
     (deep_law (ObjectMeta_DeepCopyInto lib) abs_meta refs_meta
      \<and> deep_law (Status_DeepCopyInto lib) abs_status refs_status
      \<and> deep_law (ComponentReleaseStatus_DeepCopyInto lib) abs_releases refs_releases
      \<and> deep_law (ListMeta_DeepCopyInto lib) abs_list_meta refs_list_meta)"

text \<open>
  What a copy \<open>y\<close> in \<open>h'\<close> of \<open>x\<close> in \<open>h\<close> promises: it reads as the original, the original is as it was,
  its addresses are all new, and no write through either is seen by the other.
\<close>

definition independent_copy ::
  "(heap \<Rightarrow> 'a \<Rightarrow> 'b) \<Rightarrow> (heap \<Rightarrow> 'a \<Rightarrow> nat set) \<Rightarrow> heap \<Rightarrow> 'a \<Rightarrow> heap \<Rightarrow> 'a \<Rightarrow> bool" where
  "independent_copy val refs h x h' y =
     (val h' y = val h x \<and> val h' x = val h x \<and> refs h' y \<inter> {..<length h} = {}
      \<and> (\<forall>c. \<forall>a < length h. val (h'[a := c]) y = val h x)
      \<and> (\<forall>c. \<forall>a \<in> refs h' y. val (h'[a := c]) x = val h x))"

locale deep_copier =
  fixes ok :: bool
    and copy :: "'a \<Rightarrow> heap \<Rightarrow> 'a \<times> heap"
    and val :: "heap \<Rightarrow> 'a \<Rightarrow> 'b"
    and refs :: "heap \<Rightarrow> 'a \<Rightarrow> nat set"
  assumes law: "ok \<Longrightarrow> deep_law copy val refs"
    and locality: "reads_refs val refs"
begin

lemma copy_reads:
  assumes ok and "refs h x \<subseteq> {..<length h}" and "copy x h = (y, h')"
  shows "\<exists>new. h' = h @ new" and "val h' y = val h x" and "refs h' y \<subseteq> {length h..<length h'}"
  by (rule deep_lawD [OF law [OF assms(1)] assms(2,3)])+

lemma original_kept:
  assumes ok and "refs h x \<subseteq> {..<length h}" and "copy x h = (y, h')"
  shows "val h' x = val h x" and "refs h' x = refs h x"
proof -
  obtain new where "h' = h @ new" using copy_reads(1) [OF assms] by blast
  then have "agree_on (refs h x) h h'" using assms(2) by (auto simp: agree_on_def nth_append)
  then show "val h' x = val h x" and "refs h' x = refs h x" using locality unfolding reads_refs_def by blast+
qed

text \<open>Neither side sees a write through the other.\<close>

lemma write_to_original:
  assumes ok and "refs h x \<subseteq> {..<length h}" and "copy x h = (y, h')" and "a < length h"
  shows "val (h'[a := c]) y = val h x"
proof -
  have "agree_on (refs h' y) h' (h'[a := c])"
    using copy_reads(3) [OF assms(1-3)] assms(4) by (auto simp: agree_on_def nth_list_update)
  then have "val (h'[a := c]) y = val h' y" using locality unfolding reads_refs_def by blast
  with copy_reads(2) [OF assms(1-3)] show ?thesis by simp
qed

lemma write_to_copy:
  assumes ok and "refs h x \<subseteq> {..<length h}" and "copy x h = (y, h')" and "a \<in> refs h' y"
  shows "val (h'[a := c]) x = val h x"
proof -
  have "length h \<le> a" using copy_reads(3) [OF assms(1-3)] assms(4) by auto
  then have "agree_on (refs h' x) h' (h'[a := c])"
    using original_kept(2) [OF assms(1-3)] assms(2) by (auto simp: agree_on_def)
  then have "val (h'[a := c]) x = val h' x" using locality unfolding reads_refs_def by blast
  with original_kept(1) [OF assms(1-3)] show ?thesis by simp
qed

text \<open>All of it, for the pointer version.\<close>

lemma pointer_copy:
  assumes ok and "refs h x \<subseteq> {..<length h}"
  shows "\<exists>y h'. DeepCopy copy (Some x) h = (Some y, h') \<and> independent_copy val refs h x h' y"
proof -
  obtain y h' where c: "copy x h = (y, h')" by (cases "copy x h")
  note a = assms c
  have "refs h' y \<inter> {..<length h} = {}" using copy_reads(3) [OF a] by auto
  then have "independent_copy val refs h x h' y"
    unfolding independent_copy_def
    using copy_reads(2) [OF a] original_kept(1) [OF a] write_to_original [OF a] write_to_copy [OF a] by blast
  with c show ?thesis by (auto simp: DeepCopy_def)
qed

end

section \<open>Lemmas\<close>

lemmas cell_reads = strings_at_def time_at_def int_at_def conditions_at_def releases_at_def opt_refs_def

lemma agree_on_Un [simp]: "agree_on (A \<union> B) h h' \<longleftrightarrow> agree_on A h h' \<and> agree_on B h h'"
  by (auto simp: agree_on_def)

lemma reads_meta: "reads_refs abs_meta refs_meta"
  and reads_status: "reads_refs abs_status refs_status"
  and reads_releases: "reads_refs abs_releases refs_releases"
  and reads_list_meta: "reads_refs abs_list_meta refs_list_meta"
  by (auto simp: reads_refs_def agree_on_def abs_meta_def refs_meta_def abs_status_def refs_status_def
      abs_releases_def refs_releases_def abs_list_meta_def refs_list_meta_def cell_reads split: option.splits)

lemma reads_ray_status: "reads_refs abs_ray_status refs_ray_status"
  unfolding reads_refs_def
proof (intro allI impI)
  fix x h h'
  assume a: "agree_on (refs_ray_status h x) h h'"
  have "abs_status h' (gy_Status x) = abs_status h (gy_Status x) \<and> refs_status h' (gy_Status x) = refs_status h (gy_Status x)"
    using a reads_status by (simp add: refs_ray_status_def reads_refs_def)
  moreover have "abs_releases h' (gy_Releases x) = abs_releases h (gy_Releases x)
      \<and> refs_releases h' (gy_Releases x) = refs_releases h (gy_Releases x)"
    using a reads_releases by (simp add: refs_ray_status_def reads_refs_def)
  ultimately show "abs_ray_status h' x = abs_ray_status h x \<and> refs_ray_status h' x = refs_ray_status h x"
    by (simp only: abs_ray_status_def refs_ray_status_def simp_thms)
qed

lemma reads_ray: "reads_refs abs_ray refs_ray"
  unfolding reads_refs_def
proof (intro allI impI)
  fix x h h'
  assume a: "agree_on (refs_ray h x) h h'"
  have "abs_meta h' (g_ObjectMeta x) = abs_meta h (g_ObjectMeta x) \<and> refs_meta h' (g_ObjectMeta x) = refs_meta h (g_ObjectMeta x)"
    using a reads_meta by (simp add: refs_ray_def reads_refs_def)
  moreover have "abs_ray_status h' (g_Status x) = abs_ray_status h (g_Status x)
      \<and> refs_ray_status h' (g_Status x) = refs_ray_status h (g_Status x)"
    using a reads_ray_status by (simp add: refs_ray_def reads_refs_def)
  ultimately show "abs_ray h' x = abs_ray h x \<and> refs_ray h' x = refs_ray h x"
    by (simp only: abs_ray_def refs_ray_def simp_thms)
qed

text \<open>The pointer that \<^verbatim>\<open>GetStatus\<close> returns is to the embedded status, read through the heap.\<close>

lemma GetStatus_abs: "GetStatus (snd (abs_ray h g)) = abs_status h (gy_Status (g_Status g))"
  by (simp add: GetStatus_def abs_ray_def abs_ray_status_def abs_meta_def abs_status_def)

lemma refs_ray_heap: "refs_ray h g = refs_ray h' g"
  by (simp add: refs_ray_def refs_meta_def refs_ray_status_def refs_status_def refs_releases_def)

lemma abs_ray_agree: "agree_on (refs_ray h g) h h' \<Longrightarrow> abs_ray h' g = abs_ray h g"
  using reads_ray unfolding reads_refs_def by blast

text \<open>Two copies one after the other make a copy of the pair.\<close>

lemma deep_law_both:
  assumes "deep_law f af rf" and "deep_law g ag rg" and "reads_refs af rf" and "reads_refs ag rg"
    and "rf h x \<subseteq> {..<length h}" and "rg h z \<subseteq> {..<length h}"
    and "f x h = (y, h1)" and "g z h1 = (u, h2)"
  shows "\<exists>new. h2 = h @ new" and "af h2 y = af h x" and "ag h2 u = ag h z"
    and "rf h2 y \<subseteq> {length h..<length h2}" and "rg h2 u \<subseteq> {length h..<length h2}"
proof -
  obtain n1 where 1: "h1 = h @ n1" "af h1 y = af h x" "rf h1 y \<subseteq> {length h..<length h1}"
    using deep_lawD [OF assms(1,5,7)] by blast
  have "agree_on (rg h z) h h1" using assms(6) 1(1) by (auto simp: agree_on_def nth_append)
  then have z: "ag h1 z = ag h z" "rg h1 z = rg h z" using assms(4) unfolding reads_refs_def by blast+
  have "rg h1 z \<subseteq> {..<length h1}" using assms(6) z(2) 1(1) by auto
  then obtain n2 where 2: "h2 = h1 @ n2" "ag h2 u = ag h1 z" "rg h2 u \<subseteq> {length h1..<length h2}"
    using deep_lawD [OF assms(2) _ assms(8)] by blast
  have "agree_on (rf h1 y) h1 h2" using 1(3) 2(1) by (auto simp: agree_on_def nth_append)
  then have y: "af h2 y = af h1 y" "rf h2 y = rf h1 y" using assms(3) unfolding reads_refs_def by blast+
  show "\<exists>new. h2 = h @ new" using 1(1) 2(1) by simp
  show "af h2 y = af h x" using y(1) 1(2) by simp
  show "ag h2 u = ag h z" using 2(2) z(1) by simp
  show "rf h2 y \<subseteq> {length h..<length h2}" "rg h2 u \<subseteq> {length h..<length h2}"
    unfolding y(2) using 1(1,3) 2(1,3) by fastforce+
qed

lemma ray_status_law:
  assumes "copies_lawful lib"
  shows "deep_law (RayStatus_DeepCopyInto lib) abs_ray_status refs_ray_status"
  unfolding deep_law_def
proof (intro allI impI)
  fix x h y h'
  assume r: "refs_ray_status h x \<subseteq> {..<length h}" and c: "RayStatus_DeepCopyInto lib x h = (y, h')"
  obtain s h1 where s: "Status_DeepCopyInto lib (gy_Status x) h = (s, h1)"
    by (cases "Status_DeepCopyInto lib (gy_Status x) h")
  obtain rs h2 where rs: "ComponentReleaseStatus_DeepCopyInto lib (gy_Releases x) h1 = (rs, h2)"
    by (cases "ComponentReleaseStatus_DeepCopyInto lib (gy_Releases x) h1")
  have y: "y = x\<lparr>gy_Status := s, gy_Releases := rs\<rparr>" "h' = h2"
    using c s rs by (simp_all add: RayStatus_DeepCopyInto_def)
  have laws: "deep_law (Status_DeepCopyInto lib) abs_status refs_status"
    "deep_law (ComponentReleaseStatus_DeepCopyInto lib) abs_releases refs_releases"
    using assms by (simp_all add: copies_lawful_def)
  have "refs_status h (gy_Status x) \<subseteq> {..<length h}" "refs_releases h (gy_Releases x) \<subseteq> {..<length h}"
    using r by (simp_all add: refs_ray_status_def)
  from deep_law_both [OF laws reads_status reads_releases this s rs]
  show "(\<exists>new. h' = h @ new) \<and> abs_ray_status h' y = abs_ray_status h x
      \<and> refs_ray_status h' y \<subseteq> {length h..<length h'}"
    by (simp add: y abs_ray_status_def refs_ray_status_def)
qed

lemma ray_law:
  assumes "copies_lawful lib"
  shows "deep_law (Ray_DeepCopyInto lib) abs_ray refs_ray"
  unfolding deep_law_def
proof (intro allI impI)
  fix x h y h'
  assume r: "refs_ray h x \<subseteq> {..<length h}" and c: "Ray_DeepCopyInto lib x h = (y, h')"
  obtain m h1 where m: "ObjectMeta_DeepCopyInto lib (g_ObjectMeta x) h = (m, h1)"
    by (cases "ObjectMeta_DeepCopyInto lib (g_ObjectMeta x) h")
  obtain s h2 where s: "RayStatus_DeepCopyInto lib (g_Status x) h1 = (s, h2)"
    by (cases "RayStatus_DeepCopyInto lib (g_Status x) h1")
  have y: "y = x\<lparr>g_ObjectMeta := m, g_Status := s\<rparr>" "h' = h2"
    using c m s by (simp_all add: Ray_DeepCopyInto_def)
  have law: "deep_law (ObjectMeta_DeepCopyInto lib) abs_meta refs_meta"
    using assms by (simp add: copies_lawful_def)
  have "refs_meta h (g_ObjectMeta x) \<subseteq> {..<length h}" "refs_ray_status h (g_Status x) \<subseteq> {..<length h}"
    using r by (simp_all add: refs_ray_def)
  from deep_law_both [OF law ray_status_law [OF assms] reads_meta reads_ray_status this m s]
  show "(\<exists>new. h' = h @ new) \<and> abs_ray h' y = abs_ray h x \<and> refs_ray h' y \<subseteq> {length h..<length h'}"
    by (simp add: y abs_ray_def refs_ray_def)
qed

interpretation distribution_copy: deep_copier True Distribution_DeepCopyInto "\<lambda>h d. d" "\<lambda>h d. {}"
  by unfold_locales (simp_all add: deep_law_def reads_refs_def Distribution_DeepCopyInto_def)

interpretation spec_copy: deep_copier True RaySpec_DeepCopyInto "\<lambda>h s. s" "\<lambda>h s. {}"
  by unfold_locales (simp_all add: deep_law_def reads_refs_def RaySpec_DeepCopyInto_def)

interpretation status_copy:
  deep_copier "copies_lawful lib" "RayStatus_DeepCopyInto lib" abs_ray_status refs_ray_status for lib
  by unfold_locales (rule ray_status_law, assumption, rule reads_ray_status)

interpretation ray_copy: deep_copier "copies_lawful lib" "Ray_DeepCopyInto lib" abs_ray refs_ray for lib
  by unfold_locales (rule ray_law, assumption, rule reads_ray)

text \<open>
  The loop over the items: what is written so far stays, every further item is a copy of its original,
  and nothing but the array of the copy changes.
\<close>

lemma items_loop_copies:
  assumes "copies_lawful lib" and "h = h0 @ CRays ys # new" and "i + length xs = length ys"
    and "\<forall>x \<in> set xs. refs_ray h0 x \<subseteq> {..<length h0}"
    and "H = items_loop lib (length h0) i xs h"
  shows "\<exists>ys' new'. H = h0 @ CRays ys' # new @ new' \<and> length ys' = length ys \<and> take i ys' = take i ys
     \<and> (\<forall>j < length xs. abs_ray H (ys' ! (i + j)) = abs_ray h0 (xs ! j)
          \<and> refs_ray H (ys' ! (i + j)) \<subseteq> {length h0<..<length H})"
  using assms(2-5)
proof (induction xs arbitrary: i ys new h)
  case Nil
  then show ?case by (intro exI [of _ ys] exI [of _ "[]"]) simp
next
  case (Cons x xs)
  obtain y h' where c: "Ray_DeepCopyInto lib x h = (y, h')" by (cases "Ray_DeepCopyInto lib x h")
  have x0: "refs_ray h0 x \<subseteq> {..<length h0}" using Cons.prems(3) by simp
  then have "agree_on (refs_ray h0 x) h0 h" using Cons.prems(1) by (auto simp: agree_on_def nth_append)
  then have x: "abs_ray h x = abs_ray h0 x" by (rule abs_ray_agree)
  have "refs_ray h x \<subseteq> {..<length h}"
    using x0 Cons.prems(1) unfolding refs_ray_heap [of h x h0] by auto
  from ray_copy.copy_reads [OF assms(1) this c] obtain n1 where h': "h' = h @ n1"
    and y: "abs_ray h' y = abs_ray h x" "refs_ray h' y \<subseteq> {length h..<length h'}" by blast
  have i: "i < length ys" using Cons.prems(2) by simp
  have "h'[length h0 := CRays ((rays_at h' (Some (length h0)))[i := y])] = h0 @ CRays (ys[i := y]) # (new @ n1)"
    by (simp add: h' Cons.prems(1) rays_at_def nth_append list_update_append)
  then have H: "H = items_loop lib (length h0) (Suc i) xs (h0 @ CRays (ys[i := y]) # (new @ n1))"
    using Cons.prems(4) c by simp
  have len: "Suc i + length xs = length (ys[i := y])" using Cons.prems(2) by simp
  have xs: "\<forall>x \<in> set xs. refs_ray h0 x \<subseteq> {..<length h0}" using Cons.prems(3) by simp
  from Cons.IH [OF refl len xs H] obtain ys' n2 where
    H': "H = h0 @ CRays ys' # (new @ n1) @ n2" and l: "length ys' = length ys"
    and t: "take (Suc i) ys' = take (Suc i) (ys[i := y])"
    and r: "\<forall>j < length xs. abs_ray H (ys' ! (Suc i + j)) = abs_ray h0 (xs ! j)
        \<and> refs_ray H (ys' ! (Suc i + j)) \<subseteq> {length h0<..<length H}"
    by auto
  have ti: "take i ys' = take i ys"
    using arg_cong [OF t, of "take i"] by (simp add: take_update_cancel min_def)
  have yi: "ys' ! i = y" using arg_cong [OF t, of "\<lambda>zs. zs ! i"] i l by simp
  have "agree_on (refs_ray h' y) h' H"
    unfolding agree_on_def
  proof
    fix a assume "a \<in> refs_ray h' y"
    then have "length h \<le> a" "a < length h'" using y(2) by auto
    then have "length h0 < a" "a - Suc (length h0) < length (new @ n1)" using Cons.prems(1) h' by auto
    then obtain k where "a = length h0 + Suc k" "k < length (new @ n1)"
      by (metis add_Suc_shift le_add_diff_inverse Suc_leI add.commute add_Suc_right)
    then have "H ! a = (new @ n1) ! k" "h' ! a = (new @ n1) ! k"
      unfolding H' h' Cons.prems(1) by (simp_all add: nth_append del: append_assoc add: append_assoc [symmetric])
    then show "H ! a = h' ! a" by simp
  qed
  from abs_ray_agree [OF this] have "abs_ray H y = abs_ray h0 x" using y(1) x by simp
  moreover have "refs_ray H y \<subseteq> {length h0<..<length H}"
    using y(2) unfolding refs_ray_heap [of H y h'] by (auto simp: H' h' Cons.prems(1))
  ultimately have "\<forall>j < length (x # xs). abs_ray H (ys' ! (i + j)) = abs_ray h0 ((x # xs) ! j)
        \<and> refs_ray H (ys' ! (i + j)) \<subseteq> {length h0<..<length H}"
    using r yi by (auto simp: nth_Cons less_Suc_eq_0_disj split: nat.split)
  with H' l ti show ?case by (intro exI [of _ ys'] exI [of _ "n1 @ n2"]) simp
qed

lemma reads_items: "reads_refs abs_items refs_items"
  unfolding reads_refs_def
proof (intro allI impI)
  fix p h h'
  assume a: "agree_on (refs_items h p) h h'"
  have r: "rays_at h' p = rays_at h p"
    using a by (cases p) (simp_all add: rays_at_def refs_items_def opt_refs_def agree_on_def)
  have "abs_ray h' g = abs_ray h g" if "g \<in> set (rays_at h p)" for g
    using a that by (intro abs_ray_agree) (auto simp: refs_items_def agree_on_def)
  with r show "abs_items h' p = abs_items h p \<and> refs_items h' p = refs_items h p"
    by (cases p) (simp_all add: abs_items_def refs_items_def refs_ray_heap [of h' _ h])
qed

lemma reads_list: "reads_refs abs_list refs_list"
  unfolding reads_refs_def
proof (intro allI impI)
  fix x h h'
  assume a: "agree_on (refs_list h x) h h'"
  have "abs_list_meta h' (gl_ListMeta x) = abs_list_meta h (gl_ListMeta x)
      \<and> refs_list_meta h' (gl_ListMeta x) = refs_list_meta h (gl_ListMeta x)"
    using a reads_list_meta by (simp add: refs_list_def reads_refs_def)
  moreover have "abs_items h' (gl_Items x) = abs_items h (gl_Items x)
      \<and> refs_items h' (gl_Items x) = refs_items h (gl_Items x)"
    using a reads_items by (simp add: refs_list_def reads_refs_def)
  ultimately show "abs_list h' x = abs_list h x \<and> refs_list h' x = refs_list h x"
    by (simp only: abs_list_def refs_list_def simp_thms)
qed

lemma items_law:
  assumes "copies_lawful lib"
  shows "deep_law (copy_items lib) abs_items refs_items"
  unfolding deep_law_def
proof (intro allI impI)
  fix p h q h'
  assume r: "refs_items h p \<subseteq> {..<length h}" and c: "copy_items lib p h = (q, h')"
  show "(\<exists>new. h' = h @ new) \<and> abs_items h' q = abs_items h p \<and> refs_items h' q \<subseteq> {length h..<length h'}"
  proof (cases p)
    case None
    then show ?thesis using c by (simp add: copy_items_def refs_items_def opt_refs_def rays_at_def)
  next
    case (Some a)
    let ?xs = "rays_at h p"
    have q: "q = Some (length h)"
      and h': "h' = items_loop lib (length h) 0 ?xs (h @ CRays (replicate (length ?xs) zero_ray) # [])"
      using c Some by (simp_all add: copy_items_def Let_def)
    have "\<forall>x \<in> set ?xs. refs_ray h x \<subseteq> {..<length h}" using r by (auto simp: refs_items_def)
    from items_loop_copies [OF assms refl _ this h'] obtain ys new where
      H: "h' = h @ CRays ys # new" "length ys = length ?xs"
      and all: "\<And>j. j < length ?xs \<Longrightarrow> abs_ray h' (ys ! j) = abs_ray h (?xs ! j)
          \<and> refs_ray h' (ys ! j) \<subseteq> {length h<..<length h'}"
      by auto
    have ys: "rays_at h' q = ys" by (simp add: rays_at_def q H(1))
    have "map (abs_ray h') ys = map (abs_ray h) ?xs" using H(2) all by (intro nth_equalityI) simp_all
    moreover have "(\<Union>g \<in> set ys. refs_ray h' g) \<subseteq> {length h<..<length h'}"
      using all H(2) by (fastforce simp: in_set_conv_nth)
    then have "refs_items h' q \<subseteq> {length h..<length h'}"
      unfolding refs_items_def ys by (auto simp: opt_refs_def q H(1) subset_iff)
    ultimately show ?thesis using H(1) ys by (auto simp: abs_items_def q Some)
  qed
qed

lemma list_law:
  assumes "copies_lawful lib"
  shows "deep_law (RayList_DeepCopyInto lib) abs_list refs_list"
  unfolding deep_law_def
proof (intro allI impI)
  fix x h y h'
  assume r: "refs_list h x \<subseteq> {..<length h}" and c: "RayList_DeepCopyInto lib x h = (y, h')"
  obtain m h1 where m: "ListMeta_DeepCopyInto lib (gl_ListMeta x) h = (m, h1)"
    by (cases "ListMeta_DeepCopyInto lib (gl_ListMeta x) h")
  obtain q h2 where q: "copy_items lib (gl_Items x) h1 = (q, h2)"
    by (cases "copy_items lib (gl_Items x) h1")
  have y: "y = x\<lparr>gl_ListMeta := m, gl_Items := q\<rparr>" "h' = h2"
    using c m q by (simp_all add: RayList_DeepCopyInto_def)
  have law: "deep_law (ListMeta_DeepCopyInto lib) abs_list_meta refs_list_meta"
    using assms by (simp add: copies_lawful_def)
  have "refs_list_meta h (gl_ListMeta x) \<subseteq> {..<length h}" "refs_items h (gl_Items x) \<subseteq> {..<length h}"
    using r by (simp_all add: refs_list_def)
  from deep_law_both [OF law items_law [OF assms] reads_list_meta reads_items this m q]
  show "(\<exists>new. h' = h @ new) \<and> abs_list h' y = abs_list h x \<and> refs_list h' y \<subseteq> {length h..<length h'}"
    by (simp add: y abs_list_def refs_list_def)
qed

interpretation list_copy: deep_copier "copies_lawful lib" "RayList_DeepCopyInto lib" abs_list refs_list for lib
  by unfold_locales (rule list_law, assumption, rule reads_list)

section \<open>Properties\<close>

text \<open>An implementation of the embedded types' copies: a new cell for every pointer that is not nil.\<close>

definition dup :: "nat option \<Rightarrow> heap \<Rightarrow> nat option \<times> heap" where
  "dup p h = (case p of None \<Rightarrow> (None, h) | Some a \<Rightarrow> (Some (length h), h @ [h ! a]))"

definition sample_copies :: copy_library where
  "sample_copies =
     \<lparr>ObjectMeta_DeepCopyInto = (\<lambda>m h. case dup (gm_Finalizers m) h of (f, h1) \<Rightarrow>
        case dup (gm_DeletionTimestamp m) h1 of (d, h2) \<Rightarrow> (m\<lparr>gm_Finalizers := f, gm_DeletionTimestamp := d\<rparr>, h2)),
      Status_DeepCopyInto = (\<lambda>s h. case dup (gs_Conditions s) h of (c, h1) \<Rightarrow> (s\<lparr>gs_Conditions := c\<rparr>, h1)),
      ComponentReleaseStatus_DeepCopyInto =
        (\<lambda>r h. case dup (gr_Releases r) h of (c, h1) \<Rightarrow> (r\<lparr>gr_Releases := c\<rparr>, h1)),
      ListMeta_DeepCopyInto =
        (\<lambda>m h. case dup (glm_RemainingItemCount m) h of (c, h1) \<Rightarrow> (m\<lparr>glm_RemainingItemCount := c\<rparr>, h1))\<rparr>"

definition sample_go_ray :: go_ray where
  "sample_go_ray = zero_ray\<lparr>g_ObjectMeta := (g_ObjectMeta zero_ray)\<lparr>gm_Finalizers := Some 0\<rparr>\<rparr>"

definition sample_go_list :: go_ray_list where
  "sample_go_list = \<lparr>gl_TypeMeta = ([], []), gl_ListMeta = \<lparr>glm_ResourceVersion = [], glm_RemainingItemCount = Some 1\<rparr>,
     gl_Items = Some 2\<rparr>"

definition sample_heap :: heap where
  "sample_heap = [CStrings [''platform''], CInt 5, CRays [sample_go_ray, sample_go_ray]]"

lemma sample_copies_lawful: "copies_lawful sample_copies"
  unfolding copies_lawful_def deep_law_def sample_copies_def
  by (auto simp: dup_def abs_meta_def refs_meta_def abs_status_def refs_status_def abs_releases_def
      refs_releases_def abs_list_meta_def refs_list_meta_def cell_reads nth_append
      split: option.splits cell.splits)

lemma DeepCopyObject_passes:
  "Ray_DeepCopyObject lib x h = DeepCopy (Ray_DeepCopyInto lib) x h"
  "RayList_DeepCopyObject lib l h = DeepCopy (RayList_DeepCopyInto lib) l h"
  by (simp_all add: Ray_DeepCopyObject_def RayList_DeepCopyObject_def Ray_DeepCopy_def RayList_DeepCopy_def
      split: prod.split option.split)

lemma sample_heap_closed:
  "refs_ray sample_heap sample_go_ray \<subseteq> {..<length sample_heap}"
  "refs_list sample_heap sample_go_list \<subseteq> {..<length sample_heap}"
  by (simp_all add: sample_heap_def sample_go_ray_def sample_go_list_def zero_ray_def refs_list_def refs_items_def
      rays_at_def refs_ray_def refs_meta_def refs_ray_status_def refs_status_def refs_releases_def
      refs_list_meta_def opt_refs_def)

text \<open>
  C20. A deep copy of a Ray, and of a list of them, refines copying the value: it reads as the
  original, and so do all items of a list; nothing of it is shared with the original, so that a write
  through either is not seen by the other; and nil is copied to nil.
\<close>

theorem deep_copy_refines_value:
  assumes "copies_lawful lib" and "refs_ray h x \<subseteq> {..<length h}" and "refs_list h l \<subseteq> {..<length h}"
  shows "(\<exists>y h'. Ray_DeepCopyObject lib (Some x) h = (Some y, h') \<and> independent_copy abs_ray refs_ray h x h' y)
    \<and> (\<exists>k h'. RayList_DeepCopyObject lib (Some l) h = (Some k, h') \<and> independent_copy abs_list refs_list h l h' k)
    \<and> Ray_DeepCopyObject lib None h = (None, h) \<and> RayList_DeepCopyObject lib None h = (None, h)"
  unfolding DeepCopyObject_passes
  using ray_copy.pointer_copy [OF assms(1,2)] list_copy.pointer_copy [OF assms(1,3)]
  by (simp add: DeepCopy_def)

theorem deep_copy_refines_value_witness:
  "(\<exists>y h'. Ray_DeepCopyObject sample_copies (Some sample_go_ray) sample_heap = (Some y, h')
        \<and> independent_copy abs_ray refs_ray sample_heap sample_go_ray h' y)
    \<and> (\<exists>k h'. RayList_DeepCopyObject sample_copies (Some sample_go_list) sample_heap = (Some k, h')
        \<and> independent_copy abs_list refs_list sample_heap sample_go_list h' k)"
  using deep_copy_refines_value [OF sample_copies_lawful sample_heap_closed] by blast

text \<open>
  The copy of the sample list on the sample heap: a new array whose items each have a finalizer list
  of their own.
\<close>

lemma sample_list_copy:
  "RayList_DeepCopyObject sample_copies (Some sample_go_list) sample_heap =
     (Some (sample_go_list\<lparr>gl_ListMeta := \<lparr>glm_ResourceVersion = [], glm_RemainingItemCount = Some 3\<rparr>, gl_Items := Some 4\<rparr>),
      sample_heap @ [CInt 5,
        CRays [zero_ray\<lparr>g_ObjectMeta := (g_ObjectMeta zero_ray)\<lparr>gm_Finalizers := Some 5\<rparr>\<rparr>,
               zero_ray\<lparr>g_ObjectMeta := (g_ObjectMeta zero_ray)\<lparr>gm_Finalizers := Some 6\<rparr>\<rparr>],
        CStrings [''platform''], CStrings [''platform'']])"
  by (simp add: DeepCopyObject_passes DeepCopy_def RayList_DeepCopyInto_def copy_items_def Ray_DeepCopyInto_def
      RayStatus_DeepCopyInto_def sample_copies_def dup_def sample_go_list_def sample_go_ray_def zero_ray_def
      sample_heap_def rays_at_def)

end
