(* ===== verification/Spec2Isabelle.thy ===== *)
theory Spec2Isabelle
  imports Ray_Controller Manifest_Prep Convergence Installation Ray_Life Call_Bounds Program_Start Deep_Copy
begin

text \<open>
  \<^bold>\<open>The program.\<close> ray-module-operator is a Kubernetes operator in Go that keeps one KubeRay
  installation on a cluster, driven by a single cluster-scoped custom resource, the Ray called
  \<^verbatim>\<open>default-ray\<close>. \<^verbatim>\<open>cmd/main.go\<close> parses the command line, establishes the TLS options of
  its servers from the cluster's TLS profile, has registered the API types before that, and starts a controller manager with the one controller of
  \<^verbatim>\<open>internal/controller\<close>. A reconcile of that controller is a pipeline of actions over a
  \<^verbatim>\<open>ReconciliationRequest\<close> (\<^verbatim>\<open>SetupWithManager\<close> in \<^verbatim>\<open>ray_controller.go\<close>): read the
  management state, report the KubeRay release, choose the manifests, copy them to a writable directory
  and rewrite their parameters and namespace, render them with kustomize, check for cert-manager, drop
  what the platform does not know, keep the notebook ClusterRole, deploy, report the status of the
  deployments, of the distribution and of the platform handshake, and collect garbage. Deletion runs a
  clean-up of its own. The framework (\<^verbatim>\<open>odh-platform-utilities\<close>), the Kubernetes client and the
  kustomize engine are other repositories' code.

  \<^bold>\<open>How it is modelled.\<close> Strings are byte lists, Go maps association lists read by \<open>map_of\<close>, errors
  values of \<open>goerror\<close>; an action is a function from a request to its error and the request it leaves,
  also when it fails (\<open>'w action\<close>). The request (\<open>'w rr\<close>) holds the instance, the extensions (\<open>None\<close> for
  a nil map), the manifests, the resources, the file system, the answer that
  \<^verbatim>\<open>filterPlatformResources\<close> caches and the cluster, whose type \<open>'w\<close> is left open. File operations
  can fail at every point (\<open>env_fault\<close>), writes can be short, and each iteration over a map has an
  arbitrary order (\<open>env_range\<close>). The code outside the repository is a parameter: the record
  \<open>'w client\<close>, the record \<open>'w framework\<close>, and in \<open>Manager_Main\<close> the records \<open>tls_library\<close>, \<open>boot\<close> and
  \<open>other_flags\<close>, in \<open>API_Scheme\<close> the record \<open>scheme_library\<close> and in \<open>Deep_Copy\<close> the record \<open>copy_library\<close>. What a theorem needs of them is a named hypothesis of that theorem (\<open>list_lawful\<close>,
  \<open>delete_lawful\<close>, \<open>runs_in_order\<close>, \<open>actions_lawful\<close> and the others of \<open>Mem_Cluster\<close>), and the witnesses
  instantiate the parameters with an in-memory cluster and concrete functions.

  \<^bold>\<open>The theories.\<close>
  \<^item> \<open>Go_Prelude\<close>: strings, paths, the line scanner, maps and errors of Go, with the shared lemmas.
  \<^item> \<open>Ray_Types\<close>: \<^verbatim>\<open>constants.go\<close>, \<^verbatim>\<open>ray_types.go\<close> with its admission rules, objects, the
    request, the parameters, and the contract of an action: the locale \<open>status_action\<close> (only the status of
    the instance changes) and its extension \<open>gated_action\<close> (nothing happens once the component is removed),
    interpreted on the actions in their theories.
  \<^item> \<open>Params\<close>: \<^verbatim>\<open>params.go\<close>, the writable copy and \<^verbatim>\<open>params.env\<close>: parser and printer are
    inverse (locale \<open>params_codec\<close>), the merge of image variables and extra parameters is what it should be,
    the write-back is atomic and idempotent, the copy is complete; a failed copy is never repeated.
  \<^item> \<open>Overlay_Namespace\<close>: the regular expression of \<^verbatim>\<open>setOverlayNamespace\<close>, its replacement and
    \<^verbatim>\<open>applyImageParamsAction\<close>: the rewrite is exact and idempotent and stays in the copy; an empty
    key swallows the next line's first word.
  \<^item> \<open>Releases\<close>: \<^verbatim>\<open>releases.go\<close>, the version read off an image reference, against a grammar of
    references.
  \<^item> \<open>Platform_Config\<close>: \<^verbatim>\<open>configmap.go\<close>, the platform's ConfigMap, its watch and its readers.
  \<^item> \<open>Mem_Cluster\<close>: the hypotheses on client and framework, and the instances that satisfy them.
  \<^item> \<open>Status_Actions\<close>: \<^verbatim>\<open>status.go\<close> and \<^verbatim>\<open>platformReleaseAction\<close>.
  \<^item> \<open>Render\<close>: \<^verbatim>\<open>render.go\<close>, \<^verbatim>\<open>dependencies.go\<close>, \<^verbatim>\<open>platform_filter.go\<close>; the passes
    over rendered objects share the locale \<open>resource_transform\<close>, two of them \<open>transform_pair\<close>; the in-place
    filter over one backing array is the list filter.
  \<^item> \<open>Owned_GC\<close>: \<^verbatim>\<open>owned_gc.go\<close>: exactly the owned or labelled operands of the listed kinds go; every
    error is that of the call after which the deletion stopped (the cases are the relation \<open>list_fault\<close>); the
    guards on nil and foreign requests.
  \<^item> \<open>Notebook_RBAC\<close>: \<^verbatim>\<open>notebook_rbac.go\<close> and the RBAC markers of \<^verbatim>\<open>ray_controller.go\<close>.
  \<^item> \<open>Ray_Controller\<close>: the other actions of \<^verbatim>\<open>ray_controller.go\<close>, the pipeline in its order, and the
    steps of the stored resource's life (\<open>stored_step\<close>).
  \<^item> \<open>Manifest_Prep\<close>: manifest initialisation, image parameters and rendering composed: the plan is
    rendered from the copy, with its parameters and namespace set, and later reconciles write nothing.
  \<^item> \<open>Convergence\<close>: a pass that fails is repeated (\<open>requeue\<close>); when the errors end, the pass of a removed
    component and the clean-up of a deleted one end, and leave neither the notebook role nor a live operand
    of the seven listed kinds behind. A Hoare logic of actions
    (\<open>charged\<close>) with a budget of errors, and the locale \<open>retried_action\<close>.
  \<^item> \<open>Installation\<close>: the same for the pass of a managed component, on a file system that works: when the failing calls end it ends, with the
    copy of the manifests prepared, the notebook role as it is to be and the generation observed.
  \<^item> \<open>Life_Cycle\<close>: the custom resource, the operator's cache of it, the work queue and the cluster as a state
    machine (\<open>life_step\<close>, with the actor of each step; runs are \<open>life_run\<close>): user updates, deletion, other controllers, the watch, and passes that may read a
    stale cache, fail or stop half-way. The machine is the environment of the module's code, not code of the
    repository: what it excludes is said at its head. What it needs of the functions given to the builder is the locale
    \<open>module_reconciler\<close>, in which the machine's invariant is proved.
  \<^item> \<open>Ray_Life\<close>: that locale interpreted on \<open>SetupWithManager\<close>: nothing is orphaned, a deletion among the updates is noticed,
    and in every run of worker and watch a deletion that waits for the module's finalizer comes to its end.
  \<^item> \<open>Call_Bounds\<close>: how many calls the deletions make to the API server.
  \<^item> \<open>Manager_Main\<close>: \<^verbatim>\<open>cmd/main.go\<close> but its \<^verbatim>\<open>init\<close>.
  \<^item> \<open>API_Scheme\<close>: \<^verbatim>\<open>groupversion_info.go\<close> and the \<^verbatim>\<open>init\<close> of \<^verbatim>\<open>cmd/main.go\<close>; the
    contract of a registration is the locale \<open>registration\<close>.
  \<^item> \<open>Program_Start\<close>: initialisation and \<^verbatim>\<open>main\<close> composed: what a started manager knows, what ends it,
    and the exit codes of a program that is not started.
  \<^item> \<open>Deep_Copy\<close>: \<^verbatim>\<open>zz_generated.deepcopy.go\<close> over an explicit heap; the contract of a copy is the
    locale \<open>deep_copier\<close>, interpreted on all five types.
  \<^item> This theory: the properties of the pipeline as a whole.

  \<^bold>\<open>Loops and bounds.\<close> All functions that model code are total. Loops over lists are structural; the scanner of regular
  expression matches, the template expansion and the flag parser recurse on a text or argument list that
  gets shorter, the in-place filter counts its iterations down, and the search for a free temporary name
  stops after the 10000 tries of \<^verbatim>\<open>os.CreateTemp\<close>. There is no fuel. The one loop that
  may not end is the repetition of failed passes (\<open>requeue\<close>), a partial function into \<open>option\<close> that is
  proved to return when the errors are bounded, with a bound on the repetitions. The line scanner has
  its limit of 64 KiB per line, at which it fails as \<^verbatim>\<open>bufio.Scanner\<close> does.

  \<^bold>\<open>What is not modelled.\<close> The embedded manifests (a directive without behaviour) and the YAML under
  \<^verbatim>\<open>config/\<close>, logging, and the tests. Of the contexts, the deadline of the start-up and the
  cancellation of the manager's are modelled; a cancelled call is a failed one. Of the embedded API types, the heap of \<open>Deep_Copy\<close> has the
  fields the module uses. Concurrency is not, except that every client call may find the cluster
  changed: the controller runs one worker, and the only state shared between requests is the answer cached
  by \<^verbatim>\<open>filterPlatformResources\<close>, which is set once. What runs beside the
  worker (users, other controllers, the watch) is in \<open>Life_Cycle\<close> as interleaved steps; a resource created
  again after it has gone begins a new life there. That every request leads to a pass is not claimed: the
  event of a creation can be consumed while reads do not find the resource yet (as the helper
  \<^verbatim>\<open>createRayCR\<close> of \<^verbatim>\<open>ray_controller_test.go\<close> describes), and the machine has this step.
  The reads of operands are taken to be current.
\<close>

section \<open>Properties of the pipeline\<close>

text \<open>
  C3. A removed component: what reaches the deployment action is an empty plan (no manifests, no
  resources, nothing written to the file system, marked as generated so that garbage collection
  runs), or the pass has stopped with an error before it. Nothing stale that an earlier action or the
  caller had put into the request gets deployed.
\<close>

theorem removed_deploys_nothing:
  assumes "runs_in_order fw" and "ManagementState (Spec (rr_Instance r)) = Removed"
  shows "\<exists>e r1. seq_actions (before_deploy fw cli env letter base) r = (e, r1)
     \<and> ray_reconcile fw cli env letter base r =
         (if e = None then seq_actions (from_deploy fw cli base) r1 else (e, r1))
     \<and> rr_Manifests r1 = [] \<and> rr_Resources r1 = [] \<and> rr_Files r1 = rr_Files r \<and> rr_Generated r1 \<and> removed r1"
proof -
  obtain e r1 where s: "seq_actions (before_deploy fw cli env letter base) r = (e, r1)"
    by (cases "seq_actions (before_deploy fw cli env letter base) r")
  with before_deploy_removed [OF assms(2), of fw cli env letter base] reconcile_split [OF assms(1), of cli env letter base r]
  show ?thesis by (auto simp: empty_plan_def split: option.splits)
qed

text \<open>
  C2. A managed component: every object that reaches the deployment action carries the part-of label
  unless it is a CRD, is cluster-scoped or in the applications namespace, and is no
  SecurityContextConstraints unless the REST mapper knew them.
\<close>

theorem managed_deploys_operands:
  assumes "runs_in_order fw" and "rr_Resources r = []"
    and "seq_actions (before_deploy fw cli env letter base) r = (None, r1)"
  shows "ray_reconcile fw cli env letter base r = seq_actions (from_deploy fw cli base) r1
     \<and> (\<forall>x \<in> set (rr_Resources r1).
          (Kind (obj_GVK x) \<noteq> ''CustomResourceDefinition'' \<longrightarrow>
             gomap_get (obj_Labels x) ''platform.opendatahub.io/part-of'' = ''ray'')
          \<and> (apps_ns r \<noteq> [] \<longrightarrow> obj_Namespace x = [] \<or> obj_Namespace x = apps_ns r)
          \<and> (rr_SCC r1 \<noteq> Some True \<longrightarrow> Kind (obj_GVK x) \<noteq> ''SecurityContextConstraints''
               \<or> Group (obj_GVK x) \<noteq> ''security.openshift.io''))"
proof -
  have "good_plan (apps_ns r) r" using assms(2) by (simp add: good_plan_def)
  then have "good_plan (apps_ns r) (snd (seq_actions (before_deploy fw cli env letter base) r))"
    by (rule seq_actions_invariant [where P = "good_plan (apps_ns r)", rotated]) (rule before_deploy_good)
  then have "list_all (operand_ok (apps_ns r)) (rr_Resources r1)" using assms(3) by (simp add: good_plan_def)
  moreover have "ray_reconcile fw cli env letter base r = seq_actions (from_deploy fw cli base) r1"
    using assms(3) by (simp add: reconcile_split [OF assms(1)])
  ultimately show ?thesis
    using before_deploy_scc [OF assms(3)] by (auto simp: operand_ok_def list_all_iff is_scc_def)
qed

text \<open>
  C13. A pass writes the status of the custom resource and nothing else of it, on every path: but for
  the status the instance is the one it began with, its name, UID, generation, deletion timestamp and
  finalizers as well as its spec.
\<close>

theorem reconcile_status_only:
  assumes "runs_in_order fw" and "actions_lawful fw" and "conditions_lawful fw"
    and "ray_reconcile fw cli env letter base r = (e, r')"
  shows "rr_Instance r' = (rr_Instance r)\<lparr>Status := Status (rr_Instance r')\<rparr>"
  using cr_frame_update [OF pipeline_frame [OF assms(1-3), of r cli env letter base]] assms(4) by simp

text \<open>
  The observed generation tells the truth: after a pass without error it is the generation of
  the instance.
\<close>

theorem reconcile_observes_generation:
  assumes "runs_in_order fw" and "gc_lawful fw view"
    and "ray_reconcile fw cli env letter base r = (None, r')"
  shows "ObservedGeneration (Status (rr_Instance r')) = meta_Generation (rr_Instance r')"
  using pipeline_observed [OF assms] .

text \<open>
  C12. Over the life of the stored resource, whatever its users submit and however often the operator
  runs: an applications namespace once set never changes, and the resource stays the singleton.
\<close>

theorem namespace_immutable:
  assumes "runs_in_order fw" and "actions_lawful fw" and "conditions_lawful fw" and "finalizer_lawful fw"
    and "(stored_step fw cli env letter base)\<^sup>*\<^sup>* s s'"
  shows "(ApplicationsNamespace (Spec s) \<noteq> [] \<longrightarrow> ApplicationsNamespace (Spec s') = ApplicationsNamespace (Spec s))
     \<and> (meta_Name s = ''default-ray'' \<longrightarrow> meta_Name s' = ''default-ray'')"
  using assms(5)
proof (induction rule: rtranclp_induct)
  case (step y z)
  with stored_step_keeps [OF assms(1-4) step(2)] show ?case
    by (auto simp: cel_namespace_rule_def cel_name_rule_def)
qed simp

text \<open>
  Garbage collection: for a removed component a successful run leaves no live operand of a listed
  kind that the resource owns or that carries its label, whatever the framework's collector does beyond
  deleting; for a managed one nothing but the framework's owned-only collector runs.
\<close>

theorem reconcileGC_clears:
  assumes "list_lawful cli view" and "delete_lawful cli view" and "gc_lawful fw view"
    and "inj_on obj_key (set (view (rr_Cluster r)))"
    and "reconcileGCAction fw cli namespaceFn r = (e, r')"
  shows "(removed r \<and> e = None \<longrightarrow> (\<forall>x \<in> set (view (rr_Cluster r')). \<not> operand_target (rr_Instance r) x))
     \<and> (\<not> removed r \<longrightarrow> (e, r') = fw_gc fw namespaceFn [WithDeletePropagationPolicy ''Background''] r)"
  using reconcileGC_effect(2) [OF assms(2,1,3) _ _ assms(5)] assms(4,5)
  by (auto simp: distinct_keys_def reconcileGCAction_def)

text \<open>
  Deletion of the custom resource: with a namespace, a clean-up that succeeds leaves neither the
  notebook role nor a live operand of a listed kind; without one nothing was deployed, and the clean-up
  succeeds at once without touching anything, so that the finalizer cannot stick.
\<close>

theorem deletionCleanup_complete:
  assumes "get_lawful cli view" and "update_lawful cli view" and "delete_lawful cli view"
    and "list_lawful cli view" and "gc_lawful fw view"
    and "inj_on obj_key (set (view (rr_Cluster r)))"
    and "deletionCleanupAction fw cli namespaceFn r = (e, r')"
  shows "(apps_ns r = [] \<longrightarrow> e = None \<and> r' = r)
     \<and> (apps_ns r \<noteq> [] \<and> e = None \<longrightarrow>
          (\<forall>x \<in> set (view (rr_Cluster r')). obj_key x \<noteq> role_key \<and> \<not> operand_target (rr_Instance r) x))"
  using deletionCleanup_effect(2) [OF assms(1-5) _ _ assms(7)] assms(6,7)
  by (auto simp: distinct_keys_def deletionCleanupAction_def namespaceFn_def)

section \<open>Witnesses\<close>

theorem removed_deploys_nothing_witness:
  "rr_Resources sample_removed \<noteq> [] \<and> rr_Resources (snd (seq_actions sample_before sample_removed)) = []"
  using removed_deploys_nothing [OF sample_pipeline_lawful(1) sample_requests(1),
      of mem_client sample_env "\<lambda>s. 0" "''/opt/manifests''"] sample_requests(4)
  by auto

theorem managed_deploys_operands_witness:
  "list_all (\<lambda>x. obj_Namespace x = [] \<or> obj_Namespace x = ''odh'')
     (rr_Resources (snd (seq_actions sample_before sample_managed)))"
proof -
  have "fst (seq_actions sample_before sample_managed) = None" by code_simp
  then have "seq_actions sample_before sample_managed = (None, snd (seq_actions sample_before sample_managed))"
    by (metis prod.collapse)
  moreover have "apps_ns sample_managed = ''odh''" by code_simp
  ultimately show ?thesis
    using managed_deploys_operands [OF sample_pipeline_lawful(1) sample_requests(3)] unfolding list_all_iff by fastforce
qed

theorem reconcile_status_only_witness:
  "rr_Instance (snd (sample_reconcile sample_managed))
     = (rr_Instance sample_managed)\<lparr>Status := Status (rr_Instance (snd (sample_reconcile sample_managed)))\<rparr>"
  by (rule reconcile_status_only [OF sample_pipeline_lawful(1-3) prod.collapse [symmetric]])

theorem reconcile_observes_generation_witness:
  "ObservedGeneration (Status (rr_Instance (snd (sample_reconcile sample_managed))))
     = meta_Generation (rr_Instance (snd (sample_reconcile sample_managed)))"
proof -
  have "fst (sample_reconcile sample_managed) = None" by code_simp
  then have "sample_reconcile sample_managed = (None, snd (sample_reconcile sample_managed))"
    by (metis prod.collapse)
  then show ?thesis by (rule reconcile_observes_generation [OF sample_pipeline_lawful(1,5)])
qed

theorem namespace_immutable_witness:
  "ApplicationsNamespace (Spec (rr_Instance (snd (sample_reconcile sample_managed)))) = ''odh''"
proof -
  have "stored_step sample_pipeline mem_client sample_env (\<lambda>s. 0) ''/opt/manifests'' sample_ray
      (rr_Instance (snd (sample_reconcile sample_managed)))"
    by (rule stored_step.reconcile) (simp add: sample_managed_def sample_rr_def)
  from namespace_immutable [OF sample_pipeline_lawful(1-4) r_into_rtranclp, OF this]
  show ?thesis by (simp add: sample_ray_def)
qed

theorem reconcileGC_clears_witness:
  "list_all (\<lambda>x. \<not> operand_target (rr_Instance sample_removed) x)
     (cl_Objs (rr_Cluster (snd (reconcileGCAction sample_pipeline mem_client namespaceFn sample_removed))))"
proof -
  have "fst (reconcileGCAction sample_pipeline mem_client namespaceFn sample_removed) = None" by code_simp
  with reconcileGC_clears [OF mem_client_lawful(1,2) sample_pipeline_lawful(5) sample_requests(6) prod.collapse [symmetric]]
    sample_requests(2)
  show ?thesis unfolding list_all_iff by blast
qed

theorem deletionCleanup_complete_witness:
  "list_all (\<lambda>x. obj_key x \<noteq> role_key \<and> \<not> operand_target (rr_Instance sample_removed) x)
     (cl_Objs (rr_Cluster (snd (deletionCleanupAction sample_pipeline mem_client namespaceFn sample_removed))))"
proof -
  have "fst (deletionCleanupAction sample_pipeline mem_client namespaceFn sample_removed) = None" by code_simp
  with deletionCleanup_complete [OF mem_client_lawful(3,4,2,1) sample_pipeline_lawful(5) sample_requests(6)
      prod.collapse [symmetric]] sample_requests(7)
  show ?thesis unfolding list_all_iff by blast
qed

end
